(* ===== verification/Emersia_Prelude.thy ===== *)
theory Emersia_Prelude
  imports Main "HOL-Library.Word"
begin

unbundle bit_operations_syntax

text \<open>
  Shared vocabulary of the development: the machine integers of the Rust sources, results as
  sums, byte strings with the big-endian encodings of \<^verbatim>\<open>u16/u32/u64::to_be_bytes\<close>, the slice
  operations the code uses (\<^verbatim>\<open>get(a..b)\<close>, \<^verbatim>\<open>chunks\<close>, \<^verbatim>\<open>strip_prefix\<close>), Rust's \<^verbatim>\<open>str\<close> as the list of
  its UTF-8 bytes, and association lists for the \<^verbatim>\<open>HashMap\<close>/\<^verbatim>\<open>BTreeMap\<close> fields.  Everything here is
  about the language and its standard library; nothing models a file of the repository.
\<close>

section \<open>Machine integers and results\<close>

type_synonym u8 = "8 word"
type_synonym u16 = "16 word"
type_synonym u32 = "32 word"
type_synonym u64 = "64 word"
type_synonym bytes = "8 word list"

text \<open>Rust's \<^verbatim>\<open>Result<T, E>\<close> is the sum \<open>'e + 't\<close>, error first.\<close>

abbreviation Err :: "'e \<Rightarrow> 'e + 'a" where "Err \<equiv> Inl"
abbreviation Ok :: "'a \<Rightarrow> 'e + 'a" where "Ok \<equiv> Inr"

definition is_ok :: "'e + 'a \<Rightarrow> bool" where
  "is_ok r = (case r of Inl _ \<Rightarrow> False | Inr _ \<Rightarrow> True)"

lemma is_ok_simps [simp]: "is_ok (Ok x)" "\<not> is_ok (Err e)"
  by (simp_all add: is_ok_def)

lemma is_okE: "is_ok r \<Longrightarrow> (\<And>x. r = Ok x \<Longrightarrow> P) \<Longrightarrow> P"
  by (cases r) auto

text \<open>\<^verbatim>\<open>Result::map_err\<close> and \<^verbatim>\<open>Option::ok_or\<close>.\<close>

definition map_err :: "('e \<Rightarrow> 'f) \<Rightarrow> 'e + 'a \<Rightarrow> 'f + 'a" where
  "map_err f r = (case r of Inl e \<Rightarrow> Inl (f e) | Inr x \<Rightarrow> Inr x)"

definition ok_or :: "'a option \<Rightarrow> 'e \<Rightarrow> 'e + 'a" where
  "ok_or x e = (case x of None \<Rightarrow> Inl e | Some v \<Rightarrow> Inr v)"

lemma map_err_simps [simp]: "map_err f (Ok x) = Ok x" "map_err f (Err e) = Err (f e)"
  by (simp_all add: map_err_def)

lemma ok_or_simps [simp]: "ok_or (Some v) e = Ok v" "ok_or None e = Err e"
  by (simp_all add: ok_or_def)

lemma ok_or_eq_Ok [simp]: "ok_or x e = Ok v \<longleftrightarrow> x = Some v"
  by (cases x) auto

lemma map_err_eq_Ok [simp]: "map_err f r = Ok v \<longleftrightarrow> r = Ok v"
  by (cases r) auto

text \<open>The largest values of the unsigned types the code converts to.\<close>

definition u16_max :: nat where "u16_max = 65535"
definition u32_max :: nat where "u32_max = 4294967295"
definition i32_max :: nat where "i32_max = 2147483647"
definition u64_max :: nat where "u64_max = 18446744073709551615"

text \<open>\<^verbatim>\<open>u16::try_from(usize)\<close>: a value only when it fits.\<close>

definition u16_try_from :: "nat \<Rightarrow> u16 option" where
  "u16_try_from n = (if n \<le> u16_max then Some (of_nat n) else None)"

lemma unat_of_nat_u16 [simp]: "n \<le> u16_max \<Longrightarrow> unat (of_nat n :: u16) = n"
  by (simp add: unat_of_nat u16_max_def)

lemma u16_try_from_eq_Some:
  "u16_try_from n = Some w \<longleftrightarrow> n \<le> u16_max \<and> w = of_nat n"
  by (auto simp: u16_try_from_def)

lemma unat_u16_le: "unat (w :: u16) \<le> u16_max"
  using unsigned_less [where 'a = nat and w = w] by (simp add: u16_max_def)

lemma unat_u32_less: "unat (w :: u32) < 4294967296"
  using unsigned_less [where 'a = nat and w = w] by simp

lemma unat_u8_less: "unat (w :: u8) < 256"
  using unsigned_less [where 'a = nat and w = w] by simp

section \<open>Big-endian byte encodings\<close>

named_theorems be_simps \<open>byte layouts of the fixed-width integers\<close>

fun be_bytes :: "nat \<Rightarrow> 'a::len word \<Rightarrow> bytes" where
  "be_bytes 0 w = []"
| "be_bytes (Suc n) w = be_bytes n (drop_bit 8 w) @ [ucast w]"

definition from_be :: "bytes \<Rightarrow> 'a::len word" where
  "from_be bs = foldl (\<lambda>acc b. push_bit 8 acc OR ucast b) 0 bs"

abbreviation be16 :: "u16 \<Rightarrow> bytes" where "be16 \<equiv> be_bytes 2"
abbreviation be32 :: "u32 \<Rightarrow> bytes" where "be32 \<equiv> be_bytes 4"
abbreviation be64 :: "u64 \<Rightarrow> bytes" where "be64 \<equiv> be_bytes 8"

lemma length_be_bytes [simp]: "length (be_bytes n w) = n"
  by (induction n arbitrary: w) auto

lemma be16_eq [be_simps]: "be16 w = [ucast (drop_bit 8 w), ucast w]"
  by (simp add: numeral_2_eq_2)

lemma be32_eq [be_simps]:
  "be32 w = [ucast (drop_bit 24 w), ucast (drop_bit 16 w), ucast (drop_bit 8 w), ucast w]"
  by (simp add: eval_nat_numeral drop_bit_drop_bit)

lemma be64_eq [be_simps]:
  "be64 w = [ucast (drop_bit 56 w), ucast (drop_bit 48 w), ucast (drop_bit 40 w),
     ucast (drop_bit 32 w), ucast (drop_bit 24 w), ucast (drop_bit 16 w),
     ucast (drop_bit 8 w), ucast w]"
  by (simp add: eval_nat_numeral drop_bit_drop_bit)

lemma from_be_Nil [simp]: "from_be [] = 0"
  by (simp add: from_be_def)

lemma from_be_snoc: "from_be (bs @ [b]) = push_bit 8 (from_be bs) OR ucast b"
  by (simp add: from_be_def)

lemma from_be_be_bytes_take:
  "from_be (be_bytes n w) = take_bit (8 * n) (w :: 'a::len word)"
proof (induction n arbitrary: w)
  case 0
  then show ?case by simp
next
  case (Suc n)
  have "push_bit 8 (take_bit (8 * n) (drop_bit 8 w)) OR ucast (ucast w :: u8)
      = take_bit (8 * Suc n) w"
    by (rule bit_word_eqI) (auto simp: bit_simps)
  then show ?case
    by (simp add: from_be_snoc Suc.IH)
qed

lemma from_be_be_bytes [simp]:
  "LENGTH('a) \<le> 8 * n \<Longrightarrow> from_be (be_bytes n w) = (w :: 'a::len word)"
  by (simp add: from_be_be_bytes_take take_bit_word_eq_self)

lemma be_bytes_inject [simp]:
  "LENGTH('a) \<le> 8 * n \<Longrightarrow> be_bytes n v = be_bytes n w \<longleftrightarrow> v = (w :: 'a::len word)"
  by (metis from_be_be_bytes)

lemma be_bytes_from_be [simp]:
  assumes "length bs = n" and "8 * n \<le> LENGTH('a)"
  shows "be_bytes n (from_be bs :: 'a::len word) = bs"
  using assms
proof (induction bs arbitrary: n rule: rev_induct)
  case Nil
  then show ?case by simp
next
  case (snoc b bs)
  let ?w = "from_be bs :: 'a word"
  from snoc.prems obtain m where n: "n = Suc m" and m: "length bs = m" by (cases n) auto
  have big: "8 + 8 * m \<le> LENGTH('a)" using snoc.prems n by simp
  have len: "bit ?w k \<Longrightarrow> k < 8 * m" for k
  proof -
    assume "bit ?w k"
    moreover have "take_bit (8 * m) ?w = ?w"
      using from_be_be_bytes_take [of m ?w] snoc.IH [OF m] big by simp
    ultimately show "k < 8 * m" by (metis bit_take_bit_iff)
  qed
  have "drop_bit 8 (push_bit 8 ?w OR ucast b) = ?w"
    by (rule bit_word_eqI) (use big len in \<open>fastforce simp: bit_simps dest: bit_imp_le_length\<close>)
  moreover have "(ucast (push_bit 8 ?w OR (ucast b :: 'a word)) :: u8) = b"
    by (rule bit_word_eqI) (use big in \<open>auto simp: bit_simps\<close>)
  ultimately show ?case
    using snoc.IH [OF m] big by (simp add: n from_be_snoc)
qed

section \<open>Slices\<close>

text \<open>\<^verbatim>\<open>&xs[a..b]\<close> (where it does not panic), \<^verbatim>\<open>xs.get(a..b)\<close>, \<^verbatim>\<open>xs.chunks(n)\<close>.\<close>

definition slice :: "'a list \<Rightarrow> nat \<Rightarrow> nat \<Rightarrow> 'a list" where
  "slice xs a b = take (b - a) (drop a xs)"

definition get_range :: "'a list \<Rightarrow> nat \<Rightarrow> nat \<Rightarrow> 'a list option" where
  "get_range xs a b = (if a \<le> b \<and> b \<le> length xs then Some (slice xs a b) else None)"

function chunks :: "nat \<Rightarrow> 'a list \<Rightarrow> 'a list list" where
  "chunks n xs = (if xs = [] \<or> n = 0 then [] else take n xs # chunks n (drop n xs))"
  by pat_completeness auto
termination by (relation "measure (\<lambda>(n, xs). length xs)") auto

declare chunks.simps [simp del]

lemma length_slice [simp]: "b \<le> length xs \<Longrightarrow> length (slice xs a b) = b - a"
  by (simp add: slice_def)

lemma slice_append1 [simp]: "b \<le> length xs \<Longrightarrow> slice (xs @ ys) a b = slice xs a b"
  by (simp add: slice_def)

lemma slice_append2: "length xs \<le> a \<Longrightarrow> slice (xs @ ys) a b = slice ys (a - length xs) (b - length xs)"
  by (simp add: slice_def)

lemma slice_all [simp]: "length xs \<le> b \<Longrightarrow> slice xs 0 b = xs"
  by (simp add: slice_def)

lemma slice_concat:
  "a \<le> b \<Longrightarrow> b \<le> c \<Longrightarrow> slice xs a b @ slice xs b c = slice xs a c"
proof -
  assume "a \<le> b" "b \<le> c"
  then have "drop b xs = drop (b - a) (drop a xs)" and "c - a = (b - a) + (c - b)" by simp_all
  then show ?thesis by (simp add: slice_def take_add)
qed

lemma nth_slice: "i < b - a \<Longrightarrow> b \<le> length xs \<Longrightarrow> slice xs a b ! i = xs ! (a + i)"
  by (simp add: slice_def)

lemma chunks_Nil [simp]: "chunks n [] = []"
  by (simp add: chunks.simps)

lemma concat_chunks [simp]: "0 < n \<Longrightarrow> concat (chunks n xs) = xs"
proof (induction n xs rule: chunks.induct)
  case (1 n xs)
  then show ?case by (cases "xs = []") (simp_all add: chunks.simps [of n xs])
qed

lemma length_chunk_le: "c \<in> set (chunks n xs) \<Longrightarrow> length c \<le> n"
proof (induction n xs rule: chunks.induct)
  case (1 n xs)
  then show ?case by (cases "xs = [] \<or> n = 0") (auto simp: chunks.simps [of n xs])
qed

lemma chunk_not_empty: "c \<in> set (chunks n xs) \<Longrightarrow> c \<noteq> []"
proof (induction n xs rule: chunks.induct)
  case (1 n xs)
  then show ?case by (cases "xs = [] \<or> n = 0") (auto simp: chunks.simps [of n xs])
qed

lemma length_chunks: "0 < n \<Longrightarrow> length (chunks n xs) = (length xs + n - 1) div n"
proof (induction n xs rule: chunks.induct)
  case (1 n xs)
  show ?case
  proof (cases "xs = []")
    case True
    with 1 show ?thesis by simp
  next
    case False
    with 1 have IH: "length (chunks n (drop n xs)) = (length xs - n + n - 1) div n" by simp
    show ?thesis
    proof (cases "n \<le> length xs")
      case True
      with 1(2) have "(length xs + n - 1) div n = Suc ((length xs - 1) div n)"
        using div_add_self2 [of n "length xs - 1"] False by (simp add: Suc_leI)
      with True IH False 1(2) show ?thesis by (simp add: chunks.simps [of n xs])
    next
      case short: False
      moreover have "0 < length xs" using False by blast
      ultimately have "(length xs + n - 1) div n = 1" using 1(2)
        by (cases xs) (auto intro!: div_nat_eqI)
      with IH False short 1(2) show ?thesis by (simp add: chunks.simps [of n xs])
    qed
  qed
qed

section \<open>Association lists for the map-valued fields\<close>

text \<open>
  A \<^verbatim>\<open>HashMap\<close> or \<^verbatim>\<open>BTreeMap\<close> is the list of its entries, each key at most once; the order of the
  list is the order in which an iteration visits the entries.
\<close>

fun al_insert :: "'k \<Rightarrow> 'v \<Rightarrow> ('k \<times> 'v) list \<Rightarrow> ('k \<times> 'v) list" where
  "al_insert k v [] = [(k, v)]"
| "al_insert k v ((k', v') # m) = (if k = k' then (k, v) # m else (k', v') # al_insert k v m)"

definition al_remove :: "'k \<Rightarrow> ('k \<times> 'v) list \<Rightarrow> ('k \<times> 'v) list" where
  "al_remove k m = filter (\<lambda>(k', _). k' \<noteq> k) m"

definition al_wf :: "('k \<times> 'v) list \<Rightarrow> bool" where
  "al_wf m = distinct (map fst m)"

lemma al_wf_Nil [simp]: "al_wf []"
  by (simp add: al_wf_def)

lemma al_get_insert [simp]: "map_of (al_insert k v m) = (map_of m)(k \<mapsto> v)"
  by (induction k v m rule: al_insert.induct) (auto simp: fun_eq_iff)

lemma al_get_remove [simp]: "map_of (al_remove k m) = (map_of m)(k := None)"
  by (induction m) (auto simp: al_remove_def fun_eq_iff)

lemma keys_al_insert: "fst ` set (al_insert k v m) = insert k (fst ` set m)"
  by (induction k v m rule: al_insert.induct) auto

lemma al_wf_insert [simp]: "al_wf m \<Longrightarrow> al_wf (al_insert k v m)"
  unfolding al_wf_def
  by (induction k v m rule: al_insert.induct) (auto simp: keys_al_insert)

lemma al_wf_filter [simp]: "al_wf m \<Longrightarrow> al_wf (filter P m)"
  by (auto simp: al_wf_def intro: distinct_map_filter)

lemma al_wf_remove [simp]: "al_wf m \<Longrightarrow> al_wf (al_remove k m)"
  by (simp add: al_remove_def)

lemma length_al_insert:
  "length (al_insert k v m) = (if map_of m k = None then Suc (length m) else length m)"
  by (induction k v m rule: al_insert.induct) auto

lemma set_al_insert: "set (al_insert k v m) \<subseteq> insert (k, v) (set m)"
  by (induction k v m rule: al_insert.induct) auto

lemma map_of_filter_wf:
  "al_wf m \<Longrightarrow>
   map_of (filter P m) k = (case map_of m k of None \<Rightarrow> None | Some v \<Rightarrow> if P (k, v) then Some v else None)"
  by (induction m) (auto simp: al_wf_def map_of_eq_None_iff split: option.splits dest: map_of_SomeD)

lemma al_get_iff: "al_wf m \<Longrightarrow> map_of m k = Some v \<longleftrightarrow> (k, v) \<in> set m"
  by (simp add: al_wf_def)

lemma length_filter_al_insert_le:
  "length (filter P (al_insert k v m)) \<le> Suc (length (filter P m))"
  by (induction k v m rule: al_insert.induct) auto

section \<open>Rust strings\<close>

text \<open>
  A Rust \<^verbatim>\<open>str\<close> is the list of its UTF-8 bytes, one \<^typ>\<open>char\<close> per byte, so \<^verbatim>\<open>len()\<close> is \<^const>\<open>length\<close> and
  the literals of the source are literals here.  \<open>byte_of\<close> and \<open>str_of_bytes\<close> convert between a byte
  string and \<^typ>\<open>bytes\<close>.
\<close>

definition byte_of :: "char \<Rightarrow> u8" where
  "byte_of c = of_nat (of_char c)"

definition as_bytes :: "string \<Rightarrow> bytes" where
  "as_bytes s = map byte_of s"

definition str_of_bytes :: "bytes \<Rightarrow> string" where
  "str_of_bytes bs = map (\<lambda>b. char_of (unat b)) bs"

lemma byte_of_char_of [simp]: "byte_of (char_of (unat b)) = b"
  using unat_u8_less [of b] by (simp add: byte_of_def of_char_of)

lemma char_of_byte_of [simp]: "char_of (unat (byte_of c)) = c"
  by (simp add: byte_of_def unat_of_nat of_char_mod_256)

lemma as_bytes_str_of_bytes [simp]: "as_bytes (str_of_bytes bs) = bs"
  by (simp add: as_bytes_def str_of_bytes_def comp_def)

lemma str_of_bytes_as_bytes [simp]: "str_of_bytes (as_bytes s) = s"
  by (simp add: as_bytes_def str_of_bytes_def comp_def)

lemma length_as_bytes [simp]: "length (as_bytes s) = length s"
  by (simp add: as_bytes_def)

lemma length_str_of_bytes [simp]: "length (str_of_bytes s) = length s"
  by (simp add: str_of_bytes_def)

text \<open>Continuation bytes, char boundaries, \<^verbatim>\<open>chars().count()\<close> and \<^verbatim>\<open>str::from_utf8\<close>.\<close>

definition is_cont :: "u8 \<Rightarrow> bool" where
  "is_cont b \<longleftrightarrow> 0x80 \<le> b \<and> b \<le> 0xBF"

definition is_char_boundary :: "string \<Rightarrow> nat \<Rightarrow> bool" where
  "is_char_boundary s i \<longleftrightarrow> i = length s \<or> (i < length s \<and> \<not> is_cont (byte_of (s ! i)))"

definition chars_count :: "string \<Rightarrow> nat" where
  "chars_count s = length (filter (\<lambda>c. \<not> is_cont (byte_of c)) s)"

function valid_utf8 :: "bytes \<Rightarrow> bool" where
  "valid_utf8 [] = True"
| "valid_utf8 (b # bs) =
     (if b < 0x80 then valid_utf8 bs
      else if 0xC2 \<le> b \<and> b \<le> 0xDF then
        1 \<le> length bs \<and> is_cont (bs ! 0) \<and> valid_utf8 (drop 1 bs)
      else if 0xE0 \<le> b \<and> b \<le> 0xEF then
        2 \<le> length bs \<and> is_cont (bs ! 0) \<and> is_cont (bs ! 1)
        \<and> (b \<noteq> 0xE0 \<or> 0xA0 \<le> bs ! 0) \<and> (b \<noteq> 0xED \<or> bs ! 0 \<le> 0x9F)
        \<and> valid_utf8 (drop 2 bs)
      else if 0xF0 \<le> b \<and> b \<le> 0xF4 then
        3 \<le> length bs \<and> is_cont (bs ! 0) \<and> is_cont (bs ! 1) \<and> is_cont (bs ! 2)
        \<and> (b \<noteq> 0xF0 \<or> 0x90 \<le> bs ! 0) \<and> (b \<noteq> 0xF4 \<or> bs ! 0 \<le> 0x8F)
        \<and> valid_utf8 (drop 3 bs)
      else False)"
  by pat_completeness auto
termination by (relation "measure length") auto

definition from_utf8 :: "bytes \<Rightarrow> string option" where
  "from_utf8 bs = (if valid_utf8 bs then Some (str_of_bytes bs) else None)"

lemma valid_utf8_ascii: "list_all (\<lambda>b. b < 0x80) bs \<Longrightarrow> valid_utf8 bs"
  by (induction bs) auto

text \<open>
  \<^verbatim>\<open>str::trim\<close>: the Unicode \<open>White_Space\<close> characters, by their UTF-8 encodings.
\<close>

definition ws_encodings :: "string list" where
  "ws_encodings = map (map char_of)
     ([[9], [10], [11], [12], [13], [32], [0xC2, 0x85], [0xC2, 0xA0], [0xE1, 0x9A, 0x80],
       [0xE2, 0x80, 0x80], [0xE2, 0x80, 0x81], [0xE2, 0x80, 0x82], [0xE2, 0x80, 0x83],
       [0xE2, 0x80, 0x84], [0xE2, 0x80, 0x85], [0xE2, 0x80, 0x86], [0xE2, 0x80, 0x87],
       [0xE2, 0x80, 0x88], [0xE2, 0x80, 0x89], [0xE2, 0x80, 0x8A], [0xE2, 0x80, 0xA8],
       [0xE2, 0x80, 0xA9], [0xE2, 0x80, 0xAF], [0xE2, 0x81, 0x9F], [0xE3, 0x80, 0x80]] :: nat list list)"

definition ws_prefix_len :: "string list \<Rightarrow> string \<Rightarrow> nat" where
  "ws_prefix_len ws s =
     (case filter (\<lambda>w. take (length w) s = w) ws of [] \<Rightarrow> 0 | w # _ \<Rightarrow> length w)"

function strip_ws :: "string list \<Rightarrow> string \<Rightarrow> string" where
  "strip_ws ws s =
     (if ws_prefix_len ws s = 0 \<or> s = [] then s else strip_ws ws (drop (ws_prefix_len ws s) s))"
  by pat_completeness auto
termination by (relation "measure (\<lambda>(ws, s). length s)") auto

declare strip_ws.simps [simp del]

definition trim :: "string \<Rightarrow> string" where
  "trim s = rev (strip_ws (map rev ws_encodings) (rev (strip_ws ws_encodings s)))"

lemma strip_ws_none: "ws_prefix_len ws s = 0 \<Longrightarrow> strip_ws ws s = s"
  by (simp add: strip_ws.simps)

lemma ws_prefix_len_none:
  assumes "s \<noteq> []" and "\<forall>w \<in> set ws. w \<noteq> [] \<and> hd w \<noteq> hd s"
  shows "ws_prefix_len ws s = 0"
proof -
  have "take (length w) s \<noteq> w" if "w \<in> set ws" for w
  proof
    assume "take (length w) s = w"
    moreover have "w \<noteq> []" "hd w \<noteq> hd s" using assms(2) that by auto
    ultimately show False using assms(1) by (metis hd_take length_greater_0_conv)
  qed
  then have "filter (\<lambda>w. take (length w) s = w) ws = []" by (simp add: filter_empty_conv)
  then show ?thesis by (simp add: ws_prefix_len_def)
qed

text \<open>Printing ASCII characters begin and end no white space, so a text between two of them is trimmed already.\<close>

definition plain_char :: "char \<Rightarrow> bool" where
  "plain_char c \<longleftrightarrow> 32 < (of_char c :: nat) \<and> (of_char c :: nat) < 128"

lemma ws_not_plain: "w \<in> set ws_encodings \<Longrightarrow> w \<noteq> [] \<and> \<not> plain_char (hd w) \<and> \<not> plain_char (last w)"
  by (auto simp: ws_encodings_def plain_char_def)

lemma strip_ws_plain:
  assumes "s \<noteq> []" and "plain_char (hd s)"
  shows "strip_ws ws_encodings s = s" and "strip_ws (map rev ws_encodings) s = s"
proof -
  have "\<forall>w \<in> set ws_encodings. w \<noteq> [] \<and> hd w \<noteq> hd s" using ws_not_plain assms(2) by metis
  then show "strip_ws ws_encodings s = s" using assms(1) by (intro strip_ws_none ws_prefix_len_none)
  have "\<forall>w \<in> set ws_encodings. rev w \<noteq> [] \<and> hd (rev w) \<noteq> hd s" using ws_not_plain assms(2) hd_rev by (metis rev_is_Nil_conv)
  then have "\<forall>w \<in> set (map rev ws_encodings). w \<noteq> [] \<and> hd w \<noteq> hd s" by simp
  then show "strip_ws (map rev ws_encodings) s = s" using assms(1) by (intro strip_ws_none ws_prefix_len_none)
qed

lemma trim_plain: "s \<noteq> [] \<Longrightarrow> plain_char (hd s) \<Longrightarrow> plain_char (last s) \<Longrightarrow> trim s = s"
  by (simp add: trim_def strip_ws_plain hd_rev)

lemma strip_ws_suffix: "\<exists>p. s = p @ strip_ws ws s"
proof (induction ws s rule: strip_ws.induct)
  case (1 ws s)
  show ?case
  proof (cases "ws_prefix_len ws s = 0 \<or> s = []")
    case True
    then show ?thesis by (simp add: strip_ws.simps [of ws s])
  next
    case False
    with 1 obtain p where "drop (ws_prefix_len ws s) s = p @ strip_ws ws (drop (ws_prefix_len ws s) s)"
      by blast
    then have "s = (take (ws_prefix_len ws s) s @ p) @ strip_ws ws (drop (ws_prefix_len ws s) s)"
      by (metis append.assoc append_take_drop_id)
    then show ?thesis using False by (metis strip_ws.simps)
  qed
qed

lemma length_trim_le: "length (trim s) \<le> length s"
proof -
  have "length (strip_ws ws t) \<le> length t" for ws t
    using strip_ws_suffix [of t ws] by (metis length_append le_add2)
  then show ?thesis unfolding trim_def by (metis length_rev order_trans)
qed

lemma trim_Nil [simp]: "trim [] = []"
  by (simp add: trim_def strip_ws.simps)

text \<open>ASCII classes and case folding (\<^verbatim>\<open>char::is_ascii_alphanumeric\<close> and its kin).\<close>

definition is_ascii_digit :: "char \<Rightarrow> bool" where
  "is_ascii_digit c \<longleftrightarrow> 48 \<le> (of_char c :: nat) \<and> (of_char c :: nat) \<le> 57"

definition is_ascii_upper :: "char \<Rightarrow> bool" where
  "is_ascii_upper c \<longleftrightarrow> 65 \<le> (of_char c :: nat) \<and> (of_char c :: nat) \<le> 90"

definition is_ascii_lower :: "char \<Rightarrow> bool" where
  "is_ascii_lower c \<longleftrightarrow> 97 \<le> (of_char c :: nat) \<and> (of_char c :: nat) \<le> 122"

definition is_ascii_alphanumeric :: "char \<Rightarrow> bool" where
  "is_ascii_alphanumeric c \<longleftrightarrow> is_ascii_digit c \<or> is_ascii_upper c \<or> is_ascii_lower c"

definition to_ascii_uppercase :: "char \<Rightarrow> char" where
  "to_ascii_uppercase c = (if is_ascii_lower c then char_of ((of_char c :: nat) - 32) else c)"

definition to_ascii_lowercase :: "char \<Rightarrow> char" where
  "to_ascii_lowercase c = (if is_ascii_upper c then char_of ((of_char c :: nat) + 32) else c)"

definition eq_ignore_ascii_case :: "string \<Rightarrow> string \<Rightarrow> bool" where
  "eq_ignore_ascii_case a b \<longleftrightarrow> map to_ascii_lowercase a = map to_ascii_lowercase b"

lemma eq_ignore_ascii_case_refl [simp]: "eq_ignore_ascii_case a a"
  by (simp add: eq_ignore_ascii_case_def)

lemma upper_digit [simp]: "is_ascii_digit c \<Longrightarrow> to_ascii_uppercase c = c"
  by (auto simp: is_ascii_digit_def to_ascii_uppercase_def is_ascii_lower_def)

text \<open>\<^verbatim>\<open>u8::from_str_radix(s, 16)\<close> and \<^verbatim>\<open>u32::from_str\<close>: digits, with an optional leading plus.\<close>

definition digit_val :: "nat \<Rightarrow> char \<Rightarrow> nat option" where
  "digit_val radix c =
     (let n = (of_char c :: nat);
          d = (if is_ascii_digit c then Some (n - 48)
               else if is_ascii_lower c then Some (n - 87)
               else if is_ascii_upper c then Some (n - 55)
               else None)
      in case d of None \<Rightarrow> None | Some v \<Rightarrow> if v < radix then Some v else None)"

fun digits_val :: "nat \<Rightarrow> nat \<Rightarrow> nat \<Rightarrow> string \<Rightarrow> nat option" where
  "digits_val radix bound acc [] = Some acc"
| "digits_val radix bound acc (c # cs) =
     (case digit_val radix c of
        None \<Rightarrow> None
      | Some d \<Rightarrow> if acc * radix + d \<le> bound then digits_val radix bound (acc * radix + d) cs else None)"

definition from_str_radix :: "nat \<Rightarrow> nat \<Rightarrow> string \<Rightarrow> nat option" where
  "from_str_radix radix bound s =
     (case s of
        [] \<Rightarrow> None
      | c # cs \<Rightarrow> if c = CHR ''+'' then (if cs = [] then None else digits_val radix bound 0 cs)
                  else digits_val radix bound 0 s)"

lemma digits_val_le: "digits_val r b acc s = Some n \<Longrightarrow> acc \<le> b \<Longrightarrow> n \<le> b"
  by (induction r b acc s rule: digits_val.induct) (auto split: option.splits if_splits)

lemma from_str_radix_le: "from_str_radix r b s = Some n \<Longrightarrow> n \<le> b"
  by (auto simp: from_str_radix_def simp del: digits_val.simps dest: digits_val_le
      split: list.splits if_splits)

text \<open>Formatting of integers: the digits in a radix up to 36, and \<^verbatim>\<open>{:0w}\<close> padding.\<close>

definition digit_char_of :: "nat \<Rightarrow> char" where
  "digit_char_of d = (if d < 10 then char_of (48 + d) else char_of (87 + d))"

function show_radix :: "nat \<Rightarrow> nat \<Rightarrow> string" where
  "show_radix r n = (if r < 2 \<or> n < r then [digit_char_of n] else show_radix r (n div r) @ [digit_char_of (n mod r)])"
  by pat_completeness auto
termination by (relation "measure snd") auto

declare show_radix.simps [simp del]

abbreviation show_nat :: "nat \<Rightarrow> string" where "show_nat \<equiv> show_radix 10"

definition pad_zero :: "nat \<Rightarrow> string \<Rightarrow> string" where
  "pad_zero w s = replicate (w - length s) (CHR ''0'') @ s"

lemma show_radix_not_Nil [simp]: "show_radix r n \<noteq> []"
  by (subst show_radix.simps) auto

lemma digit_val_digit_char: "d < r \<Longrightarrow> r \<le> 36 \<Longrightarrow> digit_val r (digit_char_of d) = Some d"
  by (auto simp: digit_val_def digit_char_of_def is_ascii_digit_def is_ascii_lower_def is_ascii_upper_def Let_def)

lemma digits_val_snoc:
  "digits_val r b acc s = Some m \<Longrightarrow> digit_val r c = Some d \<Longrightarrow> m * r + d \<le> b \<Longrightarrow>
   digits_val r b acc (s @ [c]) = Some (m * r + d)"
  by (induction r b acc s rule: digits_val.induct) (auto split: option.splits if_splits)

text \<open>Printing a number and reading it back.\<close>

lemma digits_val_show_radix:
  "2 \<le> r \<Longrightarrow> r \<le> 36 \<Longrightarrow> n \<le> b \<Longrightarrow> digits_val r b 0 (show_radix r n) = Some n"
proof (induction r n rule: show_radix.induct)
  case (1 r n)
  show ?case
  proof (cases "n < r")
    case True
    with 1 show ?thesis by (simp add: show_radix.simps [of r n] digit_val_digit_char)
  next
    case False
    have "n div r \<le> b" using 1(4) by (meson div_le_dividend le_trans)
    with 1 False have "digits_val r b 0 (show_radix r (n div r)) = Some (n div r)" by simp
    moreover have "digit_val r (digit_char_of (n mod r)) = Some (n mod r)"
      using 1(2,3) by (intro digit_val_digit_char) auto
    ultimately show ?thesis
      using False 1(2,4) digits_val_snoc [of r b 0 "show_radix r (n div r)" "n div r"]
      by (simp add: show_radix.simps [of r n])
  qed
qed

lemma hd_show_radix: "2 \<le> r \<Longrightarrow> r \<le> 36 \<Longrightarrow> hd (show_radix r n) \<noteq> CHR ''+''"
proof (induction r n rule: show_radix.induct)
  case (1 r n)
  have "d < 36 \<Longrightarrow> digit_char_of d \<noteq> CHR ''+''" for d
    by (auto simp: digit_char_of_def dest!: arg_cong [where f = "of_char :: char \<Rightarrow> nat"])
  with 1 show ?case
    by (cases "n < r") (simp_all add: show_radix.simps [of r n])
qed

lemma from_str_radix_show:
  assumes "2 \<le> r" and "r \<le> 36" and "n \<le> b"
  shows "from_str_radix r b (show_radix r n) = Some n"
  using hd_show_radix [OF assms(1,2), of n] digits_val_show_radix [OF assms]
  by (cases "show_radix r n") (auto simp: from_str_radix_def simp del: digits_val.simps)

text \<open>Paths are component lists; \<^verbatim>\<open>display()\<close> writes them absolute.\<close>

definition path_display :: "string list \<Rightarrow> string" where
  "path_display p = (if p = [] then ''/'' else concat (map (\<lambda>c. CHR ''/'' # c) p))"

section \<open>Ordered maps\<close>

text \<open>A \<^verbatim>\<open>BTreeMap<String, _>\<close>: entries in the byte order of their keys.\<close>

fun str_lt :: "string \<Rightarrow> string \<Rightarrow> bool" where
  "str_lt s [] = False"
| "str_lt [] (d # ds) = True"
| "str_lt (c # cs) (d # ds) =
     ((of_char c :: nat) < of_char d \<or> (c = d \<and> str_lt cs ds))"

fun bt_insert :: "string \<Rightarrow> 'v \<Rightarrow> (string \<times> 'v) list \<Rightarrow> (string \<times> 'v) list" where
  "bt_insert k v [] = [(k, v)]"
| "bt_insert k v ((k', v') # m) =
     (if k = k' then (k, v) # m
      else if str_lt k k' then (k, v) # (k', v') # m
      else (k', v') # bt_insert k v m)"

definition bt_wf :: "(string \<times> 'v) list \<Rightarrow> bool" where
  "bt_wf m = sorted_wrt str_lt (map fst m)"

lemma str_lt_irrefl [simp]: "\<not> str_lt s s"
  by (induction s) auto

lemma str_lt_linear: "str_lt s t \<or> s = t \<or> str_lt t s"
proof (induction s t rule: str_lt.induct)
  case (1 s)
  then show ?case by (cases s) auto
next
  case (3 c cs d ds)
  then show ?case by (auto simp: linorder_neq_iff)
qed auto

lemma str_lt_trans: "str_lt s t \<Longrightarrow> str_lt t u \<Longrightarrow> str_lt s u"
proof (induction s t arbitrary: u rule: str_lt.induct)
  case (2 d ds)
  then show ?case by (cases u) auto
next
  case (3 c cs d ds)
  then show ?case by (cases u) auto
qed auto

lemma bt_get_insert [simp]: "map_of (bt_insert k v m) = (map_of m)(k \<mapsto> v)"
  by (induction k v m rule: bt_insert.induct) (auto simp: fun_eq_iff)

lemma keys_bt_insert: "set (map fst (bt_insert k v m)) = insert k (set (map fst m))"
  by (induction k v m rule: bt_insert.induct) auto

lemma bt_wf_insert [simp]: "bt_wf m \<Longrightarrow> bt_wf (bt_insert k v m)"
proof (induction k v m rule: bt_insert.induct)
  case (2 k v k' v' m)
  then have IH: "k \<noteq> k' \<Longrightarrow> \<not> str_lt k k' \<Longrightarrow> bt_wf (bt_insert k v m)" by (simp add: bt_wf_def)
  show ?case
  proof (cases "k = k' \<or> str_lt k k'")
    case True
    with 2(2) show ?thesis by (auto simp: bt_wf_def intro: str_lt_trans)
  next
    case False
    then have "str_lt k' k" using str_lt_linear by blast
    with False IH 2(2) keys_bt_insert [of k v m] show ?thesis by (auto simp: bt_wf_def)
  qed
qed (simp add: bt_wf_def)

lemma bt_wf_al_wf: "bt_wf m \<Longrightarrow> al_wf m"
  unfolding bt_wf_def al_wf_def by (induction m) auto

lemma bt_wf_Nil [simp]: "bt_wf []"
  by (simp add: bt_wf_def)

section \<open>Text of values\<close>

text \<open>\<^verbatim>\<open>[..].join(sep)\<close>, and \<^verbatim>\<open>{:?}\<close> of a \<^verbatim>\<open>str\<close>: quoted, with quotes, backslashes and ASCII control characters
  escaped (characters beyond ASCII are taken as printable).\<close>

fun str_join :: "string \<Rightarrow> string list \<Rightarrow> string" where
  "str_join sep [] = []"
| "str_join sep [x] = x"
| "str_join sep (x # y # xs) = x @ sep @ str_join sep (y # xs)"

definition escape_debug :: "char \<Rightarrow> string" where
  "escape_debug c =
     (let n = of_char c :: nat in
      if n = 0 then [(char_of (92 :: nat)), (char_of (48 :: nat))]
      else if n = 9 then [(char_of (92 :: nat)), (char_of (116 :: nat))]
      else if n = 10 then [(char_of (92 :: nat)), (char_of (110 :: nat))]
      else if n = 13 then [(char_of (92 :: nat)), (char_of (114 :: nat))]
      else if n = 34 \<or> n = 92 then [(char_of (92 :: nat)), c]
      else if n < 32 \<or> n = 127 then [(char_of (92 :: nat)), (char_of (117 :: nat)), (char_of (123 :: nat))] @ show_radix 16 n @ [(char_of (125 :: nat))]
      else [c])"

definition str_debug :: "string \<Rightarrow> string" where
  "str_debug s = [(char_of (34 :: nat))] @ concat (map escape_debug s) @ [(char_of (34 :: nat))]"

end
