(* ===== verification/Interfaces.thy ===== *)
theory Interfaces
  imports Emersia_Prelude
begin

text \<open>
  Interfaces that several components share, as locales.  \<open>wire_codec\<close> is an encoder with the decoder
  that undoes it; \<open>invariant_relation\<close> is a step relation that keeps an invariant, and \<open>invariant_machine\<close> a
  component whose every operation does, which makes its steps such a relation; \<open>forward_simulation\<close> is a
  component that refines a step relation, and \<open>invariant_simulation\<close> one that takes its invariant from it;
  \<open>keyed_store\<close> is a finite map and \<open>replay_filter\<close> a filter of sequence numbers, whose commits are such a machine.
  Each is interpreted on the definitions of the component that provides it.
\<close>

section \<open>Encoders and decoders\<close>

locale wire_codec =
  fixes wf :: "'a \<Rightarrow> bool"
    and enc :: "'a \<Rightarrow> 'b"
    and dec :: "'b \<Rightarrow> 'a option"
  assumes dec_enc: "wf x \<Longrightarrow> dec (enc x) = Some x"
begin

lemma enc_inject: "wf x \<Longrightarrow> wf y \<Longrightarrow> enc x = enc y \<longleftrightarrow> x = y"
  by (metis dec_enc option.inject)

lemma dec_ambiguous: "wf x \<Longrightarrow> enc x = b \<Longrightarrow> dec b = Some y \<Longrightarrow> y = x"
  using dec_enc by fastforce

end

section \<open>Step relations that keep an invariant\<close>

locale invariant_relation =
  fixes trans :: "'s \<Rightarrow> 's \<Rightarrow> bool"
    and inv :: "'s \<Rightarrow> bool"
  assumes trans_inv: "inv s \<Longrightarrow> trans s s' \<Longrightarrow> inv s'"
begin

lemma reach_inv: "trans\<^sup>*\<^sup>* s s' \<Longrightarrow> inv s \<Longrightarrow> inv s'"
  by (induction rule: rtranclp_induct) (auto intro: trans_inv)

end

section \<open>Refinement of a step relation\<close>

text \<open>Every concrete step from related states is matched by some abstract steps.\<close>

locale forward_simulation =
  fixes cstep :: "'c \<Rightarrow> 'c \<Rightarrow> bool"
    and astep :: "'a \<Rightarrow> 'a \<Rightarrow> bool"
    and related :: "'c \<Rightarrow> 'a \<Rightarrow> bool"
  assumes simulates: "related c a \<Longrightarrow> cstep c c' \<Longrightarrow> \<exists>a'. astep\<^sup>*\<^sup>* a a' \<and> related c' a'"
begin

lemma run_simulates: "cstep\<^sup>*\<^sup>* c c' \<Longrightarrow> related c a \<Longrightarrow> \<exists>a'. astep\<^sup>*\<^sup>* a a' \<and> related c' a'"
proof (induction rule: rtranclp_induct)
  case (step c1 c2)
  then obtain a1 a2 where "astep\<^sup>*\<^sup>* a a1" "astep\<^sup>*\<^sup>* a1 a2" "related c2 a2" using simulates by blast
  then show ?case by (meson rtranclp_trans)
qed blast

end

locale invariant_simulation = forward_simulation cstep astep related + invariant_relation astep inv
  for cstep :: "'c \<Rightarrow> 'c \<Rightarrow> bool" and astep :: "'a \<Rightarrow> 'a \<Rightarrow> bool" and related :: "'c \<Rightarrow> 'a \<Rightarrow> bool" and inv :: "'a \<Rightarrow> bool"
begin

lemma inv_carried: "cstep\<^sup>*\<^sup>* c c' \<Longrightarrow> related c a \<Longrightarrow> inv a \<Longrightarrow> \<exists>a'. astep\<^sup>*\<^sup>* a a' \<and> related c' a' \<and> inv a'"
  using run_simulates reach_inv by blast

end

section \<open>Operations that keep an invariant\<close>

locale invariant_machine =
  fixes step :: "'s \<Rightarrow> 'e \<Rightarrow> 's"
    and inv :: "'s \<Rightarrow> bool"
  assumes step_inv: "inv s \<Longrightarrow> inv (step s e)"
begin

lemma run_inv: "inv s \<Longrightarrow> inv (foldl step s es)"
  by (induction es arbitrary: s) (auto intro: step_inv)

lemma run_inv_prefix: "inv s \<Longrightarrow> inv (foldl step s (take n es))"
  by (rule run_inv)

end

sublocale invariant_machine \<subseteq> stepping: invariant_relation "\<lambda>s s'. \<exists>e. s' = step s e" inv
  by unfold_locales (auto intro: step_inv)

section \<open>Finite maps\<close>

locale keyed_store =
  fixes lookup :: "'m \<Rightarrow> 'k \<Rightarrow> 'v option"
    and insert_entry :: "'k \<Rightarrow> 'v \<Rightarrow> 'm \<Rightarrow> 'm"
    and remove_entry :: "'k \<Rightarrow> 'm \<Rightarrow> 'm"
    and valid :: "'m \<Rightarrow> bool"
  assumes lookup_insert: "valid m \<Longrightarrow> lookup (insert_entry k v m) k' = (if k' = k then Some v else lookup m k')"
    and lookup_remove: "valid m \<Longrightarrow> lookup (remove_entry k m) k' = (if k' = k then None else lookup m k')"
    and valid_insert: "valid m \<Longrightarrow> valid (insert_entry k v m)"
    and valid_remove: "valid m \<Longrightarrow> valid (remove_entry k m)"
begin

lemma lookup_after_replace:
  "valid m \<Longrightarrow> lookup (insert_entry k v (remove_entry k m)) k' = (if k' = k then Some v else lookup m k')"
  by (simp add: lookup_insert lookup_remove valid_remove)

lemma lookup_after_move:
  "valid m \<Longrightarrow> k \<noteq> k0 \<Longrightarrow>
   lookup (remove_entry k0 (insert_entry k v m)) k = Some v
   \<and> lookup (remove_entry k0 (insert_entry k v m)) k0 = None"
  by (simp add: lookup_insert lookup_remove valid_insert)

end

section \<open>Replay filters\<close>

text \<open>
  What the receive path relies on: a test that does not change the filter, and a commit that accepts
  exactly what the test calls fresh, leaves the filter alone otherwise, and makes the number stale.
\<close>

locale replay_filter =
  fixes fresh :: "'w \<Rightarrow> 'q \<Rightarrow> bool"
    and commit :: "'w \<Rightarrow> 'q \<Rightarrow> bool \<times> 'w"
    and reach :: "'w \<Rightarrow> bool"
  assumes commit_fresh: "fst (commit w q) = fresh w q"
    and commit_stale: "\<not> fresh w q \<Longrightarrow> snd (commit w q) = w"
    and commit_once: "reach w \<Longrightarrow> fresh w q \<Longrightarrow> \<not> fresh (snd (commit w q)) q"
    and commit_reach: "reach w \<Longrightarrow> reach (snd (commit w q))"
begin

lemma commit_twice: "reach w \<Longrightarrow> \<not> fst (commit (snd (commit w q)) q)"
  by (cases "fresh w q") (simp_all add: commit_fresh commit_once commit_stale)

lemma commit_idem: "reach w \<Longrightarrow> snd (commit (snd (commit w q)) q) = snd (commit w q)"
  using commit_stale commit_twice commit_fresh by blast

end

sublocale replay_filter \<subseteq> commits: invariant_machine "\<lambda>w q. snd (commit w q)" reach
  by unfold_locales (rule commit_reach)

section \<open>The map interface on association lists\<close>

interpretation al_store: keyed_store map_of al_insert al_remove al_wf
  by unfold_locales auto

end
