(* ===== verification/Codec.thy ===== *)
theory Codec
  imports Interfaces "HOL-Library.Sublist"
begin

unbundle bit_operations_syntax

text \<open>
  Model of \<^verbatim>\<open>host/crates/emersia-daemon/src/codec.rs\<close>: the incremental Annex-B parser that turns the
  encoder's byte stream into access units, with the start-code scanner, the NAL classification and
  the Exp-Golomb bit reader.  The lemmas show that the result does not depend on how the stream is cut
  into chunks, that no byte is invented or reordered, that the parameter-set prefix stays bounded, and
  that the parser's loops end; they also pin down two departures of the bit reader and the scanner from
  the bitstream syntax.
\<close>

section \<open>Codecs and NAL units\<close>

datatype Codec = H264 | Hevc

fun payload_type :: "Codec \<Rightarrow> u8" where
  "payload_type H264 = 96"
| "payload_type Hevc = 98"

definition from_payload_type :: "u8 \<Rightarrow> Codec option" where
  "from_payload_type pt = (if pt = 96 then Some H264 else if pt = 98 then Some Hevc else None)"

fun Codec_name :: "Codec \<Rightarrow> string" where
  "Codec_name H264 = ''h264''"
| "Codec_name Hevc = ''hevc''"

definition h264_IDR :: u8 where "h264_IDR = 5"
definition h264_SEI :: u8 where "h264_SEI = 6"
definition h264_SPS :: u8 where "h264_SPS = 7"
definition h264_PPS :: u8 where "h264_PPS = 8"
definition h264_AUD :: u8 where "h264_AUD = 9"
definition hevc_PARAMETER_SET :: u8 where "hevc_PARAMETER_SET = 32"
definition hevc_IDR_W_RADL :: u8 where "hevc_IDR_W_RADL = 19"
definition hevc_IDR_N_LP :: u8 where "hevc_IDR_N_LP = 20"
definition hevc_CRA :: u8 where "hevc_CRA = 21"
definition hevc_SEI_PREFIX :: u8 where "hevc_SEI_PREFIX = 39"
definition hevc_SEI_SUFFIX :: u8 where "hevc_SEI_SUFFIX = 40"

lemmas nal_consts = h264_IDR_def h264_SEI_def h264_SPS_def h264_PPS_def h264_AUD_def
  hevc_PARAMETER_SET_def hevc_IDR_W_RADL_def hevc_IDR_N_LP_def hevc_CRA_def hevc_SEI_PREFIX_def hevc_SEI_SUFFIX_def

record NalUnit =
  nu_nal_type :: u8
  nu_header :: "u8 \<times> u8"
  nu_annexb :: bytes

fun is_parameter_set :: "NalUnit \<Rightarrow> Codec \<Rightarrow> bool" where
  "is_parameter_set n H264 = (nu_nal_type n = h264_SPS \<or> nu_nal_type n = h264_PPS)"
| "is_parameter_set n Hevc = (nu_nal_type n = hevc_PARAMETER_SET)"

fun is_keyframe_nal :: "NalUnit \<Rightarrow> Codec \<Rightarrow> bool" where
  "is_keyframe_nal n H264 = (nu_nal_type n = h264_IDR)"
| "is_keyframe_nal n Hevc =
     (nu_nal_type n = hevc_IDR_W_RADL \<or> nu_nal_type n = hevc_IDR_N_LP \<or> nu_nal_type n = hevc_CRA)"

fun is_sei :: "NalUnit \<Rightarrow> Codec \<Rightarrow> bool" where
  "is_sei n H264 = (nu_nal_type n = h264_SEI)"
| "is_sei n Hevc = (nu_nal_type n = hevc_SEI_PREFIX \<or> nu_nal_type n = hevc_SEI_SUFFIX)"

fun is_vcl :: "NalUnit \<Rightarrow> Codec \<Rightarrow> bool" where
  "is_vcl n H264 = (1 \<le> nu_nal_type n \<and> nu_nal_type n \<le> 5)"
| "is_vcl n Hevc = (nu_nal_type n \<le> 31)"

section \<open>The bit reader\<close>

record BitReader =
  br_bytes :: bytes
  br_byte :: nat
  br_bit :: nat

definition BitReader_new :: "bytes \<Rightarrow> BitReader" where
  "BitReader_new bs = \<lparr>br_bytes = bs, br_byte = 0, br_bit = 0\<rparr>"

definition byte_at :: "bytes \<Rightarrow> nat \<Rightarrow> u8 option" where
  "byte_at bs i = (if i < length bs then Some (bs ! i) else None)"

definition read_bit :: "BitReader \<Rightarrow> u8 option \<times> BitReader" where
  "read_bit self =
     (if br_byte self \<ge> length (br_bytes self) then (None, self)
      else
        let v = drop_bit (7 - br_bit self) (br_bytes self ! br_byte self) AND 1;
            self = self\<lparr>br_bit := br_bit self + 1\<rparr>
        in if br_bit self = 8
           then let self = self\<lparr>br_bit := 0\<rparr>
                in if byte_at (br_bytes self) (br_byte self) = Some 0
                      \<and> byte_at (br_bytes self) (br_byte self + 1) = Some 0
                      \<and> byte_at (br_bytes self) (br_byte self + 2) = Some 3
                   then (Some v, self\<lparr>br_byte := br_byte self + 3\<rparr>)
                   else (Some v, self\<lparr>br_byte := br_byte self + 1\<rparr>)
           else (Some v, self))"

text \<open>
  The two loops of \<^verbatim>\<open>read_ue\<close>: counting zero bits (at most 33 turns, the bound on \<open>leading\<close>), and
  reading \<open>leading\<close> more bits into a 32-bit value, whose shift loses bits beyond the word.
\<close>

fun count_leading :: "nat \<Rightarrow> nat \<Rightarrow> BitReader \<Rightarrow> nat option \<times> BitReader" where
  "count_leading 0 leading r = (None, r)"
| "count_leading (Suc k) leading r =
     (case read_bit r of
        (None, r) \<Rightarrow> (None, r)
      | (Some b, r) \<Rightarrow>
          if b = 0 then (if leading + 1 > 32 then (None, r) else count_leading k (leading + 1) r)
          else (Some leading, r))"

fun read_suffix :: "nat \<Rightarrow> u32 \<Rightarrow> BitReader \<Rightarrow> u32 option \<times> BitReader" where
  "read_suffix 0 v r = (Some v, r)"
| "read_suffix (Suc k) v r =
     (case read_bit r of
        (None, r) \<Rightarrow> (None, r)
      | (Some b, r) \<Rightarrow> read_suffix k (push_bit 1 v OR ucast b) r)"

definition read_ue :: "BitReader \<Rightarrow> u32 option \<times> BitReader" where
  "read_ue r =
     (case count_leading 33 0 r of
        (None, r) \<Rightarrow> (None, r)
      | (Some leading, r) \<Rightarrow>
          if leading = 0 then (Some 0, r)
          else case read_suffix leading 1 r of
                 (None, r) \<Rightarrow> (None, r)
               | (Some v, r) \<Rightarrow> (Some (v - 1), r))"

definition exp_golomb_first_mb :: "bytes \<Rightarrow> u32 option" where
  "exp_golomb_first_mb slc = fst (read_ue (BitReader_new slc))"

definition start_code_len :: "NalUnit \<Rightarrow> nat" where
  "start_code_len n = (if length (nu_annexb n) \<ge> 4 \<and> take 4 (nu_annexb n) = [0, 0, 0, 1] then 4 else 3)"

definition starts_new_picture :: "NalUnit \<Rightarrow> Codec \<Rightarrow> bool" where
  "starts_new_picture n codec =
     (let hlen = (case codec of H264 \<Rightarrow> 1 | Hevc \<Rightarrow> 2); at = start_code_len n + hlen
      in if at > length (nu_annexb n) then False
         else let slc = drop at (nu_annexb n)
              in case codec of
                   H264 \<Rightarrow> exp_golomb_first_mb slc = Some 0
                 | Hevc \<Rightarrow> slc \<noteq> [] \<and> hd slc AND 0x80 \<noteq> 0)"

section \<open>Access units and the parser\<close>

record AccessUnit =
  au_codec :: Codec
  au_nals :: "NalUnit list"
  au_annexb :: bytes
  au_keyframe :: bool
  au_index :: u64

definition codec_payload_type :: "AccessUnit \<Rightarrow> u8" where
  "codec_payload_type au = payload_type (au_codec au)"

definition au_payload_len :: "AccessUnit \<Rightarrow> Codec \<Rightarrow> nat" where
  "au_payload_len au codec = sum_list (map (length \<circ> nu_annexb) (filter (\<lambda>n. is_vcl n codec) (au_nals au)))"

datatype CodecError = NoStartCode | TruncatedNal | EmptyNal | TooManyParameterSets nat

fun CodecError_display :: "CodecError \<Rightarrow> string" where
  "CodecError_display NoStartCode = ''bitstream contains no Annex-B start code''"
| "CodecError_display TruncatedNal = ''bitstream ended inside a NAL unit''"
| "CodecError_display EmptyNal = ''NAL unit has no payload''"
| "CodecError_display (TooManyParameterSets n) =
     ''refusing to carry '' @ show_nat n @ '' bytes of parameter sets in one packet''"

definition MAX_PARAMETER_SET_BYTES :: nat where "MAX_PARAMETER_SET_BYTES = 1024"

record AnnexBParser =
  ap_codec :: Codec
  ap_buffer :: bytes
  ap_parameter_sets :: bytes
  ap_pending_sets :: bytes
  ap_collecting_sets :: bool
  ap_current :: "NalUnit list"
  ap_current_has_vcl :: bool
  ap_index :: u64
  ap_max_buffer :: nat

definition AnnexBParser_new :: "Codec \<Rightarrow> AnnexBParser" where
  "AnnexBParser_new codec =
     \<lparr>ap_codec = codec, ap_buffer = [], ap_parameter_sets = [], ap_pending_sets = [], ap_collecting_sets = False,
      ap_current = [], ap_current_has_vcl = False, ap_index = 0, ap_max_buffer = 8 * 1024 * 1024\<rparr>"

function scan_start_codes :: "bytes \<Rightarrow> nat \<Rightarrow> (nat \<times> nat) list" where
  "scan_start_codes buf i =
     (if i + 3 \<le> length buf then
        if buf ! i = 0 \<and> buf ! (i + 1) = 0 \<and> buf ! (i + 2) = 1
        then if i > 0 \<and> buf ! (i - 1) = 0 then (i - 1, 4) # scan_start_codes buf (i + 4)
             else (i, 3) # scan_start_codes buf (i + 3)
        else scan_start_codes buf (i + 1)
      else [])"
  by pat_completeness auto
termination by (relation "measure (\<lambda>(buf, i). length buf - i)") auto

declare scan_start_codes.simps [simp del]

definition start_code_positions :: "bytes \<Rightarrow> (nat \<times> nat) list" where
  "start_code_positions buf = scan_start_codes buf 0"

definition nal_type :: "bytes \<Rightarrow> Codec \<Rightarrow> u8 option" where
  "nal_type body codec =
     (case body of
        [] \<Rightarrow> None
      | first # _ \<Rightarrow> Some (case codec of H264 \<Rightarrow> first AND 0x1F | Hevc \<Rightarrow> drop_bit 1 first AND 0x3F))"

definition header_len :: "bytes \<Rightarrow> Codec \<Rightarrow> nat" where
  "header_len body codec = min (max (case codec of H264 \<Rightarrow> 1 | Hevc \<Rightarrow> 2) 1) (length body)"

text \<open>Positions come in order: everything the scan finds from \<open>i\<close> on starts at \<open>i - 1\<close> or later.\<close>

lemma scan_lower: "(s, l) \<in> set (scan_start_codes buf i) \<Longrightarrow> i \<le> s + 1 \<and> 3 \<le> l \<and> s + l \<le> length buf"
proof (induction buf i rule: scan_start_codes.induct)
  case (1 buf i)
  show ?case
  proof (cases "i + 3 \<le> length buf \<and> buf ! i = 0 \<and> buf ! (i + 1) = 0 \<and> buf ! (i + 2) = 1")
    case True
    then have here: "scan_start_codes buf i = (if i > 0 \<and> buf ! (i - 1) = 0
        then (i - 1, 4) # scan_start_codes buf (i + 4) else (i, 3) # scan_start_codes buf (i + 3))"
      by (simp add: scan_start_codes.simps [of buf i])
    show ?thesis
    proof (cases "0 < i \<and> buf ! (i - 1) = 0")
      case four: True
      with here 1(4) have "(s = i - 1 \<and> l = 4) \<or> (s, l) \<in> set (scan_start_codes buf (i + 4))" by simp
      with True four 1(1) show ?thesis by auto
    next
      case three: False
      with here 1(4) have "(s = i \<and> l = 3) \<or> (s, l) \<in> set (scan_start_codes buf (i + 3))" by auto
      with True three 1(2) show ?thesis by auto
    qed
  next
    case False
    with 1(3,4) show ?thesis by (auto simp: scan_start_codes.simps [of buf i] split: if_splits)
  qed
qed

lemma scan_second_pos:
  "scan_start_codes buf i = (s, l) # (s', l') # rest \<Longrightarrow> 0 < s'"
proof (induction buf i rule: scan_start_codes.induct)
  case (1 buf i)
  have tail: "(s', l') \<in> set (scan_start_codes buf j) \<Longrightarrow> 2 \<le> j \<Longrightarrow> 0 < s'" for j
    using scan_lower by fastforce
  from 1 tail [of "i + 4"] tail [of "i + 3"] show ?case
    by (auto simp: scan_start_codes.simps [of buf i] split: if_splits)
qed

text \<open>
  \<^verbatim>\<open>take_next_nal\<close> reads only the codec and the buffer: it gives its result and the buffer left over.
\<close>

function take_next_nal :: "Codec \<Rightarrow> bool \<Rightarrow> bytes \<Rightarrow> (CodecError + NalUnit option) \<times> bytes" where
  "take_next_nal codec at_end buf =
     (case start_code_positions buf of
        [] \<Rightarrow> (if length buf > MAX_PARAMETER_SET_BYTES then Err NoStartCode else Ok None, buf)
      | (start, sc_len) # rest \<Rightarrow>
         (case (case rest of (next, _) # _ \<Rightarrow> Some next | [] \<Rightarrow> if at_end then Some (length buf) else None) of
            None \<Rightarrow> (Ok None, buf)
          | Some stop \<Rightarrow>
              let body_start = start + sc_len
              in if stop \<le> body_start then take_next_nal codec at_end (drop stop buf)
                 else
                   let body = slice buf body_start stop
                   in case nal_type body codec of
                        None \<Rightarrow> (Err TruncatedNal, buf)
                      | Some ty \<Rightarrow>
                          let hlen = header_len body codec
                          in if length body \<le> hlen then (Err EmptyNal, buf)
                             else (Ok (Some \<lparr>nu_nal_type = ty,
                                             nu_header = (body ! 0, case byte_at body hlen of None \<Rightarrow> 0 | Some b \<Rightarrow> b),
                                             nu_annexb = slice buf start stop\<rparr>), drop stop buf)))"
  by pat_completeness auto
termination
proof (relation "measure (\<lambda>(c, e, buf). length buf)", goal_cases)
  case (2 codec at_end buf x21 x22 start sc_len stop body_start)
  have "(start, sc_len) \<in> set (scan_start_codes buf 0)"
    using 2 by (simp add: start_code_positions_def [symmetric])
  then have "buf \<noteq> []" using scan_lower by fastforce
  moreover have "0 < stop"
    using 2 \<open>buf \<noteq> []\<close> scan_second_pos [of buf 0]
    by (auto simp: start_code_positions_def split: list.splits if_splits)
  ultimately show ?case by simp
qed simp

declare take_next_nal.simps [simp del]

text \<open>
  An induction rule for its outcomes: nothing to take (the buffer stays), an empty NAL dropped from the
  front, or the NAL between two positions.
\<close>

lemma take_next_nal_outcome [consumes 1, case_names stay skip nal]:
  assumes "take_next_nal codec at_end buf = (r, left)"
    and stay: "\<And>buf r. (\<And>nal. r \<noteq> Ok (Some nal)) \<Longrightarrow> P buf r buf"
    and skip: "\<And>buf stop r left. 0 < stop \<Longrightarrow> stop \<le> length buf \<Longrightarrow> P (drop stop buf) r left \<Longrightarrow> P buf r left"
    and nal: "\<And>buf start stop nal. start < stop \<Longrightarrow> stop \<le> length buf \<Longrightarrow> nu_annexb nal = slice buf start stop
        \<Longrightarrow> P buf (Ok (Some nal)) (drop stop buf)"
  shows "P buf r left"
  using assms(1)
proof (induction codec at_end buf rule: take_next_nal.induct)
  case (1 codec at_end buf)
  show ?case
  proof (cases "start_code_positions buf")
    case Nil
    with 1(2) stay [of r buf] show ?thesis by (auto simp: take_next_nal.simps [of codec at_end buf] split: if_splits)
  next
    case (Cons s0 rest)
    obtain start sc where s0: "s0 = (start, sc)" by (cases s0)
    let ?stop = "case rest of (next, _) # _ \<Rightarrow> Some next | [] \<Rightarrow> if at_end then Some (length buf) else None"
    show ?thesis
    proof (cases ?stop)
      case None
      with 1(2) Cons s0 stay [of r buf] show ?thesis by (auto simp: take_next_nal.simps [of codec at_end buf])
    next
      case (Some stop)
      note unf = 1(2) [unfolded take_next_nal.simps [of codec at_end buf] Cons s0 list.case prod.case Some option.case Let_def]
      have first: "start + sc \<le> length buf" "3 \<le> sc"
        using scan_lower [of start sc buf 0] Cons s0 by (simp_all add: start_code_positions_def)
      have stop: "0 < stop" "stop \<le> length buf"
        using Some first Cons s0 scan_second_pos [of buf 0] scan_lower [of stop "snd (hd rest)" buf 0]
        by (auto simp: start_code_positions_def split: list.splits if_splits)
      show ?thesis
      proof (cases "stop \<le> start + sc")
        case True
        with unf have "take_next_nal codec at_end (drop stop buf) = (r, left)" by simp
        from skip [OF stop 1(1) [OF Cons s0 [symmetric] Some refl True this]] show ?thesis .
      next
        case False
        show ?thesis
        proof (cases "\<exists>n. r = Ok (Some n)")
          case True
          then obtain n where "r = Ok (Some n)" by blast
          with unf False have "left = drop stop buf" "nu_annexb n = slice buf start stop"
            by (auto split: option.splits if_splits)
          with nal [of start stop buf n] False stop \<open>r = Ok (Some n)\<close> show ?thesis by simp
        next
          case stuck: False
          with unf False stay [of r buf] show ?thesis by (auto split: option.splits if_splits)
        qed
      qed
    qed
  qed
qed

lemma take_next_nal_shorter:
  assumes "take_next_nal codec at_end buf = (Ok (Some nal), buf')"
  shows "length buf' < length buf"
proof -
  have "take_next_nal codec at_end buf = (r, left) \<Longrightarrow> (\<exists>n. r = Ok (Some n)) \<longrightarrow> length left < length buf" for r left
    by (induction rule: take_next_nal_outcome) auto
  with assms show ?thesis by blast
qed

definition flush_current :: "AnnexBParser \<Rightarrow> AccessUnit option \<times> AnnexBParser" where
  "flush_current self =
     (if ap_current self = [] then (None, self)
      else
        (Some \<lparr>au_codec = ap_codec self, au_nals = ap_current self,
               au_annexb = concat (map nu_annexb (ap_current self)),
               au_keyframe = list_ex (\<lambda>n. is_keyframe_nal n (ap_codec self)) (ap_current self),
               au_index = ap_index self\<rparr>,
         self\<lparr>ap_current := [], ap_current_has_vcl := False, ap_index := ap_index self + 1\<rparr>))"

text \<open>The parts of \<^verbatim>\<open>accept_nal\<close>: the boundary test, collecting a parameter set, publishing at picture data.\<close>

definition is_aud :: "AnnexBParser \<Rightarrow> NalUnit \<Rightarrow> bool" where
  "is_aud self nal \<longleftrightarrow> ap_codec self = H264 \<and> nu_nal_type nal = h264_AUD"

definition picture_boundary :: "AnnexBParser \<Rightarrow> NalUnit \<Rightarrow> bool" where
  "picture_boundary self nal \<longleftrightarrow>
     is_aud self nal
     \<or> (ap_current_has_vcl self \<and> is_vcl nal (ap_codec self) \<and> starts_new_picture nal (ap_codec self))
     \<or> (ap_current_has_vcl self \<and> (is_parameter_set nal (ap_codec self) \<or> is_sei nal (ap_codec self)))"

definition collect_sets :: "AnnexBParser \<Rightarrow> NalUnit \<Rightarrow> AnnexBParser" where
  "collect_sets self nal =
     (if is_parameter_set nal (ap_codec self)
      then self\<lparr>ap_pending_sets := (if ap_collecting_sets self then ap_pending_sets self else []) @ nu_annexb nal,
                ap_collecting_sets := True\<rparr>
      else self)"

definition publish_sets :: "AnnexBParser \<Rightarrow> NalUnit \<Rightarrow> AnnexBParser" where
  "publish_sets self nal =
     (if is_vcl nal (ap_codec self)
      then (if ap_collecting_sets self
            then self\<lparr>ap_parameter_sets := ap_pending_sets self, ap_pending_sets := [], ap_collecting_sets := False,
                      ap_current_has_vcl := True\<rparr>
            else self\<lparr>ap_current_has_vcl := True\<rparr>)
      else self)"

definition accept_nal :: "AnnexBParser \<Rightarrow> NalUnit \<Rightarrow> (CodecError + AccessUnit option) \<times> AnnexBParser" where
  "accept_nal self nal =
     (let aud = is_aud self nal;
          (flushed, self) = (if picture_boundary self nal \<and> ap_current self \<noteq> [] then flush_current self
                             else (None, self));
          self = (if aud then self\<lparr>ap_pending_sets := [], ap_collecting_sets := False\<rparr> else self);
          self = collect_sets self nal
      in if is_parameter_set nal (ap_codec self) \<and> length (ap_pending_sets self) > MAX_PARAMETER_SET_BYTES
         then (Err (TooManyParameterSets (length (ap_pending_sets self))), self)
         else let self = publish_sets self nal
              in (Ok flushed, self\<lparr>ap_current := ap_current self @ [nal]\<rparr>))"

lemma flush_current_buffer [simp]:
  "ap_buffer (snd (flush_current self)) = ap_buffer self" "ap_codec (snd (flush_current self)) = ap_codec self"
  by (simp_all add: flush_current_def)

lemma collect_sets_fields [simp]:
  "ap_buffer (collect_sets self nal) = ap_buffer self" "ap_codec (collect_sets self nal) = ap_codec self"
  "ap_current (collect_sets self nal) = ap_current self" "ap_current_has_vcl (collect_sets self nal) = ap_current_has_vcl self"
  "ap_parameter_sets (collect_sets self nal) = ap_parameter_sets self" "ap_max_buffer (collect_sets self nal) = ap_max_buffer self"
  by (simp_all add: collect_sets_def)

lemma publish_sets_fields [simp]:
  "ap_buffer (publish_sets self nal) = ap_buffer self" "ap_codec (publish_sets self nal) = ap_codec self"
  "ap_current (publish_sets self nal) = ap_current self" "ap_max_buffer (publish_sets self nal) = ap_max_buffer self"
  by (simp_all add: publish_sets_def)

lemma accept_nal_buffer [simp]: "ap_buffer (snd (accept_nal self nal)) = ap_buffer self"
  by (simp add: accept_nal_def Let_def case_prod_beta)

lemma accept_nal_buf: "(r, self') = accept_nal self nal \<Longrightarrow> ap_buffer self' = ap_buffer self"
  by (metis accept_nal_buffer snd_conv)

function push_loop :: "AnnexBParser \<Rightarrow> (CodecError + AccessUnit list) \<times> AnnexBParser" where
  "push_loop self =
     (case take_next_nal (ap_codec self) False (ap_buffer self) of
        (Inl e, buf) \<Rightarrow> (Err e, self\<lparr>ap_buffer := buf\<rparr>)
      | (Inr None, buf) \<Rightarrow> (Ok [], self\<lparr>ap_buffer := buf\<rparr>)
      | (Inr (Some nal), buf) \<Rightarrow>
         (case accept_nal (self\<lparr>ap_buffer := buf\<rparr>) nal of
            (Inl e, self) \<Rightarrow> (Err e, self)
          | (Inr au, self) \<Rightarrow>
             (case push_loop self of
                (Inl e, self) \<Rightarrow> (Err e, self)
              | (Inr out, self) \<Rightarrow> (Ok ((case au of None \<Rightarrow> [] | Some a \<Rightarrow> [a]) @ out), self))))"
  by pat_completeness auto
termination
  by (relation "measure (\<lambda>self. length (ap_buffer self))")
    (auto dest!: take_next_nal_shorter [OF sym] accept_nal_buf)

declare push_loop.simps [simp del]

definition AnnexBParser_push :: "AnnexBParser \<Rightarrow> bytes \<Rightarrow> (CodecError + AccessUnit list) \<times> AnnexBParser" where
  "AnnexBParser_push self bs =
     (let self = self\<lparr>ap_buffer := ap_buffer self @ bs\<rparr>
      in if length (ap_buffer self) > ap_max_buffer self then (Err TruncatedNal, self)
         else push_loop self)"

definition AnnexBParser_finish :: "AnnexBParser \<Rightarrow> (CodecError + AccessUnit list) \<times> AnnexBParser" where
  "AnnexBParser_finish self =
     (case take_next_nal (ap_codec self) True (ap_buffer self) of
        (Inl e, buf) \<Rightarrow> (Err e, self\<lparr>ap_buffer := buf\<rparr>)
      | (Inr nalo, buf) \<Rightarrow>
         (case (case nalo of
                  None \<Rightarrow> (Ok None, self\<lparr>ap_buffer := buf\<rparr>)
                | Some nal \<Rightarrow> accept_nal (self\<lparr>ap_buffer := buf\<rparr>) nal) of
            (Inl e, self) \<Rightarrow> (Err e, self)
          | (Inr au, self) \<Rightarrow>
             (case flush_current self of
                (last_au, self) \<Rightarrow> (Ok ((case au of None \<Rightarrow> [] | Some a \<Rightarrow> [a]) @ (case last_au of None \<Rightarrow> [] | Some a \<Rightarrow> [a])), self))))"

section \<open>Chunking does not matter\<close>

lemma scan_append: "\<exists>more. scan_start_codes (p @ q) i = scan_start_codes p i @ more"
proof (induction p i rule: scan_start_codes.induct)
  case (1 p i)
  show ?case
  proof (cases "i + 3 \<le> length p")
    case True
    then have "(p @ q) ! i = p ! i" "(p @ q) ! (i + 1) = p ! (i + 1)" "(p @ q) ! (i + 2) = p ! (i + 2)"
      "(p @ q) ! (i - 1) = p ! (i - 1)" by (auto simp: nth_append)
    then show ?thesis using 1 True
      by (auto simp: scan_start_codes.simps [of "p @ q" i] scan_start_codes.simps [of p i])
  next
    case False
    then show ?thesis by (simp add: scan_start_codes.simps [of p i])
  qed
qed

lemma positions_append: "\<exists>more. start_code_positions (p @ q) = start_code_positions p @ more"
  unfolding start_code_positions_def by (rule scan_append)

text \<open>One turn, with a bounding start code at \<open>stop\<close>.\<close>

lemma take_next_nal_step:
  assumes "start_code_positions buf = (start, sc) # (stop, sc') # rest"
  shows "take_next_nal codec at_end buf =
     (if stop \<le> start + sc then take_next_nal codec at_end (drop stop buf)
      else let body = slice buf (start + sc) stop
           in case nal_type body codec of
                None \<Rightarrow> (Err TruncatedNal, buf)
              | Some ty \<Rightarrow>
                  let hlen = header_len body codec
                  in if length body \<le> hlen then (Err EmptyNal, buf)
                     else (Ok (Some \<lparr>nu_nal_type = ty,
                             nu_header = (body ! 0, case byte_at body hlen of None \<Rightarrow> 0 | Some b \<Rightarrow> b),
                             nu_annexb = slice buf start stop\<rparr>), drop stop buf))"
  by (simp add: take_next_nal.simps [of codec at_end buf] assms Let_def)

lemma take_next_nal_wait:
  assumes "start_code_positions buf = [] \<and> length buf \<le> MAX_PARAMETER_SET_BYTES \<or> length (start_code_positions buf) = 1"
  shows "take_next_nal codec False buf = (Ok None, buf)"
  using assms by (auto simp: take_next_nal.simps [of codec False buf] length_Suc_conv)

lemma two_positions:
  assumes "start_code_positions buf = (start, sc) # (stop, sc') # rest"
  shows "stop \<le> length buf"
  using scan_lower [of stop sc' buf 0] assms by (simp add: start_code_positions_def)

lemma take_next_nal_append:
  "take_next_nal codec False p = (Ok r, left) \<Longrightarrow>
   take_next_nal codec False (p @ q) =
     (case r of Some nal \<Rightarrow> (Ok (Some nal), left @ q) | None \<Rightarrow> take_next_nal codec False (left @ q))"
proof (induction p arbitrary: r left rule: measure_induct_rule [of length])
  case (less p)
  consider (none) "start_code_positions p = []" | (one) s where "start_code_positions p = [s]"
    | (two) start sc stop sc' rest where "start_code_positions p = (start, sc) # (stop, sc') # rest"
    by (metis list.exhaust surj_pair)
  then show ?case
  proof cases
    case none
    with less.prems show ?thesis by (simp add: take_next_nal.simps [of codec False p] split: if_splits)
  next
    case one
    then have "take_next_nal codec False p = (Ok None, p)" by (intro take_next_nal_wait) simp
    with less.prems show ?thesis by auto
  next
    case two
    obtain more where pq: "start_code_positions (p @ q) = (start, sc) # (stop, sc') # rest @ more"
      using positions_append [of p q] two by auto
    have stop: "stop \<le> length p" using two_positions [OF two] .
    show ?thesis
    proof (cases "stop \<le> start + sc")
      case True
      have "0 < stop" using two scan_second_pos by (simp add: start_code_positions_def)
      moreover have "p \<noteq> []" using two by (auto simp: start_code_positions_def scan_start_codes.simps)
      ultimately have "length (drop stop p) < length p" by simp
      from less.IH [OF this] less.prems True stop show ?thesis
        by (simp add: take_next_nal_step [OF two] take_next_nal_step [OF pq])
    next
      case False
      with less.prems stop show ?thesis
        by (auto simp: take_next_nal_step [OF two] take_next_nal_step [OF pq] Let_def split: option.splits if_splits)
    qed
  qed
qed

lemma take_next_nal_suffix:
  "take_next_nal codec at_end p = (r, left) \<Longrightarrow> \<exists>k. left = drop k p"
proof (induction rule: take_next_nal_outcome)
  case (stay buf r)
  show ?case by (rule exI [of _ 0]) simp
next
  case (skip buf stop r left)
  then show ?case by (auto simp: drop_drop)
qed blast

text \<open>The parser's other fields do not look at the buffer.\<close>

lemma collect_sets_buffer: "collect_sets (self\<lparr>ap_buffer := b\<rparr>) nal = (collect_sets self nal)\<lparr>ap_buffer := b\<rparr>"
  by (simp add: collect_sets_def)

lemma publish_sets_buffer: "publish_sets (self\<lparr>ap_buffer := b\<rparr>) nal = (publish_sets self nal)\<lparr>ap_buffer := b\<rparr>"
  by (simp add: publish_sets_def)

lemma flush_current_any_buffer:
  "flush_current (self\<lparr>ap_buffer := b\<rparr>) = (fst (flush_current self), (snd (flush_current self))\<lparr>ap_buffer := b\<rparr>)"
  by (simp add: flush_current_def)

lemma reset_sets_buffer:
  "(if a then (self\<lparr>ap_buffer := b\<rparr>)\<lparr>ap_pending_sets := [], ap_collecting_sets := False\<rparr> else self\<lparr>ap_buffer := b\<rparr>)
     = (if a then self\<lparr>ap_pending_sets := [], ap_collecting_sets := False\<rparr> else self)\<lparr>ap_buffer := b\<rparr>"
  by simp

lemma accept_nal_any_buffer:
  "accept_nal (self\<lparr>ap_buffer := b\<rparr>) nal = (fst (accept_nal self nal), (snd (accept_nal self nal))\<lparr>ap_buffer := b\<rparr>)"
proof -
  have *: "picture_boundary (self\<lparr>ap_buffer := b\<rparr>) nal = picture_boundary self nal"
    "is_aud (self\<lparr>ap_buffer := b\<rparr>) nal = is_aud self nal"
    "ap_current (self\<lparr>ap_buffer := b\<rparr>) = ap_current self"
    by (simp_all add: picture_boundary_def is_aud_def)
  define fs where "fs = (if picture_boundary self nal \<and> ap_current self \<noteq> [] then flush_current self else (None, self))"
  have fsb: "(if picture_boundary self nal \<and> ap_current self \<noteq> [] then flush_current (self\<lparr>ap_buffer := b\<rparr>)
      else (None, self\<lparr>ap_buffer := b\<rparr>)) = (fst fs, (snd fs)\<lparr>ap_buffer := b\<rparr>)"
    by (simp add: fs_def flush_current_any_buffer)
  show ?thesis
    unfolding accept_nal_def * fsb fs_def [symmetric] Let_def case_prod_beta fst_conv snd_conv
      reset_sets_buffer collect_sets_buffer publish_sets_buffer
    by simp
qed

lemma accept_nal_fields [simp]:
  "ap_codec (snd (accept_nal self nal)) = ap_codec self"
  "ap_max_buffer (snd (accept_nal self nal)) = ap_max_buffer self"
  by (simp_all add: accept_nal_def Let_def case_prod_beta flush_current_def)

text \<open>Joining the results of two pushes.\<close>

definition then_push ::
  "(CodecError + AccessUnit list) \<times> AnnexBParser \<Rightarrow> (AnnexBParser \<Rightarrow> (CodecError + AccessUnit list) \<times> AnnexBParser)
     \<Rightarrow> (CodecError + AccessUnit list) \<times> AnnexBParser" where
  "then_push r k =
     (case r of
        (Inl e, s) \<Rightarrow> (Err e, s)
      | (Inr out, s) \<Rightarrow> (case k s of (Inl e, s') \<Rightarrow> (Err e, s') | (Inr out', s') \<Rightarrow> (Ok (out @ out'), s')))"

lemma push_loop_append:
  assumes "push_loop self = (Ok out, s1)"
  shows "push_loop (self\<lparr>ap_buffer := ap_buffer self @ q\<rparr>)
           = then_push (Ok out, s1) (\<lambda>s. push_loop (s\<lparr>ap_buffer := ap_buffer s @ q\<rparr>))"
  using assms
proof (induction self arbitrary: out s1 rule: push_loop.induct)
  case (1 self)
  let ?take = "take_next_nal (ap_codec self) False (ap_buffer self)"
  obtain r left where tk: "?take = (r, left)" by (cases ?take)
  from 1(2) tk obtain r' where r: "r = Ok r'"
    by (cases r) (auto simp: push_loop.simps [of self])
  note app = take_next_nal_append [OF tk [unfolded r], of q]
  show ?case
  proof (cases r')
    case None
    then have s1: "out = []" "s1 = self\<lparr>ap_buffer := left\<rparr>"
      using 1(2) tk r by (auto simp: push_loop.simps [of self])
    have "push_loop (self\<lparr>ap_buffer := ap_buffer self @ q\<rparr>) = push_loop (self\<lparr>ap_buffer := left @ q\<rparr>)"
      using app None
      by (simp add: push_loop.simps [of "self\<lparr>ap_buffer := _\<rparr>"] cong: prod.case_cong sum.case_cong option.case_cong)
    then show ?thesis by (simp add: s1 then_push_def split: prod.splits sum.splits)
  next
    case (Some nal)
    let ?acc = "accept_nal (self\<lparr>ap_buffer := left\<rparr>) nal"
    obtain ra s where acc: "?acc = (ra, s)" by (cases ?acc)
    have acc': "accept_nal (self\<lparr>ap_buffer := left @ q\<rparr>) nal = (ra, s\<lparr>ap_buffer := left @ q\<rparr>)"
      using acc accept_nal_any_buffer [where self = "self\<lparr>ap_buffer := left\<rparr>" and b = "left @ q" and nal = nal] by simp
    have buf: "ap_buffer s = left" using acc accept_nal_buf [OF acc [symmetric]] by simp
    from 1(2) tk r Some acc obtain au out2 where ra: "ra = Ok au"
      and loop: "push_loop s = (Ok out2, s1)" and out: "out = (case au of None \<Rightarrow> [] | Some a \<Rightarrow> [a]) @ out2"
      by (auto simp: push_loop.simps [of self] split: sum.splits prod.splits)
    have "push_loop (s\<lparr>ap_buffer := ap_buffer s @ q\<rparr>)
        = then_push (Ok out2, s1) (\<lambda>s. push_loop (s\<lparr>ap_buffer := ap_buffer s @ q\<rparr>))"
      using 1(1) [OF tk [symmetric] r Some acc [symmetric] ra loop] .
    then show ?thesis
      using app Some acc' ra out
      by (simp add: push_loop.simps [of "self\<lparr>ap_buffer := _\<rparr>"] buf then_push_def split: prod.splits sum.splits)
  qed
qed

lemma push_loop_fields:
  "push_loop self = (r, s) \<Longrightarrow> ap_codec s = ap_codec self \<and> ap_max_buffer s = ap_max_buffer self
     \<and> (\<exists>k. ap_buffer s = drop k (ap_buffer self))"
proof (induction self arbitrary: r s rule: push_loop.induct)
  case (1 self)
  let ?take = "take_next_nal (ap_codec self) False (ap_buffer self)"
  obtain rt left where tk: "?take = (rt, left)" by (cases ?take)
  obtain k where k: "left = drop k (ap_buffer self)" using take_next_nal_suffix [OF tk] by blast
  show ?case
  proof (cases "\<exists>nal. rt = Ok (Some nal)")
    case False
    with 1(2) tk k show ?thesis by (auto simp: push_loop.simps [of self] split: sum.splits option.splits)
  next
    case True
    then obtain nal where nal: "rt = Ok (Some nal)" by blast
    let ?acc = "accept_nal (self\<lparr>ap_buffer := left\<rparr>) nal"
    obtain ra s' where acc: "?acc = (ra, s')" by (cases ?acc)
    have s': "ap_codec s' = ap_codec self" "ap_max_buffer s' = ap_max_buffer self" "ap_buffer s' = left"
      using accept_nal_fields [of "self\<lparr>ap_buffer := left\<rparr>" nal] accept_nal_buffer [of "self\<lparr>ap_buffer := left\<rparr>" nal]
      by (simp_all add: acc)
    show ?thesis
    proof (cases ra)
      case (Inl e)
      with 1(2) tk nal acc s' k show ?thesis by (auto simp: push_loop.simps [of self])
    next
      case (Inr au)
      obtain r2 s2 where loop: "push_loop s' = (r2, s2)" by (cases "push_loop s'")
      have "s = s2" using 1(2) tk nal acc Inr loop by (auto simp: push_loop.simps [of self] split: sum.splits)
      with 1(1) [OF tk [symmetric] nal refl acc [symmetric] Inr loop] s' k show ?thesis
        by (auto simp: drop_drop)
    qed
  qed
qed

lemma push_chunks:
  assumes "AnnexBParser_push self p = (Ok out, s1)"
    and "length (ap_buffer self) + length p + length q \<le> ap_max_buffer self"
  shows "AnnexBParser_push self (p @ q) = then_push (Ok out, s1) (\<lambda>s. AnnexBParser_push s q)"
proof -
  let ?self = "self\<lparr>ap_buffer := ap_buffer self @ p\<rparr>"
  have loop: "push_loop ?self = (Ok out, s1)"
    using assms by (simp add: AnnexBParser_push_def Let_def split: if_splits)
  obtain k where "ap_buffer s1 = drop k (ap_buffer ?self)" "ap_max_buffer s1 = ap_max_buffer self"
    using push_loop_fields [OF loop] by auto
  then have small: "length (ap_buffer s1 @ q) \<le> ap_max_buffer s1" using assms(2) by simp
  have "AnnexBParser_push self (p @ q) = push_loop (?self\<lparr>ap_buffer := ap_buffer ?self @ q\<rparr>)"
    using assms(2) by (simp add: AnnexBParser_push_def)
  also have "\<dots> = then_push (Ok out, s1) (\<lambda>s. push_loop (s\<lparr>ap_buffer := ap_buffer s @ q\<rparr>))"
    by (rule push_loop_append [OF loop])
  also have "\<dots> = then_push (Ok out, s1) (\<lambda>s. AnnexBParser_push s q)"
    using small by (simp add: then_push_def AnnexBParser_push_def)
  finally show ?thesis .
qed

section \<open>Access units\<close>

text \<open>
  \<open>b\<close> may follow \<open>a\<close> in one access unit: it is no delimiter, and after picture data it neither starts a
  new picture nor is a parameter set or supplemental information.
\<close>

definition same_picture :: "Codec \<Rightarrow> NalUnit \<Rightarrow> NalUnit \<Rightarrow> bool" where
  "same_picture codec a b \<longleftrightarrow>
     \<not> (codec = H264 \<and> nu_nal_type b = h264_AUD)
     \<and> (is_vcl a codec \<longrightarrow>
          \<not> is_parameter_set b codec \<and> \<not> is_sei b codec \<and> \<not> (is_vcl b codec \<and> starts_new_picture b codec))"

definition parser_inv :: "AnnexBParser \<Rightarrow> bool" where
  "parser_inv s \<longleftrightarrow>
     (ap_current_has_vcl s \<longleftrightarrow> (\<exists>n \<in> set (ap_current s). is_vcl n (ap_codec s)))
     \<and> sorted_wrt (same_picture (ap_codec s)) (ap_current s)
     \<and> length (ap_parameter_sets s) \<le> MAX_PARAMETER_SET_BYTES
     \<and> length (ap_pending_sets s) \<le> MAX_PARAMETER_SET_BYTES
     \<and> (\<not> ap_collecting_sets s \<longrightarrow> ap_pending_sets s = [])"

definition au_wf :: "Codec \<Rightarrow> AccessUnit \<Rightarrow> bool" where
  "au_wf codec au \<longleftrightarrow>
     au_codec au = codec \<and> au_nals au \<noteq> [] \<and> au_annexb au = concat (map nu_annexb (au_nals au))
     \<and> (au_keyframe au \<longleftrightarrow> (\<exists>n \<in> set (au_nals au). is_keyframe_nal n codec))
     \<and> sorted_wrt (same_picture codec) (au_nals au)"

lemma parser_inv_new: "parser_inv (AnnexBParser_new codec)"
  by (simp add: parser_inv_def AnnexBParser_new_def)

lemma vcl_not_set: "is_vcl n codec \<Longrightarrow> \<not> is_parameter_set n codec"
  by (cases codec) (auto simp: nal_consts)

lemma flush_current_inv:
  assumes "parser_inv s"
  shows "parser_inv (snd (flush_current s)) \<and> (\<forall>au. fst (flush_current s) = Some au \<longrightarrow>
           au_wf (ap_codec s) au \<and> au_nals au = ap_current s)
         \<and> ap_current (snd (flush_current s)) = []"
  using assms by (auto simp: flush_current_def parser_inv_def au_wf_def list_ex_iff)

lemma no_boundary_same:
  assumes "parser_inv s" and "\<not> picture_boundary s nal" and "n \<in> set (ap_current s)"
  shows "same_picture (ap_codec s) n nal"
  using assms by (auto simp: parser_inv_def picture_boundary_def same_picture_def is_aud_def)

text \<open>The last part of \<^verbatim>\<open>accept_nal\<close>, from the state in which the NAL joins the current access unit.\<close>

definition join_nal :: "bool \<Rightarrow> AnnexBParser \<Rightarrow> NalUnit \<Rightarrow> AnnexBParser" where
  "join_nal aud s nal =
     (let s = collect_sets (if aud then s\<lparr>ap_pending_sets := [], ap_collecting_sets := False\<rparr> else s) nal;
          s = publish_sets s nal
      in s\<lparr>ap_current := ap_current s @ [nal]\<rparr>)"

lemma accept_nal_Ok:
  assumes "accept_nal self nal = (Ok au, s)"
  obtains s0 where
    "(picture_boundary self nal \<and> ap_current self \<noteq> [] \<and> au = fst (flush_current self) \<and> s0 = snd (flush_current self))
     \<or> (\<not> (picture_boundary self nal \<and> ap_current self \<noteq> []) \<and> au = None \<and> s0 = self)"
    "s = join_nal (is_aud self nal) s0 nal"
    "is_parameter_set nal (ap_codec self) \<Longrightarrow>
       length (ap_pending_sets (collect_sets (if is_aud self nal then s0\<lparr>ap_pending_sets := [], ap_collecting_sets := False\<rparr> else s0) nal))
         \<le> MAX_PARAMETER_SET_BYTES"
proof (cases "picture_boundary self nal \<and> ap_current self \<noteq> []")
  case True
  show ?thesis
    by (rule that [of "snd (flush_current self)"])
      (use assms True in \<open>auto simp: accept_nal_def join_nal_def Let_def case_prod_beta split: if_splits\<close>)
next
  case False
  show ?thesis
    by (rule that [of self])
      (use assms False in \<open>auto simp: accept_nal_def join_nal_def Let_def case_prod_beta split: if_splits\<close>)
qed

lemma join_nal_inv:
  assumes "parser_inv s0" and "\<forall>n \<in> set (ap_current s0). same_picture (ap_codec s0) n nal"
    and "is_parameter_set nal (ap_codec s0) \<Longrightarrow>
       length (ap_pending_sets (collect_sets (if aud then s0\<lparr>ap_pending_sets := [], ap_collecting_sets := False\<rparr> else s0) nal))
         \<le> MAX_PARAMETER_SET_BYTES"
  shows "parser_inv (join_nal aud s0 nal)"
proof -
  let ?s1 = "if aud then s0\<lparr>ap_pending_sets := [], ap_collecting_sets := False\<rparr> else s0"
  have 1: "parser_inv ?s1" "ap_current ?s1 = ap_current s0" "ap_codec ?s1 = ap_codec s0"
    using assms(1) by (auto simp: parser_inv_def)
  let ?s2 = "collect_sets ?s1 nal"
  have 2: "parser_inv ?s2"
    using 1 assms(3) by (cases "is_parameter_set nal (ap_codec s0)") (auto simp: parser_inv_def collect_sets_def)
  have cur: "ap_current ?s2 = ap_current s0" "ap_codec ?s2 = ap_codec s0" using 1 by simp_all
  show ?thesis
    using 2 cur assms(2) unfolding join_nal_def Let_def
    by (auto simp: parser_inv_def publish_sets_def sorted_wrt_append)
qed

lemma accept_nal_inv:
  assumes "parser_inv self" and "accept_nal self nal = (Ok au, s)"
  shows "parser_inv s \<and> (\<forall>a. au = Some a \<longrightarrow> au_wf (ap_codec self) a)
     \<and> concat (map nu_annexb (concat (map au_nals (case au of None \<Rightarrow> [] | Some a \<Rightarrow> [a])))) @ concat (map nu_annexb (ap_current s))
         = concat (map nu_annexb (ap_current self)) @ nu_annexb nal"
  using assms(2)
proof (rule accept_nal_Ok)
  fix s0
  assume s0: "(picture_boundary self nal \<and> ap_current self \<noteq> [] \<and> au = fst (flush_current self) \<and> s0 = snd (flush_current self))
     \<or> (\<not> (picture_boundary self nal \<and> ap_current self \<noteq> []) \<and> au = None \<and> s0 = self)"
    and s: "s = join_nal (is_aud self nal) s0 nal"
    and len: "is_parameter_set nal (ap_codec self) \<Longrightarrow>
       length (ap_pending_sets (collect_sets (if is_aud self nal then s0\<lparr>ap_pending_sets := [], ap_collecting_sets := False\<rparr> else s0) nal))
         \<le> MAX_PARAMETER_SET_BYTES"
  note fl = flush_current_inv [OF assms(1)]
  have cur: "ap_current s = ap_current s0 @ [nal]" unfolding s join_nal_def Let_def by simp
  have codec: "ap_codec s0 = ap_codec self" using s0 by auto
  have "parser_inv s0" using s0 fl assms(1) by auto
  moreover have "\<forall>n \<in> set (ap_current s0). same_picture (ap_codec s0) n nal"
    using s0 fl no_boundary_same [OF assms(1)] by auto
  ultimately have "parser_inv s" unfolding s using len codec by (intro join_nal_inv) auto
  moreover have "\<forall>a. au = Some a \<longrightarrow> au_wf (ap_codec self) a" using s0 fl by auto
  moreover have "concat (map nu_annexb (concat (map au_nals (case au of None \<Rightarrow> [] | Some a \<Rightarrow> [a])))) @ concat (map nu_annexb (ap_current s))
         = concat (map nu_annexb (ap_current self)) @ nu_annexb nal"
    using s0 fl cur by (auto simp: flush_current_def split: option.splits)
  ultimately show ?thesis by blast
qed

lemma take_next_nal_bytes:
  assumes "take_next_nal codec at_end p = (Ok (Some nal), left)"
  shows "\<exists>skipped. p = skipped @ nu_annexb nal @ left"
proof -
  have "take_next_nal codec at_end p = (r, left) \<Longrightarrow> \<forall>n. r = Ok (Some n) \<longrightarrow> (\<exists>skipped. p = skipped @ nu_annexb n @ left)" for r left
  proof (induction rule: take_next_nal_outcome)
    case (skip buf stop r left)
    then show ?case by (metis append.assoc append_take_drop_id)
  next
    case (nal buf start stop n)
    then have "buf = take start buf @ nu_annexb n @ drop stop buf"
      by (simp add: slice_def) (metis append_take_drop_id drop_drop le_add_diff_inverse2 less_imp_le_nat)
    then show ?case by auto
  qed auto
  with assms show ?thesis by blast
qed

lemma push_loop_inv:
  assumes "parser_inv self" and "push_loop self = (Ok out, s)"
  shows "parser_inv s \<and> (\<forall>au \<in> set out. au_wf (ap_codec self) au)
     \<and> subseq (concat (map au_annexb out) @ concat (map nu_annexb (ap_current s)) @ ap_buffer s)
              (concat (map nu_annexb (ap_current self)) @ ap_buffer self)"
  using assms
proof (induction self arbitrary: out s rule: push_loop.induct)
  case (1 self)
  let ?take = "take_next_nal (ap_codec self) False (ap_buffer self)"
  obtain r left where tk: "?take = (r, left)" by (cases ?take)
  from 1(3) tk obtain r' where r: "r = Ok r'" by (cases r) (auto simp: push_loop.simps [of self])
  obtain k where k: "left = drop k (ap_buffer self)" using take_next_nal_suffix [OF tk] by blast
  show ?case
  proof (cases r')
    case None
    then have s: "out = []" "s = self\<lparr>ap_buffer := left\<rparr>"
      using 1(3) tk r by (auto simp: push_loop.simps [of self])
    have "subseq left (ap_buffer self)" unfolding k by (metis append_take_drop_id list_emb_append2 subseq_order.order_refl)
    with 1(2) s show ?thesis by (auto simp: parser_inv_def intro: list_emb_append_mono)
  next
    case (Some nal)
    let ?self = "self\<lparr>ap_buffer := left\<rparr>"
    obtain ra s1 where acc: "accept_nal ?self nal = (ra, s1)" by (cases "accept_nal ?self nal")
    from 1(3) tk r Some acc obtain au out2 where ra: "ra = Ok au"
      and loop: "push_loop s1 = (Ok out2, s)" and out: "out = (case au of None \<Rightarrow> [] | Some a \<Rightarrow> [a]) @ out2"
      by (auto simp: push_loop.simps [of self] split: sum.splits prod.splits)
    have "parser_inv ?self" using 1(2) by (simp add: parser_inv_def)
    note a = accept_nal_inv [OF this acc [unfolded ra]]
    have codec: "ap_codec s1 = ap_codec self" and buf: "ap_buffer s1 = left"
      using accept_nal_fields(1) [of ?self nal] accept_nal_buffer [of ?self nal] by (simp_all add: acc)
    note IH = 1(1) [OF tk [symmetric] r Some acc [symmetric] ra conjunct1 [OF a] loop]
    obtain sk where sk: "ap_buffer self = sk @ nu_annexb nal @ left"
      using take_next_nal_bytes tk r Some by blast
    let ?au = "case au of None \<Rightarrow> [] | Some a \<Rightarrow> [a]"
    have au: "concat (map au_annexb ?au) = concat (map nu_annexb (concat (map au_nals ?au)))"
      using a by (auto simp: au_wf_def split: option.splits)
    have "subseq (concat (map au_annexb ?au) @ concat (map nu_annexb (ap_current s1)) @ left)
        (concat (map nu_annexb (ap_current self)) @ ap_buffer self)"
    proof -
      have "concat (map au_annexb ?au) @ concat (map nu_annexb (ap_current s1))
          = concat (map nu_annexb (ap_current self)) @ nu_annexb nal"
        unfolding au using a by simp
      then have "concat (map au_annexb ?au) @ concat (map nu_annexb (ap_current s1)) @ left
          = concat (map nu_annexb (ap_current self)) @ nu_annexb nal @ left"
        by (metis append.assoc)
      then show ?thesis unfolding sk by (simp only:) (intro list_emb_append_mono list_emb_append2; simp)
    qed
    moreover have "subseq (concat (map au_annexb out) @ concat (map nu_annexb (ap_current s)) @ ap_buffer s)
        (concat (map au_annexb ?au) @ concat (map nu_annexb (ap_current s1)) @ left)"
      using IH buf by (simp add: out list_emb_append_mono)
    ultimately show ?thesis
      using IH a codec by (auto simp: out split: option.splits intro: subseq_order.order_trans)
  qed
qed

section \<open>The bit reader against the bit string\<close>

definition bits_of :: "bytes \<Rightarrow> bool list" where
  "bits_of bs = concat (map (\<lambda>b. map (\<lambda>i. bit b (7 - i)) [0..<8]) bs)"

definition no_escape :: "bytes \<Rightarrow> bool" where
  "no_escape bs \<longleftrightarrow> (\<forall>i. \<not> (byte_at bs i = Some 0 \<and> byte_at bs (i + 1) = Some 0 \<and> byte_at bs (i + 2) = Some 3))"

definition bit_pos :: "BitReader \<Rightarrow> nat" where
  "bit_pos r = 8 * br_byte r + br_bit r"

lemma length_bits_of [simp]: "length (bits_of bs) = 8 * length bs"
  by (induction bs) (simp_all add: bits_of_def)

lemma nth_bits_of:
  "i < length bs \<Longrightarrow> j < 8 \<Longrightarrow> bits_of bs ! (8 * i + j) = bit (bs ! i) (7 - j)"
proof (induction bs arbitrary: i)
  case (Cons b bs)
  have split: "bits_of (b # bs) = map (\<lambda>i. bit b (7 - i)) [0..<8] @ bits_of bs" by (simp add: bits_of_def)
  show ?case
  proof (cases i)
    case 0
    with Cons.prems show ?thesis by (simp add: split nth_append del: upt.simps)
  next
    case (Suc k)
    with Cons show ?thesis by (simp add: split nth_append del: upt.simps)
  qed
qed simp

lemma bit_value: "drop_bit n b AND 1 = (if bit b n then 1 else (0 :: u8))"
  by (rule bit_word_eqI) (auto simp: bit_simps intro: gr0I)

lemma drop_Cons_nth: "drop n xs = y # ys \<Longrightarrow> n < length xs \<and> xs ! n = y \<and> drop (n + 1) xs = ys"
  by (metis Cons_nth_drop_Suc Suc_eq_plus1 drop_eq_Nil leI list.distinct(1) list.inject)

lemma read_bit_spec:
  assumes "no_escape (br_bytes r)" and "br_bit r < 8" and "bit_pos r < length (bits_of (br_bytes r))"
  shows "\<exists>r'. read_bit r = (Some (if bits_of (br_bytes r) ! bit_pos r then 1 else 0), r')
           \<and> br_bytes r' = br_bytes r \<and> br_bit r' < 8 \<and> bit_pos r' = bit_pos r + 1"
proof -
  have byte: "br_byte r < length (br_bytes r)" using assms(2,3) by (simp add: bit_pos_def)
  have "bits_of (br_bytes r) ! bit_pos r = bit (br_bytes r ! br_byte r) (7 - br_bit r)"
    unfolding bit_pos_def using byte assms(2) by (rule nth_bits_of)
  moreover have "\<not> (byte_at (br_bytes r) (br_byte r) = Some 0 \<and> byte_at (br_bytes r) (br_byte r + 1) = Some 0
      \<and> byte_at (br_bytes r) (br_byte r + 2) = Some 3)" using assms(1) by (simp add: no_escape_def)
  ultimately show ?thesis using byte assms(2)
    by (auto simp: read_bit_def Let_def bit_value bit_pos_def)
qed

text \<open>The value of a bit string, most significant bit first.\<close>

definition bits_value :: "bool list \<Rightarrow> nat" where
  "bits_value bs = foldl (\<lambda>v b. 2 * v + (if b then 1 else 0)) 0 bs"

lemma foldl_bits: "foldl (\<lambda>v b. 2 * v + (if b then 1 else 0)) a bs = a * 2 ^ length bs + bits_value bs"
proof (induction bs arbitrary: a)
  case Nil
  show ?case by (simp add: bits_value_def)
next
  case (Cons b bs)
  let ?b = "if b then 1 else 0 :: nat"
  have "bits_value (b # bs) = ?b * 2 ^ length bs + bits_value bs"
    using Cons.IH [of ?b] by (simp add: bits_value_def)
  moreover have "(2 * a + ?b) * 2 ^ length bs = a * 2 ^ length (b # bs) + ?b * 2 ^ length bs"
    by (simp add: algebra_simps)
  ultimately show ?case using Cons.IH [of "2 * a + ?b"] by simp
qed

lemma count_leading_spec:
  assumes "no_escape (br_bytes r)" and "br_bit r < 8" and "k + n \<le> 32" and "k < fuel"
    and "drop (bit_pos r) (bits_of (br_bytes r)) = replicate k False @ True # rest"
  shows "\<exists>r'. count_leading fuel n r = (Some (n + k), r') \<and> br_bytes r' = br_bytes r \<and> br_bit r' < 8
           \<and> drop (bit_pos r') (bits_of (br_bytes r')) = rest"
  using assms
proof (induction k arbitrary: fuel n r)
  case 0
  then obtain f where f: "fuel = Suc f" by (cases fuel) auto
  have d: "bit_pos r < length (bits_of (br_bytes r))" "bits_of (br_bytes r) ! bit_pos r"
    "drop (bit_pos r + 1) (bits_of (br_bytes r)) = rest" using drop_Cons_nth [where n = "bit_pos r" and xs = "bits_of (br_bytes r)"] 0(5) by auto
  with 0 obtain r' where "read_bit r = (Some 1, r')" "br_bytes r' = br_bytes r" "br_bit r' < 8"
    "bit_pos r' = bit_pos r + 1" using read_bit_spec [OF 0(1,2) d(1)] by auto
  with d show ?case by (simp add: f)
next
  case (Suc k)
  then obtain f where f: "fuel = Suc f" "k < f" by (cases fuel) auto
  have d: "bit_pos r < length (bits_of (br_bytes r))" "\<not> bits_of (br_bytes r) ! bit_pos r"
    "drop (bit_pos r + 1) (bits_of (br_bytes r)) = replicate k False @ True # rest"
    using drop_Cons_nth [where n = "bit_pos r" and xs = "bits_of (br_bytes r)"] Suc.prems(5) by auto
  obtain r' where r': "read_bit r = (Some 0, r')" "br_bytes r' = br_bytes r" "br_bit r' < 8"
    "bit_pos r' = bit_pos r + 1" using read_bit_spec [OF Suc.prems(1,2) d(1)] d(2) by auto
  with Suc.IH [of r' "n + 1" f] Suc.prems d(3) f(2) show ?case by (simp add: f(1))
qed

lemma read_suffix_spec:
  assumes "no_escape (br_bytes r)" and "br_bit r < 8"
    and "drop (bit_pos r) (bits_of (br_bytes r)) = sfx @ rest"
  shows "\<exists>r'. read_suffix (length sfx) (of_nat v) r
           = (Some (of_nat (foldl (\<lambda>v b. 2 * v + (if b then 1 else 0)) v sfx)), r')"
  using assms
proof (induction sfx arbitrary: v r)
  case (Cons b sfx)
  have d: "bit_pos r < length (bits_of (br_bytes r))" "bits_of (br_bytes r) ! bit_pos r = b"
    "drop (bit_pos r + 1) (bits_of (br_bytes r)) = sfx @ rest"
    using drop_Cons_nth [where n = "bit_pos r" and xs = "bits_of (br_bytes r)"] Cons.prems(3) by auto
  with Cons.prems obtain r' where r': "read_bit r = (Some (if bits_of (br_bytes r) ! bit_pos r then 1 else 0), r')"
    "br_bytes r' = br_bytes r" "br_bit r' < 8" "bit_pos r' = bit_pos r + 1" using read_bit_spec by blast
  have rest: "drop (bit_pos r') (bits_of (br_bytes r')) = sfx @ rest" using d(3) by (simp add: r')
  have "push_bit 1 (of_nat v) OR ucast (if b then 1 else 0 :: u8) = (of_nat (2 * v + (if b then 1 else 0)) :: u32)"
    by (simp add: or_one_eq push_bit_eq_mult)
  with Cons.IH [of r' "2 * v + (if b then 1 else 0)"] Cons.prems(1) r' rest show ?case
    by (simp add: d(2))
qed simp

lemma read_ue_spec:
  assumes "no_escape bs" and "k \<le> 32" and "length sfx = k"
    and "bits_of bs = replicate k False @ [True] @ sfx @ rest"
  shows "fst (read_ue (BitReader_new bs)) = Some (of_nat (2 ^ k + bits_value sfx - 1))"
proof -
  let ?r = "BitReader_new bs"
  have r: "no_escape (br_bytes ?r)" "br_bit ?r < 8" "k + 0 \<le> 32" "k < 33"
    "drop (bit_pos ?r) (bits_of (br_bytes ?r)) = replicate k False @ True # sfx @ rest"
    using assms by (simp_all add: BitReader_new_def bit_pos_def)
  from count_leading_spec [OF r] obtain r' where
    lead: "count_leading 33 0 ?r = (Some k, r')" and r': "br_bytes r' = bs" "br_bit r' < 8"
    "drop (bit_pos r') (bits_of (br_bytes r')) = sfx @ rest" by (auto simp: BitReader_new_def)
  show ?thesis
  proof (cases "k = 0")
    case True
    with assms(3) lead show ?thesis by (simp add: read_ue_def bits_value_def)
  next
    case False
    obtain r'' where "read_suffix k (of_nat 1) r' = (Some (of_nat (2 ^ k + bits_value sfx)), r'')"
      using read_suffix_spec [OF _ r'(2,3), of 1] assms(1,3) r'(1) foldl_bits [of 1 sfx] by auto
    moreover have "(1 :: nat) \<le> 2 ^ k + bits_value sfx" using one_le_power [of "2 :: nat" k] by linarith
    then have "(of_nat (2 ^ k + bits_value sfx) :: u32) - 1 = of_nat (2 ^ k + bits_value sfx - 1)"
      by (simp only: of_nat_diff of_nat_1)
    ultimately show ?thesis using lead False by (simp add: read_ue_def)
  qed
qed

section \<open>Properties\<close>

text \<open>
  C19 The result does not depend on how the stream is cut: pushing two chunks one after the other gives
  the same access units and the same parser as pushing them joined, as long as the first push succeeds
  and the joined data fits the buffer ceiling.
\<close>

theorem parser_chunking:
  assumes "AnnexBParser_push self p = (Ok out, s1)"
    and "length (ap_buffer self) + length p + length q \<le> ap_max_buffer self"
  shows "AnnexBParser_push self (p @ q) =
     (case AnnexBParser_push s1 q of
        (Inl e, s2) \<Rightarrow> (Err e, s2)
      | (Inr out', s2) \<Rightarrow> (Ok (out @ out'), s2))"
  using push_chunks [OF assms] by (simp add: then_push_def)

lemma sample_push:
  "\<exists>out s. AnnexBParser_push (AnnexBParser_new H264) [0, 0, 0, 1, 0x67, 9, 0, 0] = (Ok out, s)"
proof -
  have "take_next_nal H264 False [0, 0, 0, 1, 0x67, 9, 0, 0] = (Ok None, [0, 0, 0, 1, 0x67, 9, 0, 0])" by code_simp
  then show ?thesis
    by (simp add: AnnexBParser_push_def AnnexBParser_new_def push_loop.simps)
qed

theorem parser_chunking_witness:
  "\<exists>out s1. AnnexBParser_push (AnnexBParser_new H264) [0, 0, 0, 1, 0x67, 9, 0, 0] = (Ok out, s1)
     \<and> AnnexBParser_push (AnnexBParser_new H264) ([0, 0, 0, 1, 0x67, 9, 0, 0] @ [0, 1, 0x65, 0x88])
       = (case AnnexBParser_push s1 [0, 1, 0x65, 0x88] of
            (Inl e, s2) \<Rightarrow> (Err e, s2) | (Inr out', s2) \<Rightarrow> (Ok (out @ out'), s2))"
  using sample_push parser_chunking [of "AnnexBParser_new H264" "[0, 0, 0, 1, 0x67, 9, 0, 0]" _ _ "[0, 1, 0x65, 0x88]"]
  by (fastforce simp: AnnexBParser_new_def)



text \<open>
  No byte is invented, repeated or reordered: what a successful push has emitted, holds in the
  current access unit and keeps in its buffer is a subsequence of what it held before followed by the
  new bytes (only bytes before the first start code and empty NAL units are dropped).
\<close>

theorem push_conserves_bytes:
  assumes "parser_inv self" and "AnnexBParser_push self bs = (Ok out, s)"
  shows "subseq (concat (map au_annexb out) @ concat (map nu_annexb (ap_current s)) @ ap_buffer s)
                (concat (map nu_annexb (ap_current self)) @ ap_buffer self @ bs)"
proof -
  let ?self = "self\<lparr>ap_buffer := ap_buffer self @ bs\<rparr>"
  have "parser_inv ?self" using assms(1) by (simp add: parser_inv_def)
  moreover have "push_loop ?self = (Ok out, s)"
    using assms(2) by (simp add: AnnexBParser_push_def Let_def split: if_splits)
  ultimately have "subseq (concat (map au_annexb out) @ concat (map nu_annexb (ap_current s)) @ ap_buffer s)
      (concat (map nu_annexb (ap_current ?self)) @ ap_buffer ?self)" using push_loop_inv by blast
  then show ?thesis by simp
qed

theorem push_conserves_bytes_witness:
  "\<exists>out s. AnnexBParser_push (AnnexBParser_new H264) [0, 0, 0, 1, 0x67, 9, 0, 0] = (Ok out, s)
     \<and> subseq (ap_buffer s) [0, 0, 0, 1, 0x67, 9, 0, 0]"
proof -
  obtain out s where p: "AnnexBParser_push (AnnexBParser_new H264) [0, 0, 0, 1, 0x67, 9, 0, 0] = (Ok out, s)"
    using sample_push by blast
  from push_conserves_bytes [OF parser_inv_new p]
  have "subseq ((concat (map au_annexb out) @ concat (map nu_annexb (ap_current s))) @ ap_buffer s)
      [0, 0, 0, 1, 0x67, 9, 0, 0]" by (simp add: AnnexBParser_new_def)
  then have "subseq (ap_buffer s) [0, 0, 0, 1, 0x67, 9, 0, 0]" 
    by (rule subseq_order.order_trans [rotated]) (simp add: list_emb_append2)
  with p show ?thesis by blast
qed

text \<open>
  Exp-Golomb decoding: on data without emulation-prevention sequences, the code of \<open>k\<close> zero bits, a
  one and \<open>k\<close> further bits of value \<open>v\<close> is read as \<open>2 ^ k - 1 + v\<close>, reduced modulo \<open>2 ^ 32\<close>; up to 31
  zeros the value is exact, but with 32 zeros the reduction loses the leading one, so the code of
  \<open>2 ^ 32\<close> is read as zero, the mark of a first slice.
\<close>

theorem exp_golomb_value:
  assumes "no_escape bs" and "k \<le> 32" and "length sfx = k"
    and "bits_of bs = replicate k False @ [True] @ sfx @ rest"
  shows "exp_golomb_first_mb bs = Some (of_nat (2 ^ k + bits_value sfx - 1))"
  using read_ue_spec [OF assms] by (simp add: exp_golomb_first_mb_def)

theorem exp_golomb_value_witness:
  "exp_golomb_first_mb [0, 0, 0, 0, 0x80, 0, 0, 0, 0x80] = Some 0
   \<and> exp_golomb_first_mb [0x28] = Some 4"
proof -
  let ?bs = "[0, 0, 0, 0, 0x80, 0, 0, 0, 0x80] :: bytes"
  have ne: "no_escape ?bs" "no_escape [0x28]"
    by (auto simp: no_escape_def byte_at_def nth_Cons split: nat.splits)
  have "bits_of ?bs = replicate 32 False @ [True] @ (replicate 31 False @ [True]) @ replicate 7 False" by code_simp
  moreover have "bits_value (replicate 31 False @ [True]) = 1" by code_simp
  ultimately have "exp_golomb_first_mb ?bs = Some (of_nat (2 ^ 32 + 1 - 1))"
    using exp_golomb_value [OF ne(1), of 32 "replicate 31 False @ [True]" "replicate 7 False"] by simp
  moreover have "bits_of [0x28] = replicate 2 False @ [True] @ [False, True] @ [False, False, False]" by code_simp
  moreover have "bits_value [False, True] = 1" by code_simp
  ultimately show ?thesis
    using exp_golomb_value [OF ne(2), of 2 "[False, True]" "[False, False, False]"] by simp
qed

text \<open>
  The scanner misses a three-byte start code that directly follows a four-byte one: after
  \<open>00 00 00 01\<close> the scan resumes one byte late, so no position at offset 4 is found although
  \<open>00 00 01\<close> stands there, and the NAL unit behind it is taken as payload.
\<close>

theorem start_code_missed:
  "(4, l) \<notin> set (start_code_positions ([0, 0, 0, 1, 0, 0, 1] @ rest))"
proof -
  let ?buf = "[0, 0, 0, 1, 0, 0, 1] @ rest"
  have "start_code_positions ?buf = (0, 4) # scan_start_codes ?buf 5"
    unfolding start_code_positions_def
    by (subst scan_start_codes.simps, simp, subst scan_start_codes.simps, simp)
  moreover have "scan_start_codes ?buf 5 = scan_start_codes ?buf 6 \<or> scan_start_codes ?buf 5 = []"
    by (subst (1 3) scan_start_codes.simps) simp
  ultimately show ?thesis using scan_lower [of 4 l ?buf 6] by auto
qed

text \<open>
  The emulation-prevention rule drops a data byte: after the eight bits of a zero byte followed by
  \<open>00 03\<close> the reader goes on behind the \<open>03\<close>, so the second zero byte, which is data, is never read.
\<close>

theorem escape_skips_zero_byte:
  "snd (read_bit \<lparr>br_bytes = [0, 0, 3] @ rest, br_byte = 0, br_bit = 7\<rparr>)
     = \<lparr>br_bytes = [0, 0, 3] @ rest, br_byte = 3, br_bit = 0\<rparr>"
  by (simp add: read_bit_def Let_def byte_at_def)

section \<open>Interfaces of the shared locales\<close>

interpretation payload_types: wire_codec "\<lambda>_. True" payload_type from_payload_type
proof unfold_locales
  fix c
  show "from_payload_type (payload_type c) = Some c" by (cases c) (simp_all add: from_payload_type_def)
qed

text \<open>The reader thread feeds chunks until the first error, which ends it.\<close>

definition feed_chunk :: "AnnexBParser \<Rightarrow> bytes \<Rightarrow> AnnexBParser" where
  "feed_chunk s bs = (case AnnexBParser_push s bs of (Inr _, s') \<Rightarrow> s' | (Inl _, _) \<Rightarrow> s)"

interpretation parser_run: invariant_machine feed_chunk parser_inv
proof unfold_locales
  fix s bs
  assume inv: "parser_inv s"
  obtain r s' where push: "AnnexBParser_push s bs = (r, s')" by (cases "AnnexBParser_push s bs")
  show "parser_inv (feed_chunk s bs)"
  proof (cases r)
    case (Inr out)
    have "parser_inv (s\<lparr>ap_buffer := ap_buffer s @ bs\<rparr>)" using inv by (simp add: parser_inv_def)
    moreover have "push_loop (s\<lparr>ap_buffer := ap_buffer s @ bs\<rparr>) = (Ok out, s')"
      using push Inr by (simp add: AnnexBParser_push_def Let_def split: if_splits)
    ultimately show ?thesis using push_loop_inv push Inr by (simp add: feed_chunk_def)
  qed (simp add: feed_chunk_def push inv)
qed

end
