(* ===== verification/Encoder_Model.thy ===== *)
theory Encoder_Model
  imports Codec Interfaces
begin

text \<open>
  The video encoder (\<^verbatim>\<open>encoder.rs\<close>): choosing an ffmpeg encoder, starting the child process, and the
  pipeline of threads around it.  A bounded queue feeds the writer thread, the reader thread parses
  the child's standard output into access units, and the drain thread keeps a bounded tail of the
  child's diagnostics.

  The child and the operating system are observed, not modelled: what a read, a write or a
  \<^verbatim>\<open>try_wait\<close> returns is an argument of the operation that asks.  Clocks are in milliseconds, and a
  sleep of one millisecond moves the clock by one plus an arbitrary delay.  An
  \<^verbatim>\<open>io::Error\<close> is its display text.
\<close>

section \<open>The tail of the diagnostics\<close>

definition STDERR_TAIL_LINES :: nat where "STDERR_TAIL_LINES = 32"
definition STDERR_TAIL_BYTES :: nat where "STDERR_TAIL_BYTES = 16 * 1024"
definition STDERR_MAX_LINE_BYTES :: nat where "STDERR_MAX_LINE_BYTES = 4 * 1024"
definition STDIN_QUEUE_CAPACITY :: nat where "STDIN_QUEUE_CAPACITY = 1"
definition TEARDOWN_TIMEOUT :: nat where "TEARDOWN_TIMEOUT = 250"

lemmas stderr_consts = STDERR_TAIL_LINES_def STDERR_TAIL_BYTES_def STDERR_MAX_LINE_BYTES_def

record StderrTail =
  st_lines :: "string list"
  st_bytes :: nat

definition StderrTail_default :: StderrTail where
  "StderrTail_default = \<lparr>st_lines = [], st_bytes = 0\<rparr>"

fun floor_boundary :: "string \<Rightarrow> nat \<Rightarrow> nat" where
  "floor_boundary line 0 = 0"
| "floor_boundary line (Suc e) = (if is_char_boundary line (Suc e) then Suc e else floor_boundary line e)"

definition cut_line :: "string \<Rightarrow> string" where
  "cut_line line =
     (if length line > STDERR_MAX_LINE_BYTES
      then take (floor_boundary line STDERR_MAX_LINE_BYTES) line @ ''...''
      else line)"

fun pop_lines :: "string list \<Rightarrow> nat \<Rightarrow> string list \<times> nat" where
  "pop_lines [] n = ([], n)"
| "pop_lines (old # ls) n =
     (if length (old # ls) > STDERR_TAIL_LINES \<or> n > STDERR_TAIL_BYTES
      then pop_lines ls (n - (length old + 1))
      else (old # ls, n))"

definition push_line :: "StderrTail \<Rightarrow> string \<Rightarrow> StderrTail" where
  "push_line self line =
     (let line = cut_line line;
          (ls, n) = pop_lines (st_lines self @ [line]) (st_bytes self + (length line + 1))
      in \<lparr>st_lines = ls, st_bytes = n\<rparr>)"

definition StderrTail_text :: "StderrTail \<Rightarrow> string" where
  "StderrTail_text self = str_join [CHR 0x0A] (st_lines self)"

text \<open>
  \<^verbatim>\<open>String::from_utf8_lossy\<close>: every maximal piece that cannot be continued to a character becomes one
  U+FFFD.  \<open>utf8_unit\<close> is the length of the next piece and whether it is a character.
\<close>

definition nth_byte :: "bytes \<Rightarrow> nat \<Rightarrow> u8" where
  "nth_byte bs i = (if i < length bs then bs ! i else 0)"

definition utf8_unit :: "u8 \<Rightarrow> bytes \<Rightarrow> nat \<times> bool" where
  "utf8_unit b rest =
     (let b1 = nth_byte rest 0; c2 = is_cont (nth_byte rest 1); c3 = is_cont (nth_byte rest 2)
      in if b < 0x80 then (1, True)
         else if 0xC2 \<le> b \<and> b \<le> 0xDF then (if is_cont b1 then (2, True) else (1, False))
         else if 0xE0 \<le> b \<and> b \<le> 0xEF then
           (if \<not> (is_cont b1 \<and> (b \<noteq> 0xE0 \<or> 0xA0 \<le> b1) \<and> (b \<noteq> 0xED \<or> b1 \<le> 0x9F)) then (1, False)
            else if c2 then (3, True) else (2, False))
         else if 0xF0 \<le> b \<and> b \<le> 0xF4 then
           (if \<not> (is_cont b1 \<and> (b \<noteq> 0xF0 \<or> 0x90 \<le> b1) \<and> (b \<noteq> 0xF4 \<or> b1 \<le> 0x8F)) then (1, False)
            else if \<not> c2 then (2, False) else if c3 then (4, True) else (3, False))
         else (1, False))"

function utf8_lossy :: "bytes \<Rightarrow> bytes" where
  "utf8_lossy [] = []"
| "utf8_lossy (b # bs) =
     (case utf8_unit b bs of
        (n, True) \<Rightarrow> take n (b # bs) @ utf8_lossy (drop (n - 1) bs)
      | (n, False) \<Rightarrow> [0xEF, 0xBF, 0xBD] @ utf8_lossy (drop (n - 1) bs))"
  by pat_completeness auto
termination by (relation "measure length") auto

definition from_utf8_lossy :: "bytes \<Rightarrow> string" where
  "from_utf8_lossy bs = str_of_bytes (utf8_lossy bs)"

definition push_stderr_line :: "StderrTail \<Rightarrow> bytes \<Rightarrow> bool \<Rightarrow> StderrTail" where
  "push_stderr_line tail line truncated =
     (let text = from_utf8_lossy line @ (if truncated then ''...'' else []);
          text = (if text \<noteq> [] \<and> last text = CHR 0x0D then butlast text else text)
      in push_line tail text)"

text \<open>What one \<^verbatim>\<open>read\<close> of a pipe returns, and the drain thread's state between two reads.\<close>

datatype ReadResult = Read_data bytes | Read_eof | Read_interrupted | Read_error string

record Drain =
  dr_line :: bytes
  dr_truncated :: bool
  dr_tail :: StderrTail

definition drain_byte :: "Drain \<Rightarrow> u8 \<Rightarrow> Drain" where
  "drain_byte d b =
     (if b = 0x0A then \<lparr>dr_line = [], dr_truncated = False,
                        dr_tail = push_stderr_line (dr_tail d) (dr_line d) (dr_truncated d)\<rparr>
      else if length (dr_line d) < STDERR_MAX_LINE_BYTES then d\<lparr>dr_line := dr_line d @ [b]\<rparr>
      else d\<lparr>dr_truncated := True\<rparr>)"

definition drain_close :: "Drain \<Rightarrow> Drain" where
  "drain_close d =
     (if dr_line d \<noteq> [] \<or> dr_truncated d
      then d\<lparr>dr_tail := push_stderr_line (dr_tail d) (dr_line d) (dr_truncated d)\<rparr>
      else d)"

text \<open>The thread over the reads so far; the flag says whether it has ended.\<close>

fun drain_stderr :: "ReadResult list \<Rightarrow> Drain \<Rightarrow> Drain \<times> bool" where
  "drain_stderr [] d = (d, False)"
| "drain_stderr (r # rs) d =
     (case r of
        Read_data bs \<Rightarrow> drain_stderr rs (foldl drain_byte d bs)
      | Read_interrupted \<Rightarrow> drain_stderr rs d
      | _ \<Rightarrow> (drain_close d, True))"

section \<open>Choosing an encoder\<close>

datatype EncoderChoice = Auto | Vaapi | Nvenc | Amf | Qsv | Software

definition EncoderChoice_parse :: "string \<Rightarrow> EncoderChoice option" where
  "EncoderChoice_parse s =
     (if s = ''auto'' then Some Auto
      else if s = ''vaapi'' then Some Vaapi
      else if s = ''nvenc'' then Some Nvenc
      else if s = ''amf'' then Some Amf
      else if s = ''qsv'' then Some Qsv
      else if s = ''sw'' \<or> s = ''software'' \<or> s = ''libx264'' then Some Software
      else None)"

fun EncoderChoice_debug :: "EncoderChoice \<Rightarrow> string" where
  "EncoderChoice_debug Auto = ''Auto''"
| "EncoderChoice_debug Vaapi = ''Vaapi''"
| "EncoderChoice_debug Nvenc = ''Nvenc''"
| "EncoderChoice_debug Amf = ''Amf''"
| "EncoderChoice_debug Qsv = ''Qsv''"
| "EncoderChoice_debug Software = ''Software''"

fun vaapi_encoder :: "Codec \<Rightarrow> string" where
  "vaapi_encoder H264 = ''h264_vaapi''"
| "vaapi_encoder Hevc = ''hevc_vaapi''"

fun nvenc_encoder :: "Codec \<Rightarrow> string" where
  "nvenc_encoder H264 = ''h264_nvenc''"
| "nvenc_encoder Hevc = ''hevc_nvenc''"

fun amf_encoder :: "Codec \<Rightarrow> string" where
  "amf_encoder H264 = ''h264_amf''"
| "amf_encoder Hevc = ''hevc_amf''"

fun qsv_encoder :: "Codec \<Rightarrow> string" where
  "qsv_encoder H264 = ''h264_qsv''"
| "qsv_encoder Hevc = ''hevc_qsv''"

record Candidate =
  cand_name :: string
  cand_codec :: Codec
  cand_software :: bool

definition Candidate_new :: "string \<Rightarrow> Codec \<Rightarrow> bool \<Rightarrow> Candidate" where
  "Candidate_new name codec software = \<lparr>cand_name = name, cand_codec = codec, cand_software = software\<rparr>"

definition ends_with :: "string \<Rightarrow> string \<Rightarrow> bool" where
  "ends_with s p \<longleftrightarrow> length p \<le> length s \<and> drop (length s - length p) s = p"

definition needs_vaapi_device :: "Candidate \<Rightarrow> bool" where
  "needs_vaapi_device self = ends_with (cand_name self) ''_vaapi''"

fun candidates :: "EncoderChoice \<Rightarrow> Codec \<Rightarrow> Candidate list" where
  "candidates Software c = [Candidate_new ''libx264'' H264 True]"
| "candidates Vaapi c = [Candidate_new (vaapi_encoder c) c False]"
| "candidates Nvenc c = [Candidate_new (nvenc_encoder c) c False]"
| "candidates Amf c = [Candidate_new (amf_encoder c) c False]"
| "candidates Qsv c = [Candidate_new (qsv_encoder c) c False]"
| "candidates Auto c =
     [Candidate_new (vaapi_encoder c) c False, Candidate_new (nvenc_encoder c) c False,
      Candidate_new (amf_encoder c) c False, Candidate_new (qsv_encoder c) c False,
      Candidate_new ''libx264'' H264 True]"

record EncoderConfig =
  ec_choice :: EncoderChoice
  ec_codec :: Codec
  ec_bitrate :: u32
  ec_gop :: u32
  ec_fps :: u32
  ec_width :: u32
  ec_height :: u32

definition EncoderConfig_default :: EncoderConfig where
  "EncoderConfig_default =
     \<lparr>ec_choice = Auto, ec_codec = H264, ec_bitrate = 30000000, ec_gop = 150, ec_fps = 60,
      ec_width = 1920, ec_height = 1080\<rparr>"

datatype EncoderError =
    NoEncoder EncoderChoice "(string \<times> string) list"
  | ChildFailed string string
  | WriteError string
  | CodecFailed CodecError
  | BadConfig string
  | Rejected string

fun EncoderError_display :: "EncoderError \<Rightarrow> string" where
  "EncoderError_display (NoEncoder requested attempts) =
     ''no usable encoder for '' @ EncoderChoice_debug requested @ '': '' @
     (if attempts = [] then ''nothing was tried''
      else str_join ''; '' (map (\<lambda>(name, why). name @ '': '' @ why) attempts))"
| "EncoderError_display (ChildFailed encoder status) = ''encoder '' @ encoder @ '' failed: '' @ status"
| "EncoderError_display (WriteError e) = ''could not write frame to encoder: '' @ e"
| "EncoderError_display (CodecFailed e) = ''encoder output could not be parsed: '' @ CodecError_display e"
| "EncoderError_display (BadConfig why) = ''invalid encoder configuration: '' @ why"
| "EncoderError_display (Rejected why) = why"

definition ffmpeg_missing :: "EncoderError \<Rightarrow> bool" where
  "ffmpeg_missing self = sublist ''could not start ffmpeg'' (EncoderError_display self)"

definition validate :: "EncoderConfig \<Rightarrow> EncoderError + unit" where
  "validate config =
     (if ec_width config = 0 \<or> ec_height config = 0
      then Err (BadConfig ''width and height must be non-zero'')
      else if ec_width config mod 2 \<noteq> 0 \<or> ec_height config mod 2 \<noteq> 0
      then Err (BadConfig (show_nat (unat (ec_width config)) @ ''x'' @ show_nat (unat (ec_height config))
                           @ '' is not even in both dimensions; 4:2:0 requires it''))
      else if ec_fps config = 0 then Err (BadConfig ''fps must be non-zero'')
      else Ok ())"

section \<open>Starting the child process\<close>

text \<open>
  \<^verbatim>\<open>gop as f64 / fps as f64\<close>, at least one half, printed with two decimals: the quotient rounded to 53
  significant bits (\<open>m / 2 ^ k\<close>), then to hundredths, both half to even.
\<close>

definition half_even :: "nat \<Rightarrow> nat \<Rightarrow> nat" where
  "half_even n d =
     (let q = n div d; r = n mod d
      in if 2 * r < d \<or> (2 * r = d \<and> even q) then q else q + 1)"

function f64_scale :: "nat \<Rightarrow> nat \<Rightarrow> nat \<Rightarrow> nat" where
  "f64_scale a b k = (if a * 2 ^ k < 2 ^ 52 * b \<and> k < 100 then f64_scale a b (k + 1) else k)"
  by pat_completeness auto
termination by (relation "measure (\<lambda>(a, b, k). 100 - k)") auto

declare f64_scale.simps [simp del]

definition hundredths :: "nat \<Rightarrow> string" where
  "hundredths c = show_nat (c div 100) @ ''.'' @ pad_zero 2 (show_nat (c mod 100))"

definition keyframe_seconds :: "u32 \<Rightarrow> u32 \<Rightarrow> string" where
  "keyframe_seconds gop fps =
     (let a = unat gop; b = unat fps; k = f64_scale a b 0; m = half_even (a * 2 ^ k) b
      in if a = 0 then hundredths 50
         else if b = 0 then ''inf''
         else if 2 * m < 2 ^ k then hundredths 50
         else hundredths (half_even (100 * m) (2 ^ k)))"

text \<open>The arguments after \<^verbatim>\<open>ffmpeg\<close>; \<open>device\<close> is the render node when the candidate needs one.\<close>

definition ffmpeg_args :: "EncoderConfig \<Rightarrow> Candidate \<Rightarrow> string \<Rightarrow> string list" where
  "ffmpeg_args config candidate device =
     [''-hide_banner'', ''-loglevel'', ''error'', ''-nostdin'', ''-y''] @
     (if needs_vaapi_device candidate then [''-vaapi_device'', device] else []) @
     [''-f'', ''rawvideo'', ''-pix_fmt'', ''rgba'',
      ''-s'', show_nat (unat (ec_width config)) @ ''x'' @ show_nat (unat (ec_height config)),
      ''-r'', show_nat (unat (ec_fps config)), ''-i'', ''pipe:0''] @
     (if needs_vaapi_device candidate then [''-vf'', ''format=nv12,hwupload'']
      else [''-pix_fmt'', ''yuv420p'']) @
     [''-c:v'', cand_name candidate] @
     [''-profile:v'', (case cand_codec candidate of H264 \<Rightarrow> ''high'' | Hevc \<Rightarrow> ''main'')] @
     [''-b:v'', show_nat (unat (ec_bitrate config div 1000)) @ ''k''] @
     [''-force_key_frames'',
      ''expr:gte(t,n_forced*'' @ keyframe_seconds (ec_gop config) (ec_fps config) @ '')''] @
     [''-bf'', ''0''] @
     (if cand_software candidate then [''-preset'', ''veryfast''] else []) @
     [''-f'', Codec_name (cand_codec candidate), ''pipe:1'']"

record ExitStatus =
  es_success :: bool
  es_text :: string

type_synonym wait_result = "string + ExitStatus option"

datatype ReaderMessage = Unit AccessUnit bytes | End "string + unit"

datatype EncodeOutcome = Pending | Encoded

text \<open>
  The encoder with the channels and shared cells of its threads: \<open>enc_stdin\<close> and the thread handles say
  whether the \<^verbatim>\<open>Option\<close> is still filled, \<open>enc_queue\<close> and \<open>enc_rx\<close> are the contents of the two channels, and
  \<open>enc_writer_gone\<close>, \<open>enc_reader_gone\<close> say that the thread at the other end has dropped it.
\<close>

record Encoder =
  enc_stdin :: bool
  enc_queue :: "bytes list"
  enc_writer_gone :: bool
  enc_writer :: bool
  enc_writer_error :: "string option"
  enc_stderr_tail :: StderrTail
  enc_stderr_reader :: bool
  enc_rx :: "ReaderMessage list"
  enc_reader_gone :: bool
  enc_produced :: u64
  enc_reader :: bool
  enc_finished :: bool
  enc_keyframe_requested :: bool
  enc_parameter_sets :: bytes
  enc_candidate :: Candidate
  enc_config :: EncoderConfig
  enc_last_encode :: "nat option"
  enc_frames_in :: u64
  enc_frames_dropped :: u64
  enc_frames_out :: u64

definition Encoder_new :: "EncoderConfig \<Rightarrow> Candidate \<Rightarrow> Encoder" where
  "Encoder_new config candidate =
     \<lparr>enc_stdin = True, enc_queue = [], enc_writer_gone = False, enc_writer = True, enc_writer_error = None,
      enc_stderr_tail = StderrTail_default, enc_stderr_reader = True, enc_rx = [], enc_reader_gone = False,
      enc_produced = 0, enc_reader = True, enc_finished = False, enc_keyframe_requested = False,
      enc_parameter_sets = [], enc_candidate = candidate, enc_config = config, enc_last_encode = None,
      enc_frames_in = 0, enc_frames_dropped = 0, enc_frames_out = 0\<rparr>"

definition with_stderr :: "Encoder \<Rightarrow> string \<Rightarrow> string" where
  "with_stderr self status =
     (let text = StderrTail_text (enc_stderr_tail self)
      in if text = [] then status else status @ ''; ffmpeg stderr:'' @ [CHR 0x0A] @ text)"

text \<open>
  What starting a candidate observes: the environment variable, which paths exist, the error of the
  spawn if any, the child's status after 30 milliseconds, and the diagnostics drained by then.
\<close>

record SpawnView =
  sv_vaapi_env :: "string option"
  sv_exists :: "string \<Rightarrow> bool"
  sv_spawn_error :: "string list \<Rightarrow> string option"
  sv_wait :: wait_result
  sv_tail :: StderrTail

definition vaapi_device :: "SpawnView \<Rightarrow> string" where
  "vaapi_device v = (case sv_vaapi_env v of Some d \<Rightarrow> d | None \<Rightarrow> ''/dev/dri/renderD128'')"

definition spawn :: "SpawnView \<Rightarrow> EncoderConfig \<Rightarrow> Candidate \<Rightarrow> string + Encoder" where
  "spawn v config candidate =
     (if needs_vaapi_device candidate \<and> \<not> sv_exists v (vaapi_device v)
      then Err (''no VAAPI device at '' @ vaapi_device v)
      else case sv_spawn_error v (ffmpeg_args config candidate (vaapi_device v)) of
        Some e \<Rightarrow> Err (''could not start ffmpeg: '' @ e)
      | None \<Rightarrow>
         (let encoder = (Encoder_new config candidate)\<lparr>enc_stderr_tail := sv_tail v\<rparr>
          in case sv_wait v of
               Inr (Some status) \<Rightarrow>
                 Err (with_stderr (encoder\<lparr>enc_stderr_reader := False\<rparr>) (''exited immediately with '' @ es_text status))
             | Inr None \<Rightarrow> Ok encoder
             | Inl e \<Rightarrow> Err (with_stderr encoder (''could not query the encoder process: '' @ e))))"

fun try_candidates ::
  "(Candidate \<Rightarrow> SpawnView) \<Rightarrow> EncoderConfig \<Rightarrow> Candidate list \<Rightarrow> (string \<times> string) list \<Rightarrow> EncoderError + Encoder" where
  "try_candidates views config [] attempts = Err (NoEncoder (ec_choice config) attempts)"
| "try_candidates views config (c # cs) attempts =
     (case spawn (views c) config c of
        Inr encoder \<Rightarrow> Ok encoder
      | Inl why \<Rightarrow> try_candidates views config cs (attempts @ [(cand_name c, why)]))"

definition Encoder_start :: "(Candidate \<Rightarrow> SpawnView) \<Rightarrow> EncoderConfig \<Rightarrow> EncoderError + Encoder" where
  "Encoder_start views config =
     (case validate config of
        Inl e \<Rightarrow> Err e
      | Inr _ \<Rightarrow> try_candidates views config (candidates (ec_choice config) (ec_codec config)) [])"

definition start_exact :: "SpawnView \<Rightarrow> EncoderConfig \<Rightarrow> Candidate \<Rightarrow> EncoderError + Encoder" where
  "start_exact v config candidate =
     (case validate config of Inl e \<Rightarrow> Err e | Inr _ \<Rightarrow> map_err Rejected (spawn v config candidate))"

section \<open>Waiting with a deadline\<close>

text \<open>
  Both waits sleep one millisecond per turn; \<open>delay i\<close> is how much longer the \<open>i\<close>-th turn took.  The
  result is the number of the last turn.
\<close>

function join_wait :: "(nat \<Rightarrow> bool) \<Rightarrow> (nat \<Rightarrow> nat) \<Rightarrow> nat \<Rightarrow> nat \<Rightarrow> nat \<Rightarrow> nat" where
  "join_wait is_finished delay deadline now i =
     (if \<not> is_finished i \<and> now < deadline
      then join_wait is_finished delay deadline (now + 1 + delay i) (i + 1)
      else i)"
  by pat_completeness auto
termination by (relation "measure (\<lambda>(f, d, deadline, now, i). deadline - now)") auto

declare join_wait.simps [simp del]

function child_wait :: "(nat \<Rightarrow> wait_result) \<Rightarrow> (nat \<Rightarrow> nat) \<Rightarrow> nat \<Rightarrow> nat \<Rightarrow> nat \<Rightarrow> nat" where
  "child_wait try_wait delay deadline now i =
     (case try_wait i of
        Inr None \<Rightarrow> (if deadline \<le> now then i else child_wait try_wait delay deadline (now + 1 + delay i) (i + 1))
      | _ \<Rightarrow> i)"
  by pat_completeness auto
termination by (relation "measure (\<lambda>(w, d, deadline, now, i). deadline - now)") auto

declare child_wait.simps [simp del]

text \<open>Joining the drain thread: \<open>jv_tail\<close> is the tail when the wait is over.\<close>

record JoinView =
  jv_finished :: "nat \<Rightarrow> bool"
  jv_delay :: "nat \<Rightarrow> nat"
  jv_tail :: StderrTail

definition join_stderr_bounded :: "JoinView \<Rightarrow> Encoder \<Rightarrow> nat \<times> Encoder" where
  "join_stderr_bounded v self =
     (if \<not> enc_stderr_reader self then (0, self)
      else (join_wait (jv_finished v) (jv_delay v) TEARDOWN_TIMEOUT 0 0,
            self\<lparr>enc_stderr_reader := False, enc_stderr_tail := jv_tail v\<rparr>))"

text \<open>
  \<^verbatim>\<open>stop_child_and_join\<close>: \<open>kv_poll\<close> are the results of \<^verbatim>\<open>try_wait\<close> after the kill.  The result is the number of
  the last poll; the three handles are taken, and a thread that has not finished is left to itself.
\<close>

record KillView =
  kv_poll :: "nat \<Rightarrow> wait_result"
  kv_delay :: "nat \<Rightarrow> nat"

definition stop_child_and_join :: "KillView \<Rightarrow> Encoder \<Rightarrow> nat \<times> Encoder" where
  "stop_child_and_join v self =
     (child_wait (kv_poll v) (kv_delay v) TEARDOWN_TIMEOUT 0 0,
      self\<lparr>enc_stdin := False, enc_reader := False, enc_writer := False, enc_stderr_reader := False\<rparr>)"

definition Encoder_drop :: "KillView \<Rightarrow> Encoder \<Rightarrow> nat \<times> Encoder" where
  "Encoder_drop v self = stop_child_and_join v self"

section \<open>Feeding frames\<close>

datatype QueueResult = Queued | Dropped | Closed

text \<open>\<^verbatim>\<open>SyncSender::try_send\<close>: a channel whose receiver is gone is closed, whatever it holds.\<close>

definition try_queue_frame :: "Encoder \<Rightarrow> bytes \<Rightarrow> QueueResult \<times> Encoder" where
  "try_queue_frame self frame =
     (if enc_writer_gone self then (Closed, self)
      else if STDIN_QUEUE_CAPACITY \<le> length (enc_queue self) then (Dropped, self)
      else (Queued, self\<lparr>enc_queue := enc_queue self @ [frame]\<rparr>))"

definition writer_has_failed :: "Encoder \<Rightarrow> bool" where
  "writer_has_failed self \<longleftrightarrow> enc_writer_error self \<noteq> None"

definition take_writer_error_opt :: "Encoder \<Rightarrow> string option \<times> Encoder" where
  "take_writer_error_opt self = (enc_writer_error self, self\<lparr>enc_writer_error := None\<rparr>)"

definition take_writer_error :: "Encoder \<Rightarrow> string \<times> Encoder" where
  "take_writer_error self =
     (case take_writer_error_opt self of
        (Some e, self) \<Rightarrow> (e, self)
      | (None, self) \<Rightarrow> (''encoder stdin writer stopped'', self))"

definition exit_status :: "wait_result \<Rightarrow> ExitStatus option" where
  "exit_status w = (case w of Inr s \<Rightarrow> s | Inl _ \<Rightarrow> None)"

text \<open>What an operation sees of the child: the result of \<^verbatim>\<open>try_wait\<close>, and the wait for the drain thread.\<close>

record ChildView =
  cv_wait :: wait_result
  cv_join :: JoinView

definition writer_failure :: "ChildView \<Rightarrow> Encoder \<Rightarrow> EncoderError \<times> Encoder" where
  "writer_failure v self =
     (let (error, self) = take_writer_error self;
          st = exit_status (cv_wait v);
          self = (if st \<noteq> None then snd (join_stderr_bounded (cv_join v) self) else self);
          status = (case st of Some s \<Rightarrow> ''encoder exited with '' @ es_text s | None \<Rightarrow> ''encoder child did not exit'')
      in (ChildFailed (cand_name (enc_candidate self))
            (with_stderr self (''stdin writer failed: '' @ error @ ''; '' @ status)), self))"

definition sat_mul :: "nat \<Rightarrow> nat \<Rightarrow> nat" where
  "sat_mul a b = min (a * b) u64_max"

definition expected_len :: "EncoderConfig \<Rightarrow> nat" where
  "expected_len config = sat_mul (sat_mul (unat (ec_width config)) (unat (ec_height config))) 4"

text \<open>\<open>elapsed\<close> is what \<^verbatim>\<open>started.elapsed()\<close> measures.\<close>

definition encode :: "ChildView \<Rightarrow> nat \<Rightarrow> Encoder \<Rightarrow> bytes \<Rightarrow> (EncoderError + EncodeOutcome) \<times> Encoder" where
  "encode v elapsed self rgba =
     (let expected = expected_len (enc_config self)
      in if length rgba \<noteq> expected
         then (Err (BadConfig (''frame is '' @ show_nat (length rgba) @ '' bytes, expected '' @ show_nat expected @ '' for ''
                 @ show_nat (unat (ec_width (enc_config self))) @ ''x'' @ show_nat (unat (ec_height (enc_config self))) @ '' RGBA'')), self)
         else if enc_finished self then (Err (Rejected ''encoder is finished''), self)
         else if writer_has_failed self
         then (case writer_failure v (self\<lparr>enc_stdin := False\<rparr>) of (e, self) \<Rightarrow> (Err e, self))
         else if \<not> enc_stdin self then (Err (Rejected ''encoder is finished''), self)
         else case try_queue_frame self rgba of
           (Closed, self) \<Rightarrow> (case writer_failure v (self\<lparr>enc_stdin := False\<rparr>) of (e, self) \<Rightarrow> (Err e, self))
         | (q, self) \<Rightarrow>
            (let self = (if q = Dropped then self\<lparr>enc_frames_dropped := enc_frames_dropped self + 1\<rparr>
                         else self\<lparr>enc_frames_in := enc_frames_in self + 1\<rparr>);
                 self = self\<lparr>enc_last_encode := Some elapsed\<rparr>
             in (Ok (if enc_produced self > enc_frames_out self then Encoded else Pending), self)))"

section \<open>Taking access units\<close>

definition is_software :: "Encoder \<Rightarrow> bool" where
  "is_software self = cand_software (enc_candidate self)"

definition output_ended :: "wait_result \<Rightarrow> Encoder \<Rightarrow> (EncoderError + AccessUnit option) \<times> Encoder" where
  "output_ended w self =
     (let self = self\<lparr>enc_finished := True, enc_stdin := False\<rparr>;
          status = (case exit_status w of Some s \<Rightarrow> ''encoder exited with '' @ es_text s
                    | None \<Rightarrow> ''encoder output ended before finish'')
      in (Err (ChildFailed (cand_name (enc_candidate self)) (with_stderr self status)), self))"

definition stop_reading :: "Encoder \<Rightarrow> string \<Rightarrow> (EncoderError + AccessUnit option) \<times> Encoder" where
  "stop_reading self why =
     (let self = self\<lparr>enc_finished := True, enc_stdin := False\<rparr>
      in (Err (ChildFailed (cand_name (enc_candidate self)) (with_stderr self why)), self))"

definition take_message :: "wait_result \<Rightarrow> Encoder \<Rightarrow> ReaderMessage \<Rightarrow> (EncoderError + AccessUnit option) \<times> Encoder" where
  "take_message w self msg =
     (case msg of
        Unit au sets \<Rightarrow>
          (Ok (Some au),
           self\<lparr>enc_frames_out := enc_frames_out self + 1, enc_parameter_sets := sets,
                enc_keyframe_requested := enc_keyframe_requested self \<and> \<not> au_keyframe au\<rparr>)
      | End (Inl why) \<Rightarrow> stop_reading self why
      | End (Inr _) \<Rightarrow> output_ended w self)"

text \<open>\<^verbatim>\<open>try_recv\<close> on the reader's channel: what it holds comes first, then whether the sender is gone.\<close>

definition next_access_unit_result :: "wait_result \<Rightarrow> Encoder \<Rightarrow> (EncoderError + AccessUnit option) \<times> Encoder" where
  "next_access_unit_result w self =
     (case enc_rx self of
        msg # rest \<Rightarrow> take_message w (self\<lparr>enc_rx := rest\<rparr>) msg
      | [] \<Rightarrow> if enc_reader_gone self then stop_reading self ''encoder output reader stopped unexpectedly''
              else (Ok None, self))"

definition next_access_unit :: "wait_result \<Rightarrow> Encoder \<Rightarrow> AccessUnit option \<times> Encoder" where
  "next_access_unit w self =
     (case next_access_unit_result w self of (Inr au, self) \<Rightarrow> (au, self) | (Inl _, self) \<Rightarrow> (None, self))"

text \<open>\<^verbatim>\<open>recv_timeout\<close>: \<open>arrived\<close> are the messages that came in while it waited, \<open>gone\<close> whether the reader ended.\<close>

definition next_access_unit_timeout ::
  "wait_result \<Rightarrow> ReaderMessage list \<Rightarrow> bool \<Rightarrow> Encoder \<Rightarrow> (EncoderError + AccessUnit option) \<times> Encoder" where
  "next_access_unit_timeout w arrived gone self =
     (let self = self\<lparr>enc_rx := enc_rx self @ arrived, enc_reader_gone := enc_reader_gone self \<or> gone\<rparr>
      in case enc_rx self of
           msg # rest \<Rightarrow> take_message w (self\<lparr>enc_rx := rest\<rparr>) msg
         | [] \<Rightarrow> if enc_reader_gone self then stop_reading self ''encoder output reader stopped unexpectedly''
                 else (Ok None, self))"

definition payload_for :: "Encoder \<Rightarrow> AccessUnit \<Rightarrow> bytes" where
  "payload_for self au =
     (if au_keyframe au \<and> take (length (enc_parameter_sets self)) (au_annexb au) = enc_parameter_sets self
      then au_annexb au
      else enc_parameter_sets self @ au_annexb au)"

definition request_keyframe :: "Encoder \<Rightarrow> Encoder" where
  "request_keyframe self = self\<lparr>enc_keyframe_requested := True\<rparr>"

definition keyframe_pending :: "Encoder \<Rightarrow> bool" where
  "keyframe_pending self = enc_keyframe_requested self"

section \<open>Finishing the stream\<close>

datatype RecvResult = Received ReaderMessage | RecvTimeout | RecvDisconnected

text \<open>
  The drain of \<^verbatim>\<open>finish\<close>: \<open>recv i\<close> is what the \<open>i\<close>-th \<^verbatim>\<open>recv_timeout\<close> returns.  The result holds the
  access units, the reader's error and whether the stream ended; \<open>None\<close> is a drain that never ends.
\<close>

partial_function (option) finish_drain ::
  "(nat \<Rightarrow> RecvResult) \<Rightarrow> nat \<Rightarrow> AccessUnit list \<Rightarrow> (AccessUnit list \<times> string option \<times> bool) option" where
  "finish_drain recv i out =
     (case recv i of
        Received (Unit au sets) \<Rightarrow> finish_drain recv (i + 1) (out @ [au])
      | Received (End (Inr _)) \<Rightarrow> Some (out, None, True)
      | Received (End (Inl why)) \<Rightarrow> Some (out, Some why, False)
      | RecvTimeout \<Rightarrow> Some (out, Some ''timed out waiting for encoder output'', False)
      | RecvDisconnected \<Rightarrow> Some (out, Some ''encoder output reader stopped unexpectedly'', False))"

text \<open>What \<^verbatim>\<open>finish\<close> observes, in the order in which it looks.\<close>

record FinishView =
  fv_recv :: "nat \<Rightarrow> RecvResult"
  fv_wait_before :: wait_result
  fv_writer_error_before :: "string option"
  fv_kill :: KillView
  fv_wait_after :: wait_result
  fv_writer_error_after :: "string option"
  fv_tail :: StderrTail

definition or_else :: "'a option \<Rightarrow> 'a option \<Rightarrow> 'a option" where
  "or_else a b = (case a of Some x \<Rightarrow> Some x | None \<Rightarrow> b)"

definition add_writer_error :: "string \<Rightarrow> string option \<Rightarrow> string" where
  "add_writer_error status e = (case e of Some e \<Rightarrow> status @ ''; stdin writer: '' @ e | None \<Rightarrow> status)"

definition finish :: "FinishView \<Rightarrow> Encoder \<Rightarrow> (EncoderError + AccessUnit list) option" where
  "finish v self =
     (case finish_drain (fv_recv v) 0 [] of
        None \<Rightarrow> None
      | Some (out, reader_error, stream_ended) \<Rightarrow> Some
         (let self = snd (stop_child_and_join (fv_kill v) (self\<lparr>enc_stdin := False, enc_stderr_tail := fv_tail v\<rparr>));
              child_status = or_else (exit_status (fv_wait_before v)) (exit_status (fv_wait_after v));
              writer_error = or_else (fv_writer_error_before v) (fv_writer_error_after v);
              name = cand_name (enc_candidate self)
          in case reader_error of
               Some why \<Rightarrow> Err (ChildFailed name (add_writer_error (with_stderr self why) writer_error))
             | None \<Rightarrow>
                (case child_status of
                   Some status \<Rightarrow>
                     if \<not> es_success status
                     then Err (ChildFailed name (add_writer_error (with_stderr self (''encoder exited with '' @ es_text status)) writer_error))
                     else if \<not> stream_ended \<and> writer_error \<noteq> None then Err (WriteError (the writer_error))
                     else Ok out
                 | None \<Rightarrow>
                     if \<not> stream_ended \<and> writer_error \<noteq> None then Err (WriteError (the writer_error))
                     else Ok out)))"

section \<open>The threads\<close>

text \<open>
  One read of the reader thread: the messages it sends, each with whether \<^verbatim>\<open>produced\<close> is incremented
  before the send, and whether the thread returns after them.
\<close>

fun reader_read :: "ReadResult \<Rightarrow> AnnexBParser \<Rightarrow> (bool \<times> ReaderMessage) list \<times> bool \<times> AnnexBParser" where
  "reader_read Read_eof parser =
     (case AnnexBParser_finish parser of
        (Inr units, parser) \<Rightarrow>
          (map (\<lambda>au. (False, Unit au (ap_parameter_sets parser))) units @ [(False, End (Ok ()))], True, parser)
      | (Inl e, parser) \<Rightarrow> ([(False, End (Err (CodecError_display e)))], True, parser))"
| "reader_read (Read_data bs) parser =
     (case AnnexBParser_push parser bs of
        (Inr units, parser) \<Rightarrow> (map (\<lambda>au. (True, Unit au (ap_parameter_sets parser))) units, False, parser)
      | (Inl e, parser) \<Rightarrow> ([(False, End (Err (CodecError_display e)))], True, parser))"
| "reader_read Read_interrupted parser = ([], False, parser)"
| "reader_read (Read_error e) parser = ([(False, End (Err e))], True, parser)"

text \<open>
  The pipeline: the encoder, the frame the writer thread holds, the reader thread (its parser, the
  messages it still has to send, whether it returns after them) and the drain thread's line.  The last
  four fields record the history: frames accepted by the queue, frames written to the child, the
  results of reading its output, access units handed to the caller.
\<close>

record Pipeline =
  pl_enc :: Encoder
  pl_frame :: "bytes option"
  pl_parser :: AnnexBParser
  pl_sending :: "(bool \<times> ReaderMessage) list"
  pl_returning :: bool
  pl_line :: bytes
  pl_truncated :: bool
  pl_accepted :: "bytes list"
  pl_written :: "bytes list"
  pl_reads :: "ReadResult list"
  pl_delivered :: "AccessUnit list"

definition pipeline_start :: "Encoder \<Rightarrow> Pipeline" where
  "pipeline_start enc =
     \<lparr>pl_enc = enc, pl_frame = None, pl_parser = AnnexBParser_new (cand_codec (enc_candidate enc)), pl_sending = [],
      pl_returning = False, pl_line = [], pl_truncated = False, pl_accepted = [], pl_written = [], pl_reads = [],
      pl_delivered = []\<rparr>"

definition pl_drain :: "Pipeline \<Rightarrow> Drain" where
  "pl_drain p = \<lparr>dr_line = pl_line p, dr_truncated = pl_truncated p, dr_tail = enc_stderr_tail (pl_enc p)\<rparr>"

text \<open>The steps of the writer thread, the reader thread, the drain thread and the caller.\<close>

inductive pipe_step :: "Pipeline \<Rightarrow> Pipeline \<Rightarrow> bool" where
  writer_recv:
    "\<not> enc_writer_gone (pl_enc p) \<Longrightarrow> pl_frame p = None \<Longrightarrow> enc_queue (pl_enc p) = f # rest
     \<Longrightarrow> pipe_step p (p\<lparr>pl_enc := pl_enc p\<lparr>enc_queue := rest\<rparr>, pl_frame := Some f\<rparr>)"
| writer_wrote:
    "pl_frame p = Some f \<Longrightarrow> pipe_step p (p\<lparr>pl_frame := None, pl_written := pl_written p @ [f]\<rparr>)"
| writer_failed:
    "pl_frame p = Some f
     \<Longrightarrow> pipe_step p (p\<lparr>pl_frame := None,
                      pl_enc := pl_enc p\<lparr>enc_writer_error := or_else (enc_writer_error (pl_enc p)) (Some e),
                                        enc_writer_gone := True, enc_queue := []\<rparr>\<rparr>)"
| writer_closed:
    "\<not> enc_writer_gone (pl_enc p) \<Longrightarrow> pl_frame p = None \<Longrightarrow> enc_queue (pl_enc p) = [] \<Longrightarrow> \<not> enc_stdin (pl_enc p)
     \<Longrightarrow> pipe_step p (p\<lparr>pl_enc := pl_enc p\<lparr>enc_writer_gone := True\<rparr>\<rparr>)"
| reader_reads:
    "\<not> enc_reader_gone (pl_enc p) \<Longrightarrow> pl_sending p = [] \<Longrightarrow> \<not> pl_returning p
     \<Longrightarrow> reader_read r (pl_parser p) = (msgs, ret, parser)
     \<Longrightarrow> pipe_step p (p\<lparr>pl_parser := parser, pl_sending := msgs, pl_returning := ret, pl_reads := pl_reads p @ [r]\<rparr>)"
| reader_counts:
    "pl_sending p = (True, msg) # rest
     \<Longrightarrow> pipe_step p (p\<lparr>pl_enc := pl_enc p\<lparr>enc_produced := enc_produced (pl_enc p) + 1\<rparr>,
                      pl_sending := (False, msg) # rest\<rparr>)"
| reader_sends:
    "pl_sending p = (False, msg) # rest
     \<Longrightarrow> pipe_step p (p\<lparr>pl_enc := pl_enc p\<lparr>enc_rx := enc_rx (pl_enc p) @ [msg]\<rparr>, pl_sending := rest\<rparr>)"
| reader_returns:
    "pl_sending p = [] \<Longrightarrow> pl_returning p
     \<Longrightarrow> pipe_step p (p\<lparr>pl_enc := pl_enc p\<lparr>enc_reader_gone := True\<rparr>\<rparr>)"
| stderr_reads:
    "drain_stderr [r] (pl_drain p) = (d, ended)
     \<Longrightarrow> pipe_step p (p\<lparr>pl_enc := pl_enc p\<lparr>enc_stderr_tail := dr_tail d\<rparr>, pl_line := dr_line d, pl_truncated := dr_truncated d\<rparr>)"
| calls_encode:
    "encode v elapsed (pl_enc p) rgba = (r, enc)
     \<Longrightarrow> pipe_step p (p\<lparr>pl_enc := enc,
                      pl_accepted := pl_accepted p @ (if enc_queue enc = enc_queue (pl_enc p) then [] else [rgba])\<rparr>)"
| calls_next:
    "next_access_unit_result w (pl_enc p) = (r, enc)
     \<Longrightarrow> pipe_step p (p\<lparr>pl_enc := enc,
                      pl_delivered := pl_delivered p @ (case r of Inr (Some au) \<Rightarrow> [au] | _ \<Rightarrow> [])\<rparr>)"
| calls_request:
    "pipe_step p (p\<lparr>pl_enc := request_keyframe (pl_enc p)\<rparr>)"

abbreviation pipe_run :: "Pipeline \<Rightarrow> Pipeline \<Rightarrow> bool" where
  "pipe_run \<equiv> pipe_step\<^sup>*\<^sup>*"

text \<open>
  What the output means: the access units of the reads so far, and of messages under way.
\<close>

fun msg_units :: "ReaderMessage list \<Rightarrow> AccessUnit list" where
  "msg_units [] = []"
| "msg_units (Unit au sets # ms) = au # msg_units ms"
| "msg_units (End r # ms) = msg_units ms"

fun read_units :: "AnnexBParser \<Rightarrow> ReadResult list \<Rightarrow> AccessUnit list" where
  "read_units parser [] = []"
| "read_units parser (r # rs) =
     (case reader_read r parser of
        (msgs, ret, parser) \<Rightarrow> msg_units (map snd msgs) @ (if ret then [] else read_units parser rs))"

section \<open>The tail keeps the most recent lines\<close>

definition line_bytes :: "string list \<Rightarrow> nat" where
  "line_bytes ls = sum_list (map (\<lambda>l. length l + 1) ls)"

definition tail_fits :: "string list \<Rightarrow> bool" where
  "tail_fits ls \<longleftrightarrow> length ls \<le> STDERR_TAIL_LINES \<and> line_bytes ls \<le> STDERR_TAIL_BYTES"

text \<open>The longest suffix that fits.\<close>

fun recent :: "string list \<Rightarrow> string list" where
  "recent [] = []"
| "recent (l # ls) = (if tail_fits (l # ls) then l # ls else recent ls)"

lemma line_bytes_simps [simp]:
  "line_bytes [] = 0" "line_bytes (l # ls) = length l + 1 + line_bytes ls"
  "line_bytes (ls @ ks) = line_bytes ls + line_bytes ks"
  by (simp_all add: line_bytes_def)

lemma recent_fits: "tail_fits (recent ls)"
  by (induction ls) (simp_all add: tail_fits_def)

lemma pop_lines_recent: "pop_lines ls (line_bytes ls) = (recent ls, line_bytes (recent ls))"
  by (induction ls) (auto simp: tail_fits_def)

lemma recent_append: "recent (recent ls @ [x]) = recent (ls @ [x])"
proof (induction ls)
  case (Cons l ls)
  have "\<not> tail_fits (l # ls) \<Longrightarrow> \<not> tail_fits (l # ls @ [x])" by (auto simp: tail_fits_def)
  then show ?case using Cons by auto
qed simp

lemma recent_last: "tail_fits [x] \<Longrightarrow> recent (ls @ [x]) \<noteq> [] \<and> last (recent (ls @ [x])) = x"
  by (induction ls) auto

lemma floor_boundary_le: "floor_boundary line e \<le> e"
  by (induction e) auto

lemma length_cut_line: "length (cut_line line) \<le> STDERR_MAX_LINE_BYTES + 3"
  using floor_boundary_le [of line STDERR_MAX_LINE_BYTES] by (simp add: cut_line_def min_def)

lemma cut_line_fits: "tail_fits [cut_line line]"
  using length_cut_line [of line] by (simp add: tail_fits_def stderr_consts)

definition tail_of :: "string list \<Rightarrow> StderrTail" where
  "tail_of ls = \<lparr>st_lines = recent ls, st_bytes = line_bytes (recent ls)\<rparr>"

lemma push_line_tail_of: "push_line (tail_of ls) line = tail_of (ls @ [cut_line line])"
proof -
  have "pop_lines (recent ls @ [cut_line line]) (line_bytes (recent ls @ [cut_line line]))
      = (recent (ls @ [cut_line line]), line_bytes (recent (ls @ [cut_line line])))"
    by (simp only: pop_lines_recent recent_append)
  then show ?thesis by (simp add: push_line_def tail_of_def Let_def)
qed

text \<open>What one complete line of diagnostics is kept as.\<close>

definition kept_line :: "bytes \<Rightarrow> string" where
  "kept_line l = cut_line (let text = from_utf8_lossy l
                           in if text \<noteq> [] \<and> last text = CHR 0x0D then butlast text else text)"

lemma drain_line_bytes:
  "0x0A \<notin> set l \<Longrightarrow> length (dr_line d) + length l \<le> STDERR_MAX_LINE_BYTES
   \<Longrightarrow> foldl drain_byte d l = d\<lparr>dr_line := dr_line d @ l\<rparr>"
  by (induction l arbitrary: d) (auto simp: drain_byte_def)

lemma drain_lines:
  assumes "\<forall>l \<in> set ls. 0x0A \<notin> set l \<and> length l \<le> STDERR_MAX_LINE_BYTES"
  shows "foldl drain_byte \<lparr>dr_line = [], dr_truncated = False, dr_tail = tail_of ks\<rparr> (concat (map (\<lambda>l. l @ [0x0A]) ls))
         = \<lparr>dr_line = [], dr_truncated = False, dr_tail = tail_of (ks @ map kept_line ls)\<rparr>"
  using assms
proof (induction ls arbitrary: ks)
  case (Cons l ls)
  have "foldl drain_byte \<lparr>dr_line = [], dr_truncated = False, dr_tail = tail_of ks\<rparr> (l @ [0x0A])
      = \<lparr>dr_line = [], dr_truncated = False, dr_tail = tail_of (ks @ [kept_line l])\<rparr>"
    using Cons.prems
    by (simp add: drain_line_bytes) (simp add: drain_byte_def push_stderr_line_def kept_line_def Let_def push_line_tail_of)
  then show ?case using Cons by simp
qed simp

lemma drain_chunks: "drain_stderr (map Read_data cs) d = (foldl drain_byte d (concat cs), False)"
  by (induction cs arbitrary: d) simp_all

definition drain_start :: Drain where
  "drain_start = \<lparr>dr_line = [], dr_truncated = False, dr_tail = StderrTail_default\<rparr>"

lemma drain_start_tail: "drain_start = \<lparr>dr_line = [], dr_truncated = False, dr_tail = tail_of []\<rparr>"
  by (simp add: drain_start_def StderrTail_default_def tail_of_def)

text \<open>
  The tail of the diagnostics: however the child's output is cut into reads, after complete lines of
  at most 4096 bytes the tail holds the longest run of most recent lines that fits 32 lines and 16 KiB,
  and the newest line is always in it.
\<close>

theorem stderr_tail_recent:
  assumes "concat cs = concat (map (\<lambda>l. l @ [0x0A]) (ls @ [newest]))"
    and "\<forall>l \<in> set (ls @ [newest]). 0x0A \<notin> set l \<and> length l \<le> STDERR_MAX_LINE_BYTES"
  shows "let kept = st_lines (dr_tail (fst (drain_stderr (map Read_data cs) drain_start)))
         in kept = recent (map kept_line (ls @ [newest]))
            \<and> length kept \<le> STDERR_TAIL_LINES \<and> line_bytes kept \<le> STDERR_TAIL_BYTES
            \<and> last kept = kept_line newest"
proof -
  have "dr_tail (fst (drain_stderr (map Read_data cs) drain_start)) = tail_of (map kept_line (ls @ [newest]))"
    using drain_lines [OF assms(2), of "[]"] by (simp add: drain_chunks assms(1) drain_start_tail)
  moreover have "last (recent (map kept_line ls @ [kept_line newest])) = kept_line newest"
    using recent_last [OF cut_line_fits] by (simp add: kept_line_def)
  ultimately show ?thesis
    using recent_fits [of "map kept_line (ls @ [newest])"] by (simp add: tail_of_def tail_fits_def)
qed

theorem stderr_tail_recent_witness:
  "st_lines (dr_tail (fst (drain_stderr (map Read_data [[0x61], [0x62, 0x0D, 0x0A, 0x63], [0x0A]]) drain_start))) = [''ab'', ''c'']"
proof -
  have "st_lines (dr_tail (fst (drain_stderr (map Read_data [[0x61], [0x62, 0x0D, 0x0A, 0x63], [0x0A]]) drain_start)))
      = recent (map kept_line ([[0x61, 0x62, 0x0D]] @ [[0x63]]))"
    using stderr_tail_recent [of "[[0x61], [0x62, 0x0D, 0x0A, 0x63], [0x0A]]" "[[0x61, 0x62, 0x0D]]" "[0x63]"]
    by (simp add: STDERR_MAX_LINE_BYTES_def Let_def)
  also have "\<dots> = [''ab'', ''c'']" by code_simp
  finally show ?thesis .
qed

section \<open>Order and counts along the pipeline\<close>

lemma msg_units_append [simp]: "msg_units (a @ b) = msg_units a @ msg_units b"
  by (induction a rule: msg_units.induct) simp_all

text \<open>The parser after the reads so far, \<open>None\<close> once the reader thread is to return.\<close>

fun read_state :: "AnnexBParser \<Rightarrow> ReadResult list \<Rightarrow> AnnexBParser option" where
  "read_state parser [] = Some parser"
| "read_state parser (r # rs) =
     (case reader_read r parser of (msgs, ret, parser) \<Rightarrow> if ret then None else read_state parser rs)"

lemma read_snoc:
  assumes "read_state p rs = Some q" and "reader_read r q = (msgs, ret, q')"
  shows "read_units p (rs @ [r]) = read_units p rs @ msg_units (map snd msgs)"
    and "read_state p (rs @ [r]) = (if ret then None else Some q')"
  using assms by (induction p rs rule: read_state.induct) (auto split: prod.splits if_splits)

text \<open>Only access units are counted.\<close>

lemma reader_read_counted:
  "reader_read r parser = (msgs, ret, q) \<Longrightarrow> \<forall>m \<in> set msgs. fst m \<longrightarrow> (\<exists>au sets. snd m = Unit au sets)"
  by (cases r) (auto split: prod.splits sum.splits)

definition head_sent :: "Pipeline \<Rightarrow> nat" where
  "head_sent p = (case pl_sending p of (False, Unit _ _) # _ \<Rightarrow> 1 | _ \<Rightarrow> 0)"

definition frame_in_hand :: "Pipeline \<Rightarrow> bytes list" where
  "frame_in_hand p = (case pl_frame p of None \<Rightarrow> [] | Some f \<Rightarrow> [f])"

definition input_inv :: "Pipeline \<Rightarrow> bool" where
  "input_inv p \<longleftrightarrow>
     length (enc_queue (pl_enc p)) \<le> STDIN_QUEUE_CAPACITY
     \<and> (enc_writer_gone (pl_enc p) \<longrightarrow> pl_frame p = None \<and> enc_queue (pl_enc p) = [])
     \<and> prefix (pl_written p) (pl_accepted p)
     \<and> (\<not> enc_writer_gone (pl_enc p) \<longrightarrow> pl_accepted p = pl_written p @ frame_in_hand p @ enc_queue (pl_enc p))
     \<and> enc_frames_in (pl_enc p) = of_nat (length (pl_accepted p))"

definition output_inv :: "AnnexBParser \<Rightarrow> Pipeline \<Rightarrow> bool" where
  "output_inv start p \<longleftrightarrow>
     pl_delivered p @ msg_units (enc_rx (pl_enc p)) @ msg_units (map snd (pl_sending p)) = read_units start (pl_reads p)
     \<and> read_state start (pl_reads p) = (if pl_returning p then None else Some (pl_parser p))
     \<and> enc_frames_out (pl_enc p) = of_nat (length (pl_delivered p))
     \<and> list_all (\<lambda>m. fst m \<longrightarrow> (\<exists>au sets. snd m = Unit au sets)) (pl_sending p)
     \<and> (\<exists>n. enc_produced (pl_enc p) = of_nat n
           \<and> n \<le> length (pl_delivered p) + length (msg_units (enc_rx (pl_enc p))) + head_sent p)"

lemmas pipe_inv_defs = input_inv_def output_inv_def head_sent_def frame_in_hand_def

text \<open>What the caller's operations leave alone.\<close>

lemma writer_failure_keeps [simp]:
  "enc_queue (snd (writer_failure v self)) = enc_queue self"
  "enc_writer_gone (snd (writer_failure v self)) = enc_writer_gone self"
  "enc_frames_in (snd (writer_failure v self)) = enc_frames_in self"
  "enc_rx (snd (writer_failure v self)) = enc_rx self"
  "enc_reader_gone (snd (writer_failure v self)) = enc_reader_gone self"
  "enc_produced (snd (writer_failure v self)) = enc_produced self"
  "enc_frames_out (snd (writer_failure v self)) = enc_frames_out self"
  "enc_frames_dropped (snd (writer_failure v self)) = enc_frames_dropped self"
  "enc_stdin (snd (writer_failure v self)) = enc_stdin self"
  "enc_config (snd (writer_failure v self)) = enc_config self"
  "enc_finished (snd (writer_failure v self)) = enc_finished self"
  by (simp_all add: writer_failure_def take_writer_error_def take_writer_error_opt_def join_stderr_bounded_def Let_def
      split: option.split)

lemma encode_keeps_output:
  assumes "encode v elapsed self rgba = (r, s)"
  shows "enc_rx s = enc_rx self \<and> enc_reader_gone s = enc_reader_gone self \<and> enc_produced s = enc_produced self
         \<and> enc_frames_out s = enc_frames_out self \<and> enc_writer_gone s = enc_writer_gone self"
  using assms
  by (auto simp: encode_def Let_def try_queue_frame_def case_prod_beta split: if_splits)

text \<open>Either the frame is queued and counted, or the queue and the count stay.\<close>

lemma encode_queue:
  assumes "encode v elapsed self rgba = (r, s)"
  shows "(\<not> enc_writer_gone self \<and> length (enc_queue self) < STDIN_QUEUE_CAPACITY
          \<and> enc_queue s = enc_queue self @ [rgba] \<and> enc_frames_in s = enc_frames_in self + 1)
         \<or> (enc_queue s = enc_queue self \<and> enc_frames_in s = enc_frames_in self)"
  using assms
  by (auto simp: encode_def Let_def try_queue_frame_def not_le case_prod_beta split: if_splits)

lemma next_keeps_input:
  assumes "next_access_unit_result w self = (r, s)"
  shows "enc_queue s = enc_queue self \<and> enc_writer_gone s = enc_writer_gone self \<and> enc_frames_in s = enc_frames_in self
         \<and> enc_produced s = enc_produced self"
  using assms
  by (auto simp: next_access_unit_result_def take_message_def stop_reading_def output_ended_def Let_def
      split: list.splits ReaderMessage.splits sum.splits if_splits)

lemma next_output:
  assumes "next_access_unit_result w self = (r, s)"
  shows "(\<exists>au sets. r = Ok (Some au) \<and> enc_rx self = Unit au sets # enc_rx s
              \<and> enc_frames_out s = enc_frames_out self + 1)
         \<or> (\<forall>au. r \<noteq> Ok (Some au)) \<and> msg_units (enc_rx s) = msg_units (enc_rx self)
           \<and> enc_frames_out s = enc_frames_out self"
  using assms
  by (auto simp: next_access_unit_result_def take_message_def stop_reading_def output_ended_def Let_def
      split: list.splits ReaderMessage.splits sum.splits if_splits)

lemma input_inv_step: "pipe_step p q \<Longrightarrow> input_inv p \<Longrightarrow> input_inv q"
proof (induction rule: pipe_step.induct)
  case (calls_encode v elapsed p rgba r enc)
  from calls_encode.prems encode_queue [OF calls_encode.hyps] encode_keeps_output [OF calls_encode.hyps]
  show ?case by (auto simp: input_inv_def frame_in_hand_def STDIN_QUEUE_CAPACITY_def)
next
  case (calls_next w p r enc)
  then show ?case using next_keeps_input [OF calls_next.hyps] by (simp add: input_inv_def frame_in_hand_def)
qed (auto simp: input_inv_def frame_in_hand_def request_keyframe_def prefix_def split: option.splits)

lemma output_inv_step: "pipe_step p q \<Longrightarrow> output_inv start p \<Longrightarrow> output_inv start q"
proof (induction rule: pipe_step.induct)
  case (reader_reads p r msgs ret parser)
  then have "read_state start (pl_reads p) = Some (pl_parser p)" by (simp add: output_inv_def)
  from read_snoc [OF this reader_reads.hyps(4)] reader_reads reader_read_counted [OF reader_reads.hyps(4)]
  show ?case by (auto simp: output_inv_def head_sent_def list_all_iff)
next
  case (reader_counts p msg rest)
  then obtain au sets where "msg = Unit au sets" by (auto simp: output_inv_def)
  moreover obtain n where "enc_produced (pl_enc p) = of_nat n"
    "n \<le> length (pl_delivered p) + length (msg_units (enc_rx (pl_enc p)))"
    using reader_counts by (auto simp: output_inv_def head_sent_def)
  ultimately show ?case using reader_counts
    by (auto simp: output_inv_def head_sent_def intro!: exI [of _ "Suc n"])
next
  case (reader_sends p msg rest)
  then show ?case by (cases msg) (auto simp: output_inv_def head_sent_def)
next
  case (calls_encode v elapsed p rgba r enc)
  then show ?case using encode_keeps_output [OF calls_encode.hyps] by (simp add: output_inv_def head_sent_def)
next
  case (calls_next w p r enc)
  from next_output [OF calls_next.hyps] next_keeps_input [OF calls_next.hyps] calls_next.prems
  show ?case by (auto simp: output_inv_def head_sent_def split: sum.splits option.splits)
qed (auto simp: output_inv_def head_sent_def request_keyframe_def)

interpretation pipe_input: invariant_relation pipe_step input_inv
  by unfold_locales (rule input_inv_step)

interpretation pipe_output: invariant_relation pipe_step "output_inv start" for start
  by unfold_locales (rule output_inv_step)

lemma pipe_run_inv:
  assumes "pipe_run (pipeline_start (Encoder_new config cand)) p"
  shows "input_inv p" and "output_inv (AnnexBParser_new (cand_codec cand)) p"
  by (rule pipe_input.reach_inv [OF assms], simp add: pipe_inv_defs pipeline_start_def Encoder_new_def)
    (rule pipe_output.reach_inv [OF assms], simp add: pipe_inv_defs pipeline_start_def Encoder_new_def)

text \<open>Reading chunk by chunk is one push of the joined data.\<close>

lemma push_new_Nil: "AnnexBParser_push (AnnexBParser_new codec) [] = (Ok [], AnnexBParser_new codec)"
proof -
  have "take_next_nal codec False [] = (Ok None, [])" by (cases codec; code_simp)
  then show ?thesis by (simp add: AnnexBParser_push_def AnnexBParser_new_def push_loop.simps)
qed

lemma read_state_Read_data:
  "read_state p (rs @ [Read_data c]) = Some q
   \<Longrightarrow> \<exists>p' units. read_state p rs = Some p' \<and> AnnexBParser_push p' c = (Ok units, q)
         \<and> read_units p (rs @ [Read_data c]) = read_units p rs @ units"
proof (induction p rs rule: read_state.induct)
  case (1 parser)
  have "msg_units (map (snd \<circ> (\<lambda>au. (True, Unit au x))) us) = us" for us x by (induction us) auto
  with 1 show ?case by (auto split: prod.splits sum.splits if_splits)
qed (auto split: prod.splits if_splits)

lemma reads_joined:
  assumes "read_state (AnnexBParser_new codec) (map Read_data cs) = Some q" and "length (concat cs) \<le> 8 * 1024 * 1024"
  shows "AnnexBParser_push (AnnexBParser_new codec) (concat cs)
         = (Ok (read_units (AnnexBParser_new codec) (map Read_data cs)), q)"
  using assms
proof (induction cs arbitrary: q rule: rev_induct)
  case (snoc c cs)
  let ?new = "AnnexBParser_new codec"
  from snoc.prems(1) obtain p' units where p': "read_state ?new (map Read_data cs) = Some p'"
    and push: "AnnexBParser_push p' c = (Ok units, q)"
    and units: "read_units ?new (map Read_data cs @ [Read_data c]) = read_units ?new (map Read_data cs) @ units"
    by (auto dest!: read_state_Read_data)
  have "AnnexBParser_push ?new (concat cs) = (Ok (read_units ?new (map Read_data cs)), p')"
    using snoc p' by simp
  from push_chunks [OF this, of c] snoc.prems(2) push units
  show ?case by (simp add: then_push_def AnnexBParser_new_def)
qed (simp add: push_new_Nil)

section \<open>Properties of the pipeline\<close>

text \<open>
  C33 The input side, in every interleaving of the threads and the caller: at most one frame waits in
  the queue, the frames written to the child are the accepted ones in their order with none left out
  or repeated, at most two accepted frames are unwritten while the writer lives, and \<^verbatim>\<open>frames_in\<close> counts the accepted ones.
\<close>

theorem pipeline_input:
  assumes "pipe_run (pipeline_start (Encoder_new config cand)) p"
  shows "length (enc_queue (pl_enc p)) \<le> STDIN_QUEUE_CAPACITY
         \<and> prefix (pl_written p) (pl_accepted p)
         \<and> (enc_writer_gone (pl_enc p) \<or> length (pl_accepted p) \<le> length (pl_written p) + 2)
         \<and> enc_frames_in (pl_enc p) = of_nat (length (pl_accepted p))"
  using pipe_run_inv(1) [OF assms]
  by (auto simp: input_inv_def frame_in_hand_def STDIN_QUEUE_CAPACITY_def split: option.splits)

text \<open>
  C32 The output side, in every interleaving: while the reader thread has only read data, the access
  units handed out, waiting in the channel and about to be sent are, in this order, exactly those of
  parsing all the child's output at once (up to the parser's 8 MiB ceiling), and \<^verbatim>\<open>frames_out\<close> counts the ones
  handed out.
\<close>

theorem pipeline_output:
  assumes "pipe_run (pipeline_start (Encoder_new config cand)) p"
    and "pl_reads p = map Read_data cs" and "length (concat cs) \<le> 8 * 1024 * 1024" and "\<not> pl_returning p"
  shows "AnnexBParser_push (AnnexBParser_new (cand_codec cand)) (concat cs)
           = (Ok (pl_delivered p @ msg_units (enc_rx (pl_enc p)) @ msg_units (map snd (pl_sending p))), pl_parser p)
         \<and> enc_frames_out (pl_enc p) = of_nat (length (pl_delivered p))"
  using pipe_run_inv(2) [OF assms(1)] reads_joined [OF _ assms(3)] assms(2,4)
  by (simp add: output_inv_def)

text \<open>
  When \<^verbatim>\<open>encode\<close> reports \<^verbatim>\<open>Encoded\<close>, an access unit is in the channel, or the reader thread has counted one
  and is about to send it (as long as fewer than \<open>2 ^ 64\<close> units were produced).
\<close>

theorem encoded_means_ready:
  assumes "pipe_run (pipeline_start (Encoder_new config cand)) p"
    and "encode v elapsed (pl_enc p) rgba = (Ok Encoded, enc)"
    and "length (read_units (AnnexBParser_new (cand_codec cand)) (pl_reads p)) < 2 ^ 64"
  shows "msg_units (enc_rx enc) \<noteq> [] \<or> (\<exists>au sets rest. pl_sending p = (False, Unit au sets) # rest)"
proof -
  let ?d = "length (pl_delivered p)"
  obtain n where n: "enc_produced (pl_enc p) = of_nat n" "n \<le> ?d + length (msg_units (enc_rx (pl_enc p))) + head_sent p"
    and out: "enc_frames_out (pl_enc p) = of_nat ?d"
    and units: "pl_delivered p @ msg_units (enc_rx (pl_enc p)) @ msg_units (map snd (pl_sending p))
                = read_units (AnnexBParser_new (cand_codec cand)) (pl_reads p)"
    using pipe_run_inv(2) [OF assms(1)] by (auto simp: output_inv_def)
  have "?d < 2 ^ 64" using assms(3) by (simp add: units [symmetric])
  moreover have "(of_nat ?d :: u64) < of_nat n"
    using assms(2) n(1) out
    by (auto simp: encode_def Let_def try_queue_frame_def case_prod_beta split: if_splits)
  then have "?d mod 2 ^ 64 < n mod 2 ^ 64" by (simp add: word_less_nat_alt unat_of_nat)
  ultimately have "?d < n" using mod_less_eq_dividend [of n "2 ^ 64"] by (simp add: less_le_trans)
  then have "msg_units (enc_rx (pl_enc p)) \<noteq> [] \<or> head_sent p \<noteq> 0" using n(2) by auto
  then show ?thesis
    using encode_keeps_output [OF assms(2)]
    by (auto simp: head_sent_def split: list.splits prod.splits bool.splits ReaderMessage.splits)
qed

text \<open>A small configuration and two runs of its pipeline, for the witnesses.\<close>

definition sample_config :: EncoderConfig where
  "sample_config = \<lparr>ec_choice = Software, ec_codec = H264, ec_bitrate = 1000000, ec_gop = 60, ec_fps = 30,
                    ec_width = 2, ec_height = 2\<rparr>"

definition sample_candidate :: Candidate where
  "sample_candidate = Candidate_new ''libx264'' H264 True"

definition sample_child :: ChildView where
  "sample_child = \<lparr>cv_wait = Ok None, cv_join = \<lparr>jv_finished = \<lambda>_. True, jv_delay = \<lambda>_. 0, jv_tail = StderrTail_default\<rparr>\<rparr>"

definition sample_frame :: bytes where
  "sample_frame = replicate 16 7"

definition sample_unit :: AccessUnit where
  "sample_unit = \<lparr>au_codec = H264, au_nals = [\<lparr>nu_nal_type = 5, nu_header = (101, 136), nu_annexb = [0, 0, 1, 101, 136]\<rparr>],
                  au_annexb = [0, 0, 1, 101, 136], au_keyframe = True, au_index = 0\<rparr>"

lemmas sample_enc_defs = sample_config_def sample_candidate_def Candidate_new_def sample_child_def sample_frame_def

abbreviation sample_pipeline :: Pipeline where
  "sample_pipeline \<equiv> pipeline_start (Encoder_new sample_config sample_candidate)"

lemma sample_expected: "expected_len sample_config = length sample_frame"
  by (simp add: expected_len_def sat_mul_def sample_enc_defs u64_max_def)

lemma sample_encode:
  assumes "enc_config self = sample_config" and "\<not> enc_finished self" and "enc_writer_error self = None"
    and "enc_stdin self" and "\<not> enc_writer_gone self" and "enc_queue self = []"
  shows "encode sample_child 0 self sample_frame
         = (Ok (if enc_frames_out self < enc_produced self then Encoded else Pending),
            self\<lparr>enc_queue := [sample_frame], enc_frames_in := enc_frames_in self + 1, enc_last_encode := Some 0\<rparr>)"
  using assms by (simp add: encode_def sample_expected writer_has_failed_def try_queue_frame_def STDIN_QUEUE_CAPACITY_def Let_def)

lemma sample_written: "\<exists>p. pipe_run sample_pipeline p \<and> pl_written p = [sample_frame]"
proof -
  let ?e = "Encoder_new sample_config sample_candidate"
  let ?e1 = "?e\<lparr>enc_queue := [sample_frame], enc_frames_in := 1, enc_last_encode := Some 0\<rparr>"
  let ?p1 = "sample_pipeline\<lparr>pl_enc := ?e1, pl_accepted := [sample_frame]\<rparr>"
  let ?p2 = "?p1\<lparr>pl_enc := ?e1\<lparr>enc_queue := []\<rparr>, pl_frame := Some sample_frame\<rparr>"
  have "encode sample_child 0 ?e sample_frame = (Ok Pending, ?e1)"
    by (subst sample_encode) (simp_all add: Encoder_new_def)
  then have "pipe_step sample_pipeline ?p1"
    using pipe_step.calls_encode [of sample_child 0 sample_pipeline sample_frame "Ok Pending" ?e1]
    by (simp add: pipeline_start_def Encoder_new_def)
  moreover have "pipe_step ?p1 ?p2"
    using pipe_step.writer_recv [of ?p1 sample_frame "[]"] by (simp add: pipeline_start_def Encoder_new_def)
  moreover have "pipe_step ?p2 (?p2\<lparr>pl_frame := None, pl_written := [sample_frame]\<rparr>)"
    using pipe_step.writer_wrote [of ?p2 sample_frame] by (simp add: pipeline_start_def)
  ultimately show ?thesis
    by (intro exI [of _ "?p2\<lparr>pl_frame := None, pl_written := [sample_frame]\<rparr>"])
      (simp add: converse_rtranclp_into_rtranclp)
qed

theorem pipeline_input_witness:
  "\<exists>p. pipe_run sample_pipeline p \<and> pl_written p = [sample_frame] \<and> prefix [sample_frame] (pl_accepted p)"
  using sample_written pipeline_input by metis

abbreviation sample_chunk :: bytes where
  "sample_chunk \<equiv> [0, 0, 1, 101, 136, 0, 0, 1, 101, 136, 0, 0, 1]"

definition sample_parser :: AnnexBParser where
  "sample_parser = snd (AnnexBParser_push (AnnexBParser_new H264) sample_chunk)"

lemma sample_read:
  "reader_read (Read_data sample_chunk) (AnnexBParser_new H264) = ([(True, Unit sample_unit [])], False, sample_parser)"
proof -
  have "push_loop \<lparr>ap_codec = H264, ap_buffer = sample_chunk, ap_parameter_sets = [], ap_pending_sets = [],
      ap_collecting_sets = False, ap_current = [], ap_current_has_vcl = False, ap_index = 0, ap_max_buffer = m\<rparr>
    = (Ok [sample_unit],
       \<lparr>ap_codec = H264, ap_buffer = [0, 0, 1], ap_parameter_sets = [], ap_pending_sets = [], ap_collecting_sets = False,
        ap_current = au_nals sample_unit, ap_current_has_vcl = True, ap_index = 1, ap_max_buffer = m\<rparr>)" for m
    by code_simp
  then show ?thesis by (simp add: sample_parser_def AnnexBParser_push_def AnnexBParser_new_def)
qed

lemma sample_counted:
  "\<exists>p. pipe_run sample_pipeline p \<and> pl_reads p = [Read_data sample_chunk] \<and> \<not> pl_returning p
     \<and> pl_sending p = [(False, Unit sample_unit [])]
     \<and> pl_enc p = (Encoder_new sample_config sample_candidate)\<lparr>enc_produced := 1\<rparr>"
proof -
  let ?p1 = "sample_pipeline\<lparr>pl_parser := sample_parser, pl_sending := [(True, Unit sample_unit [])],
                             pl_reads := [Read_data sample_chunk]\<rparr>"
  let ?p2 = "?p1\<lparr>pl_enc := pl_enc ?p1\<lparr>enc_produced := 1\<rparr>, pl_sending := [(False, Unit sample_unit [])]\<rparr>"
  have "pl_parser sample_pipeline = AnnexBParser_new H264"
    by (simp add: pipeline_start_def Encoder_new_def sample_enc_defs)
  then have "pipe_step sample_pipeline ?p1"
    using pipe_step.reader_reads [of sample_pipeline, OF _ _ _ sample_read [folded \<open>pl_parser sample_pipeline = _\<close>]]
    by (simp add: pipeline_start_def Encoder_new_def)
  moreover have "pipe_step ?p1 ?p2"
    using pipe_step.reader_counts [of ?p1 "Unit sample_unit []" "[]"] by (simp add: pipeline_start_def Encoder_new_def)
  ultimately have "pipe_run sample_pipeline ?p2" by (simp add: converse_rtranclp_into_rtranclp)
  then show ?thesis by (intro exI [of _ ?p2]) (simp add: pipeline_start_def)
qed

theorem pipeline_output_witness:
  "\<exists>p. pipe_run sample_pipeline p \<and> AnnexBParser_push (AnnexBParser_new H264) sample_chunk
         = (Ok (pl_delivered p @ msg_units (enc_rx (pl_enc p)) @ [sample_unit]), pl_parser p)"
proof -
  obtain p where p: "pipe_run sample_pipeline p" "pl_reads p = map Read_data [sample_chunk]" "\<not> pl_returning p"
    "pl_sending p = [(False, Unit sample_unit [])]"
    using sample_counted by auto
  have "length (concat [sample_chunk]) \<le> 8 * 1024 * 1024" by simp
  from pipeline_output [OF p(1,2) this p(3)] p(1,4) show ?thesis
    by (auto simp: sample_candidate_def Candidate_new_def)
qed

theorem encoded_means_ready_witness:
  "\<exists>p enc. pipe_run sample_pipeline p \<and> encode sample_child 0 (pl_enc p) sample_frame = (Ok Encoded, enc)
     \<and> (msg_units (enc_rx enc) \<noteq> [] \<or> (\<exists>au sets rest. pl_sending p = (False, Unit au sets) # rest))"
proof -
  obtain p where p: "pipe_run sample_pipeline p" "pl_reads p = [Read_data sample_chunk]"
    "pl_enc p = (Encoder_new sample_config sample_candidate)\<lparr>enc_produced := 1\<rparr>"
    using sample_counted by auto
  obtain enc where enc: "encode sample_child 0 (pl_enc p) sample_frame = (Ok Encoded, enc)"
    using p(3) by (simp add: sample_encode Encoder_new_def)
  have "length (read_units (AnnexBParser_new (cand_codec sample_candidate)) (pl_reads p)) < 2 ^ 64"
    using sample_read by (simp add: p(2) sample_candidate_def Candidate_new_def)
  from encoded_means_ready [OF p(1) enc this] p(1) enc show ?thesis by blast
qed

section \<open>Selection and shutdown\<close>

text \<open>The first candidate whose child is still running, with the reasons of those before it.\<close>

definition refusal :: "SpawnView \<Rightarrow> EncoderConfig \<Rightarrow> Candidate \<Rightarrow> string option" where
  "refusal v config c = (case spawn v config c of Inl why \<Rightarrow> Some why | Inr _ \<Rightarrow> None)"

lemma spawn_Ok: "spawn v config c = Ok enc \<Longrightarrow> enc = (Encoder_new config c)\<lparr>enc_stderr_tail := sv_tail v\<rparr>"
  by (auto simp: spawn_def Let_def split: if_splits option.splits sum.splits)

lemma try_candidates_find:
  "try_candidates views config cs attempts =
     (case find (\<lambda>c. refusal (views c) config c = None) cs of
        Some c \<Rightarrow> Ok ((Encoder_new config c)\<lparr>enc_stderr_tail := sv_tail (views c)\<rparr>)
      | None \<Rightarrow> Err (NoEncoder (ec_choice config)
                       (attempts @ map (\<lambda>c. (cand_name c, the (refusal (views c) config c))) cs)))"
  by (induction cs arbitrary: attempts) (auto simp: refusal_def spawn_Ok split: sum.splits option.splits)

text \<open>
  Choosing an encoder: an invalid configuration starts nothing; otherwise the first candidate that is
  not refused is the one that runs, and when all are refused the error names every candidate of the
  choice in order, each with its own reason.
\<close>

theorem start_selects_first:
  "Encoder_start views config =
     (case validate config of
        Inl e \<Rightarrow> Err e
      | Inr _ \<Rightarrow>
         (let cs = candidates (ec_choice config) (ec_codec config) in
          case find (\<lambda>c. refusal (views c) config c = None) cs of
            Some c \<Rightarrow> Ok ((Encoder_new config c)\<lparr>enc_stderr_tail := sv_tail (views c)\<rparr>)
          | None \<Rightarrow> Err (NoEncoder (ec_choice config) (map (\<lambda>c. (cand_name c, the (refusal (views c) config c))) cs))))"
  by (simp add: Encoder_start_def try_candidates_find Let_def split: sum.split option.split)

lemma join_wait_bounded: "join_wait f d deadline now i \<le> i + (deadline - now)"
proof (induction f d deadline now i rule: join_wait.induct)
  case (1 f d deadline now i)
  then show ?case by (subst join_wait.simps, cases "\<not> f i \<and> now < deadline") auto
qed

lemma child_wait_bounded: "child_wait w d deadline now i \<le> i + (deadline - now)"
proof (induction w d deadline now i rule: child_wait.induct)
  case (1 w d deadline now i)
  then show ?case by (subst child_wait.simps) (fastforce split: sum.split option.split)
qed

text \<open>The drain of \<^verbatim>\<open>finish\<close> ends exactly at the first result that is not an access unit.\<close>

definition drain_end :: "RecvResult \<Rightarrow> (string option \<times> bool) option" where
  "drain_end r =
     (case r of
        Received (Unit au sets) \<Rightarrow> None
      | Received (End (Inr _)) \<Rightarrow> Some (None, True)
      | Received (End (Inl why)) \<Rightarrow> Some (Some why, False)
      | RecvTimeout \<Rightarrow> Some (Some ''timed out waiting for encoder output'', False)
      | RecvDisconnected \<Rightarrow> Some (Some ''encoder output reader stopped unexpectedly'', False))"

lemma drain_end_None: "drain_end r = None \<longleftrightarrow> (\<exists>au sets. r = Received (Unit au sets))"
  by (auto simp: drain_end_def split: RecvResult.splits ReaderMessage.splits sum.splits)

lemma finish_drain_step:
  "finish_drain recv i out =
     (case drain_end (recv i) of
        Some (e, ended) \<Rightarrow> Some (out, e, ended)
      | None \<Rightarrow> finish_drain recv (i + 1) (out @ msg_units (case recv i of Received m \<Rightarrow> [m] | _ \<Rightarrow> [])))"
  by (subst finish_drain.simps)
    (auto simp: drain_end_def split: RecvResult.splits ReaderMessage.splits sum.splits)

lemma finish_drain_units:
  assumes "\<forall>j < length us. \<exists>sets. recv (i + j) = Received (Unit (us ! j) sets)"
    and "drain_end (recv (i + length us)) = Some (e, ended)"
  shows "finish_drain recv i out = Some (out @ us, e, ended)"
  using assms
proof (induction us arbitrary: i out)
  case Nil
  then show ?case by (subst finish_drain_step) simp
next
  case (Cons u us)
  from Cons.prems(1) obtain sets where "recv i = Received (Unit u sets)" by fastforce
  moreover from Cons.prems(1) have "\<forall>j < length us. \<exists>sets. recv (i + 1 + j) = Received (Unit (us ! j) sets)"
    by (metis Suc_less_eq add.assoc length_Cons nth_Cons_Suc plus_1_eq_Suc)
  with Cons.prems(2) have "finish_drain recv (i + 1) (out @ [u]) = Some ((out @ [u]) @ us, e, ended)"
    by (intro Cons.IH) simp_all
  ultimately show ?case by (subst finish_drain_step) (simp add: drain_end_def)
qed

lemma finish_drain_Some:
  assumes "finish_drain recv i out = Some r"
  shows "\<exists>j. drain_end (recv j) \<noteq> None"
proof (rule finish_drain.raw_induct [where P = "\<lambda>recv i out r. \<exists>j. drain_end (recv j) \<noteq> None", OF _ assms])
  fix drain recv i out r
  assume IH: "\<And>recv i out r. drain recv i out = Some r \<Longrightarrow> \<exists>j. drain_end (recv j) \<noteq> None"
    and body: "(case recv i of
        Received (Unit au sets) \<Rightarrow> drain recv (i + 1) (out @ [au])
      | Received (End (Inr _)) \<Rightarrow> Some (out, None, True)
      | Received (End (Inl why)) \<Rightarrow> Some (out, Some why, False)
      | RecvTimeout \<Rightarrow> Some (out, Some ''timed out waiting for encoder output'', False)
      | RecvDisconnected \<Rightarrow> Some (out, Some ''encoder output reader stopped unexpectedly'', False)) = Some r"
  show "\<exists>j. drain_end (recv j) \<noteq> None"
  proof (cases "drain_end (recv i)")
    case None
    then obtain au sets where "recv i = Received (Unit au sets)" by (auto simp: drain_end_None)
    with body IH show ?thesis by simp
  qed (metis option.distinct(1))
qed

lemma finish_drain_returns:
  assumes "drain_end (recv n) \<noteq> None" and "i \<le> n"
  shows "finish_drain recv i out \<noteq> None"
  using assms
proof (induction "n - i" arbitrary: i out)
  case 0
  then show ?case by (subst finish_drain_step) auto
next
  case (Suc k)
  then have "finish_drain recv (i + 1) x \<noteq> None" for x by (intro Suc.hyps(1)) simp_all
  then show ?case by (subst finish_drain_step) (auto split: option.split)
qed

text \<open>
  C34 Shutting down ends: \<^verbatim>\<open>finish\<close> fails to return only if the reader thread delivers access units for ever,
  and the waits for the killed child and for the drain thread give up at the latest at the poll numbered 250, counted
  from zero, whatever the child does.
\<close>

theorem shutdown_terminates:
  "(finish v self = None \<longleftrightarrow> (\<forall>i. \<exists>au sets. fv_recv v i = Received (Unit au sets)))
   \<and> fst (stop_child_and_join kv self) \<le> 250 \<and> fst (join_stderr_bounded jv self) \<le> 250"
proof -
  have "finish v self = None \<longleftrightarrow> finish_drain (fv_recv v) 0 [] = None"
    by (simp add: finish_def split: option.split)
  also have "\<dots> \<longleftrightarrow> (\<forall>i. drain_end (fv_recv v i) = None)"
    using finish_drain_Some [of "fv_recv v" 0 "[]"] finish_drain_returns [of "fv_recv v" _ 0 "[]"]
    by (metis le0 not_None_eq)
  finally show ?thesis
    using child_wait_bounded [of "kv_poll kv" "kv_delay kv" TEARDOWN_TIMEOUT 0 0]
      join_wait_bounded [of "jv_finished jv" "jv_delay jv" TEARDOWN_TIMEOUT 0 0]
    by (simp add: drain_end_None stop_child_and_join_def join_stderr_bounded_def TEARDOWN_TIMEOUT_def)
qed

text \<open>
  C35 What \<^verbatim>\<open>finish\<close> returns after a clean end of the output: every access unit the reader still delivers, in
  order, when the child's first known status is a success or no status is known, whatever the stdin
  writer reports; otherwise an error in which they are lost.
\<close>

theorem finish_after_clean_end:
  assumes "\<forall>j < length us. \<exists>sets. fv_recv v j = Received (Unit (us ! j) sets)"
    and "fv_recv v (length us) = Received (End (Ok ()))"
  shows "finish v self =
     (case or_else (exit_status (fv_wait_before v)) (exit_status (fv_wait_after v)) of
        Some status \<Rightarrow>
          if es_success status then Some (Ok us)
          else Some (Err (ChildFailed (cand_name (enc_candidate self))
                 (add_writer_error
                    (with_stderr (self\<lparr>enc_stderr_tail := fv_tail v\<rparr>) (''encoder exited with '' @ es_text status))
                    (or_else (fv_writer_error_before v) (fv_writer_error_after v)))))
      | None \<Rightarrow> Some (Ok us))"
proof -
  have "finish_drain (fv_recv v) 0 [] = Some ([] @ us, None, True)"
    using assms by (intro finish_drain_units) (simp_all add: drain_end_def)
  then show ?thesis
    by (simp add: finish_def stop_child_and_join_def with_stderr_def Let_def split: option.split)
qed

text \<open>A shutdown where the output has ended but the child exits only when it is killed.\<close>

definition sample_late_exit :: FinishView where
  "sample_late_exit =
     \<lparr>fv_recv = (\<lambda>i. if i = 0 then Received (Unit sample_unit []) else Received (End (Ok ()))),
      fv_wait_before = Ok None, fv_writer_error_before = None,
      fv_kill = \<lparr>kv_poll = \<lambda>_. Ok (Some \<lparr>es_success = False, es_text = ''signal: 9 (SIGKILL)''\<rparr>), kv_delay = \<lambda>_. 0\<rparr>,
      fv_wait_after = Ok (Some \<lparr>es_success = False, es_text = ''signal: 9 (SIGKILL)''\<rparr>),
      fv_writer_error_after = None, fv_tail = StderrTail_default\<rparr>"

theorem finish_after_clean_end_witness:
  "finish sample_late_exit (Encoder_new sample_config sample_candidate)
     = Some (Err (ChildFailed ''libx264'' ''encoder exited with signal: 9 (SIGKILL)''))"
  by (subst finish_after_clean_end [of "[sample_unit]"])
    (simp_all add: sample_late_exit_def or_else_def exit_status_def add_writer_error_def with_stderr_def Encoder_new_def
      StderrTail_default_def StderrTail_text_def sample_candidate_def Candidate_new_def)

text \<open>
  The parameter sets that go with an access unit are sampled after the whole chunk: here the delta
  picture \<^verbatim>\<open>41 88\<close>, coded under the sets \<^verbatim>\<open>67 01\<close>, is sent with the sets \<^verbatim>\<open>67 02\<close> of the keyframe behind it.
\<close>

lemma unit_gets_later_sets:
  "\<exists>first delta parser.
     reader_read (Read_data [0, 0, 1, 0x67, 1, 0, 0, 1, 0x65, 0x88, 0, 0, 1, 0x41, 0x88, 0, 0, 1, 0x67, 2, 0, 0, 1, 0x65, 0x88, 0, 0, 1])
       (AnnexBParser_new H264)
     = ([(True, Unit first [0, 0, 1, 0x67, 2]), (True, Unit delta [0, 0, 1, 0x67, 2])], False, parser)
     \<and> au_annexb first = [0, 0, 1, 0x67, 1, 0, 0, 1, 0x65, 0x88] \<and> au_annexb delta = [0, 0, 1, 0x41, 0x88]"
proof -
  let ?r = "\<lambda>m. push_loop \<lparr>ap_codec = H264,
      ap_buffer = [0, 0, 1, 0x67, 1, 0, 0, 1, 0x65, 0x88, 0, 0, 1, 0x41, 0x88, 0, 0, 1, 0x67, 2, 0, 0, 1, 0x65, 0x88, 0, 0, 1],
      ap_parameter_sets = [], ap_pending_sets = [], ap_collecting_sets = False,
      ap_current = [], ap_current_has_vcl = False, ap_index = 0, ap_max_buffer = m\<rparr>"
  have "(case ?r m of (Inr us, s) \<Rightarrow> map au_annexb us = [[0, 0, 1, 0x67, 1, 0, 0, 1, 0x65, 0x88], [0, 0, 1, 0x41, 0x88]]
           \<and> ap_parameter_sets s = [0, 0, 1, 0x67, 2] | _ \<Rightarrow> False)" for m
    by code_simp
  from this [of "8 * 1024 * 1024"] show ?thesis
    by (auto simp: AnnexBParser_push_def AnnexBParser_new_def split: prod.splits sum.splits)
qed

text \<open>The drain thread keeps its bounds on any bytes.\<close>

definition drain_inv :: "Drain \<Rightarrow> bool" where
  "drain_inv d \<longleftrightarrow> length (dr_line d) \<le> STDERR_MAX_LINE_BYTES \<and> tail_fits (st_lines (dr_tail d))
                 \<and> st_bytes (dr_tail d) = line_bytes (st_lines (dr_tail d))"

lemma push_line_inv:
  "st_bytes t = line_bytes (st_lines t)
   \<Longrightarrow> tail_fits (st_lines (push_line t l)) \<and> st_bytes (push_line t l) = line_bytes (st_lines (push_line t l))"
  using pop_lines_recent [of "st_lines t @ [cut_line l]"] recent_fits by (simp add: push_line_def Let_def)

interpretation drain_run: invariant_machine drain_byte drain_inv
  by unfold_locales (auto simp: drain_inv_def drain_byte_def push_stderr_line_def Let_def push_line_inv)

lemma drain_close_inv: "drain_inv d \<Longrightarrow> drain_inv (drain_close d)"
  by (auto simp: drain_close_def drain_inv_def push_stderr_line_def Let_def push_line_inv)

lemma drain_stderr_inv: "drain_inv d \<Longrightarrow> drain_inv (fst (drain_stderr rs d))"
  by (induction rs d rule: drain_stderr.induct)
    (auto split: ReadResult.split intro: drain_run.run_inv drain_close_inv)

end
