(* ===== verification/Crypto.thy ===== *)
theory Crypto
  imports Interfaces
begin

unbundle bit_operations_syntax

text \<open>
  Model of \<^verbatim>\<open>host/crates/emersia-daemon/src/crypto.rs\<close>: device identities, the session key schedule,
  the sealing and opening of one record, pairing codes, and the host identity file.

  The primitives come from third-party crates (x25519-dalek, sha2, hkdf, chacha20poly1305, hex).
  They are the fields of the record \<open>crypto_ext\<close>, an argument of every definition that calls them;
  what the code relies on is stated as predicates on that record (\<open>aead_correct\<close>, \<open>aead_inverse\<close>,
  \<open>dh_commutes\<close>, \<open>hex_ok\<close>, \<open>hkdf_ok\<close>).  The outcome of \<^verbatim>\<open>getrandom::fill\<close> is an argument as well:
  \<open>None\<close> when the random source fails, the bytes it writes otherwise.
\<close>

section \<open>Third-party primitives as parameters\<close>

record crypto_ext =
  x25519_public :: "bytes \<Rightarrow> bytes"
  x25519_dh :: "bytes \<Rightarrow> bytes \<Rightarrow> bytes"
  sha256 :: "bytes \<Rightarrow> bytes"
  hkdf_sha256 :: "bytes \<Rightarrow> bytes \<Rightarrow> bytes \<Rightarrow> nat \<Rightarrow> bytes option"
  aead_encrypt :: "bytes \<Rightarrow> bytes \<Rightarrow> bytes \<Rightarrow> bytes \<Rightarrow> bytes option"
  aead_decrypt :: "bytes \<Rightarrow> bytes \<Rightarrow> bytes \<Rightarrow> bytes \<Rightarrow> bytes option"
  hex_encode :: "bytes \<Rightarrow> string"
  hex_decode :: "string \<Rightarrow> bytes option"

text \<open>Decrypting a ciphertext under the key, nonce and associated data of its encryption.\<close>

definition aead_correct :: "crypto_ext \<Rightarrow> bool" where
  "aead_correct X \<longleftrightarrow>
     (\<forall>k n a m c. aead_encrypt X k n a m = Some c \<longrightarrow> aead_decrypt X k n a c = Some m)"

text \<open>
  The tag check recomputes the tag: what decrypts under a key, nonce and associated data is the
  encryption of the result under the same three.
\<close>

definition aead_inverse :: "crypto_ext \<Rightarrow> bool" where
  "aead_inverse X \<longleftrightarrow>
     (\<forall>k n a m c. aead_decrypt X k n a c = Some m \<longrightarrow> aead_encrypt X k n a m = Some c)"

text \<open>Encryption only refuses messages far longer than a datagram.\<close>

definition aead_total :: "crypto_ext \<Rightarrow> bool" where
  "aead_total X \<longleftrightarrow> (\<forall>k n a m. length m \<le> 2 * u16_max \<longrightarrow> aead_encrypt X k n a m \<noteq> None)"

text \<open>The ciphertext is the message followed by the 16-byte Poly1305 tag.\<close>

definition aead_len :: "crypto_ext \<Rightarrow> bool" where
  "aead_len X \<longleftrightarrow> (\<forall>k n a m c. aead_encrypt X k n a m = Some c \<longrightarrow> length c = length m + 16)"

definition dh_commutes :: "crypto_ext \<Rightarrow> bool" where
  "dh_commutes X \<longleftrightarrow>
     (\<forall>a b. x25519_dh X a (x25519_public X b) = x25519_dh X b (x25519_public X a))"

definition public_len :: "crypto_ext \<Rightarrow> bool" where
  "public_len X \<longleftrightarrow> (\<forall>a. length (x25519_public X a) = 32)"

definition hkdf_ok :: "crypto_ext \<Rightarrow> bool" where
  "hkdf_ok X \<longleftrightarrow> (\<forall>s k i. \<exists>out. hkdf_sha256 X s k i 32 = Some out \<and> length out = 32)"

definition is_lower_hex :: "char \<Rightarrow> bool" where
  "is_lower_hex c \<longleftrightarrow> is_ascii_digit c \<or> (97 \<le> (of_char c :: nat) \<and> (of_char c :: nat) \<le> 102)"

definition hex_ok :: "crypto_ext \<Rightarrow> bool" where
  "hex_ok X \<longleftrightarrow>
     (\<forall>bs. hex_decode X (hex_encode X bs) = Some bs \<and> list_all is_lower_hex (hex_encode X bs)
           \<and> length (hex_encode X bs) = 2 * length bs)"

section \<open>Errors and random bytes\<close>

definition PAIRING_CODE_DIGITS :: nat where "PAIRING_CODE_DIGITS = 6"
definition SALT_LEN :: nat where "SALT_LEN = 16"
definition AAD_LEN :: nat where "AAD_LEN = 9"
definition NONCE_LEN :: nat where "NONCE_LEN = 12"

type_synonym path = "string list"

datatype CryptoError =
    Random string
  | Hex
  | CryptoIo string
  | InsecurePermissions path nat
  | BadKey
  | KeyLength
  | Aead

fun CryptoError_display :: "CryptoError \<Rightarrow> string" where
  "CryptoError_display (Random what) = ''random source failed for '' @ what"
| "CryptoError_display Hex = ''malformed hex-encoded key material''"
| "CryptoError_display (CryptoIo err) = ''host identity filesystem I/O failed: '' @ err"
| "CryptoError_display (InsecurePermissions p mode) =
     ''host identity '' @ path_display p @ '' has unsafe permissions '' @ pad_zero 4 (show_radix 8 (mode AND 511))
     @ ''; expected 0600''"
| "CryptoError_display BadKey = ''invalid X25519 public key''"
| "CryptoError_display KeyLength = ''unexpected derived key length''"
| "CryptoError_display Aead = ''authentication failed (wrong key or tampered data)''"

definition random_bytes :: "nat \<Rightarrow> string \<Rightarrow> bytes option \<Rightarrow> CryptoError + bytes" where
  "random_bytes n what rnd =
     (case rnd of None \<Rightarrow> Err (Random what) | Some bs \<Rightarrow> Ok (take n (bs @ replicate n 0)))"

lemma random_bytes_length: "random_bytes n what rnd = Ok bs \<Longrightarrow> length bs = n"
  by (auto simp: random_bytes_def split: option.splits)

lemma random_bytes_Some [simp]: "random_bytes n what (Some bs) = Ok (take n (bs @ replicate n 0))"
  by (simp add: random_bytes_def)

lemma random_bytes_None [simp]: "random_bytes n what None = Err (Random what)"
  by (simp add: random_bytes_def)

section \<open>Device identity\<close>

record DeviceIdentity =
  secret :: bytes

definition DeviceIdentity_from_private_bytes :: "bytes \<Rightarrow> DeviceIdentity" where
  "DeviceIdentity_from_private_bytes b = \<lparr>secret = b\<rparr>"

definition DeviceIdentity_generate :: "bytes option \<Rightarrow> CryptoError + DeviceIdentity" where
  "DeviceIdentity_generate rnd =
     (case random_bytes 32 ''device identity'' rnd of
        Inl e \<Rightarrow> Err e
      | Inr b \<Rightarrow> Ok (DeviceIdentity_from_private_bytes b))"

definition private_key_hex :: "crypto_ext \<Rightarrow> DeviceIdentity \<Rightarrow> string" where
  "private_key_hex X self = hex_encode X (secret self)"

definition from_private_hex :: "crypto_ext \<Rightarrow> string \<Rightarrow> CryptoError + DeviceIdentity" where
  "from_private_hex X s =
     (case hex_decode X s of
        None \<Rightarrow> Err Hex
      | Some bs \<Rightarrow> if length bs = 32 then Ok (DeviceIdentity_from_private_bytes bs) else Err Hex)"

definition public_from_secret :: "crypto_ext \<Rightarrow> bytes \<Rightarrow> bytes" where
  "public_from_secret X s = x25519_public X s"

definition public_key_bytes :: "crypto_ext \<Rightarrow> DeviceIdentity \<Rightarrow> bytes" where
  "public_key_bytes X self = public_from_secret X (secret self)"

definition public_key_hex :: "crypto_ext \<Rightarrow> DeviceIdentity \<Rightarrow> string" where
  "public_key_hex X self = hex_encode X (public_key_bytes X self)"

text \<open>An all-zero shared secret is refused.\<close>

definition agree :: "crypto_ext \<Rightarrow> DeviceIdentity \<Rightarrow> bytes \<Rightarrow> bytes option" where
  "agree X self their_public =
     (let shared = x25519_dh X (secret self) their_public
      in if list_all (\<lambda>b. b = 0) shared then None else Some shared)"

lemma agree_not_zero: "agree X i p = Some k \<Longrightarrow> \<not> list_all (\<lambda>b. b = 0) k"
  by (auto simp: agree_def Let_def split: if_splits)

lemma agree_symmetric:
  "dh_commutes X \<Longrightarrow> agree X a (public_key_bytes X b) = agree X b (public_key_bytes X a)"
  by (simp add: agree_def public_key_bytes_def public_from_secret_def dh_commutes_def)

definition parse_public_key_hex :: "crypto_ext \<Rightarrow> string \<Rightarrow> CryptoError + bytes" where
  "parse_public_key_hex X s =
     (case hex_decode X s of
        None \<Rightarrow> Err Hex
      | Some bs \<Rightarrow> if length bs = 32 then Ok bs else Err Hex)"

section \<open>Sessions and the key schedule\<close>

datatype Direction = HostToDevice | DeviceToHost

fun Direction_byte :: "Direction \<Rightarrow> u8" where
  "Direction_byte HostToDevice = 0"
| "Direction_byte DeviceToHost = 1"

definition Direction_from_byte :: "u8 \<Rightarrow> Direction option" where
  "Direction_from_byte b =
     (if b = 0 then Some HostToDevice else if b = 1 then Some DeviceToHost else None)"

lemma Direction_from_byte_byte [simp]: "Direction_from_byte (Direction_byte d) = Some d"
  by (cases d) (simp_all add: Direction_from_byte_def)

record SessionKeys =
  sk_key :: bytes

record Session =
  host_to_device :: SessionKeys
  device_to_host :: SessionKeys
  salt :: bytes

fun keys_for :: "Session \<Rightarrow> Direction \<Rightarrow> SessionKeys" where
  "keys_for s HostToDevice = host_to_device s"
| "keys_for s DeviceToHost = device_to_host s"

definition wf_session :: "Session \<Rightarrow> bool" where
  "wf_session s \<longleftrightarrow> length (sk_key (host_to_device s)) = 32 \<and> length (sk_key (device_to_host s)) = 32"

lemma wf_session_key [simp]: "wf_session s \<Longrightarrow> length (sk_key (keys_for s d)) = 32"
  by (cases d) (simp_all add: wf_session_def)

text \<open>\<^verbatim>\<open>expand\<close>: HKDF with the info string \<open>context || 0 || label\<close>.\<close>

definition expand :: "crypto_ext \<Rightarrow> bytes \<Rightarrow> bytes \<Rightarrow> bytes \<Rightarrow> bytes \<Rightarrow> CryptoError + bytes" where
  "expand X ikm slt context label =
     (let info = context @ [0] @ label
      in ok_or (hkdf_sha256 X slt ikm info 32) KeyLength)"

definition stream_label :: bytes where "stream_label = as_bytes ''emersia/stream-key-v1''"
definition input_label :: bytes where "input_label = as_bytes ''emersia/input-key-v1''"

definition expand_pair :: "crypto_ext \<Rightarrow> bytes \<Rightarrow> bytes \<Rightarrow> bytes \<Rightarrow> bytes \<Rightarrow> CryptoError + Session" where
  "expand_pair X ikm slt context keep =
     (case expand X ikm slt context stream_label of
        Inl e \<Rightarrow> Err e
      | Inr h2d \<Rightarrow>
         (case expand X ikm slt context input_label of
            Inl e \<Rightarrow> Err e
          | Inr d2h \<Rightarrow> Ok \<lparr>host_to_device = \<lparr>sk_key = h2d\<rparr>, device_to_host = \<lparr>sk_key = d2h\<rparr>, salt = keep\<rparr>))"

definition Session_derive :: "crypto_ext \<Rightarrow> bytes option \<Rightarrow> bytes \<Rightarrow> bytes \<Rightarrow> CryptoError + Session" where
  "Session_derive X rnd shared context =
     (case random_bytes SALT_LEN ''session salt'' rnd of
        Inl e \<Rightarrow> Err e
      | Inr slt \<Rightarrow> expand_pair X shared slt context slt)"

definition from_key_material :: "crypto_ext \<Rightarrow> bytes \<Rightarrow> bytes \<Rightarrow> bytes \<Rightarrow> CryptoError + Session" where
  "from_key_material X ikm slt context = expand_pair X ikm slt context (replicate SALT_LEN 0)"

definition derive_with_salt :: "crypto_ext \<Rightarrow> bytes \<Rightarrow> bytes \<Rightarrow> bytes \<Rightarrow> CryptoError + Session" where
  "derive_with_salt X shared slt context = expand_pair X shared slt context slt"

lemma expand_pair_wf:
  assumes "hkdf_ok X"
  shows "\<exists>s. expand_pair X ikm slt context keep = Ok s \<and> wf_session s \<and> salt s = keep"
proof -
  from assms obtain a b where
    "hkdf_sha256 X slt ikm (context @ [0] @ stream_label) 32 = Some a" "length a = 32"
    "hkdf_sha256 X slt ikm (context @ [0] @ input_label) 32 = Some b" "length b = 32"
    unfolding hkdf_ok_def by meson
  then show ?thesis
    by (simp add: expand_pair_def expand_def wf_session_def)
qed

lemma from_key_material_wf:
  "hkdf_ok X \<Longrightarrow> \<exists>s. from_key_material X ikm slt context = Ok s \<and> wf_session s"
  using expand_pair_wf unfolding from_key_material_def by blast

text \<open>The responder that rebuilds a session from the initiator's salt gets the same keys.\<close>

lemma derive_with_salt_of_derive:
  "Session_derive X rnd shared context = Ok s \<Longrightarrow>
   derive_with_salt X shared (salt s) context = Ok s"
  by (auto simp: Session_derive_def derive_with_salt_def expand_pair_def split: sum.splits)

section \<open>Handshake transcript\<close>

definition transcript_input :: "bytes list \<Rightarrow> bytes" where
  "transcript_input parts = concat (map (\<lambda>p. be64 (of_nat (length p)) @ p) parts)"

definition transcript :: "crypto_ext \<Rightarrow> bytes list \<Rightarrow> bytes" where
  "transcript X parts = sha256 X (transcript_input parts)"

lemma transcript_input_simps [simp]:
  "transcript_input [] = []"
  "transcript_input (p # ps) = be64 (of_nat (length p)) @ p @ transcript_input ps"
  by (simp_all add: transcript_input_def)

lemma transcript_input_inject:
  assumes "transcript_input ps = transcript_input qs"
    and "\<forall>p \<in> set ps. length p \<le> u64_max" and "\<forall>q \<in> set qs. length q \<le> u64_max"
  shows "ps = qs"
  using assms
proof (induction ps arbitrary: qs)
  case Nil
  then show ?case by (cases qs) (auto dest: arg_cong [where f = length])
next
  case (Cons p ps)
  then obtain q qs' where qs: "qs = q # qs'"
    by (cases qs) (auto dest: arg_cong [where f = length])
  from Cons.prems(1) have "be64 (of_nat (length p)) = be64 (of_nat (length q))"
    and rest: "p @ transcript_input ps = q @ transcript_input qs'"
    by (auto simp: qs append_eq_append_conv)
  then have "(of_nat (length p) :: u64) = of_nat (length q)"
    by simp
  then have "length p = length q"
    using Cons.prems(2,3) qs
    by (auto simp: word_unat_eq_iff unat_of_nat u64_max_def)
  with rest have "p = q" and "transcript_input ps = transcript_input qs'" by auto
  with Cons.IH [of qs'] Cons.prems(2,3) qs show ?case by simp
qed

section \<open>Associated data, sealing and opening\<close>

definition build_aad :: "Direction \<Rightarrow> u64 \<Rightarrow> bytes" where
  "build_aad direction sequence = Direction_byte direction # be64 sequence"

definition parse_aad :: "bytes \<Rightarrow> CryptoError + (Direction \<times> u64)" where
  "parse_aad aad =
     (if length aad \<noteq> AAD_LEN then Err Aead
      else case Direction_from_byte (aad ! 0) of
             None \<Rightarrow> Err Aead
           | Some dir \<Rightarrow> Ok (dir, from_be (drop 1 aad)))"

lemma length_build_aad [simp]: "length (build_aad d q) = AAD_LEN"
  by (simp add: build_aad_def AAD_LEN_def)

lemma build_aad_inject [simp]: "build_aad d q = build_aad d' q' \<longleftrightarrow> d = d' \<and> q = q'"
  by (cases d; cases d') (simp_all add: build_aad_def)

lemma parse_aad_build_aad [simp]: "parse_aad (build_aad d q) = Ok (d, q)"
  by (simp add: parse_aad_def) (simp add: build_aad_def)

lemma build_aad_parse_aad: "parse_aad aad = Ok (d, q) \<Longrightarrow> build_aad d q = aad"
proof -
  assume *: "parse_aad aad = Ok (d, q)"
  then obtain b bs where aad: "aad = b # bs" and "length bs = 8"
    by (cases aad) (auto simp: parse_aad_def AAD_LEN_def split: if_splits)
  moreover from * aad have "Direction_from_byte b = Some d" and "q = from_be bs"
    by (auto simp: parse_aad_def split: if_splits option.splits)
  ultimately show ?thesis
    by (auto simp: build_aad_def Direction_from_byte_def split: if_splits)
qed

definition crypto_seal ::
  "crypto_ext \<Rightarrow> Session \<Rightarrow> Direction \<Rightarrow> u64 \<Rightarrow> bytes option \<Rightarrow> bytes \<Rightarrow> CryptoError + bytes" where
  "crypto_seal X session direction sequence rnd plaintext =
     (let k = sk_key (keys_for session direction)
      in if length k \<noteq> 32 then Err KeyLength
         else case random_bytes NONCE_LEN ''record nonce'' rnd of
           Inl e \<Rightarrow> Err e
         | Inr nonce \<Rightarrow>
             if length nonce \<noteq> NONCE_LEN then Err KeyLength
             else case aead_encrypt X k nonce (build_aad direction sequence) plaintext of
               None \<Rightarrow> Err Aead
             | Some ciphertext \<Rightarrow> Ok (nonce @ ciphertext))"

definition crypto_open ::
  "crypto_ext \<Rightarrow> Session \<Rightarrow> Direction \<Rightarrow> u64 \<Rightarrow> bytes \<Rightarrow> CryptoError + bytes" where
  "crypto_open X session direction sequence sealed =
     (if length sealed < NONCE_LEN then Err Aead
      else let nonce = take NONCE_LEN sealed;
               ciphertext = drop NONCE_LEN sealed;
               k = sk_key (keys_for session direction)
           in if length k \<noteq> 32 then Err KeyLength
              else if length nonce \<noteq> NONCE_LEN then Err KeyLength
              else ok_or (aead_decrypt X k nonce (build_aad direction sequence) ciphertext) Aead)"

lemma crypto_open_seal:
  assumes "aead_correct X" and "crypto_seal X s d q rnd m = Ok sealed"
  shows "crypto_open X s d q sealed = Ok m"
proof -
  from assms(2) obtain n c where len: "length (sk_key (keys_for s d)) = 32" "length n = NONCE_LEN"
    and sealed: "sealed = n @ c"
    and enc: "aead_encrypt X (sk_key (keys_for s d)) n (build_aad d q) m = Some c"
    by (auto simp: crypto_seal_def Let_def split: if_splits sum.splits option.splits)
  from enc assms(1) have "aead_decrypt X (sk_key (keys_for s d)) n (build_aad d q) c = Some m"
    by (simp add: aead_correct_def)
  with len sealed show ?thesis by (simp add: crypto_open_def Let_def)
qed

lemma crypto_seal_total:
  assumes "aead_total X" and "wf_session s" and "length m \<le> 2 * u16_max"
  shows "\<exists>sealed. crypto_seal X s d q (Some r) m = Ok sealed"
  using assms by (fastforce simp: crypto_seal_def Let_def aead_total_def split: option.splits)

text \<open>Only a record encrypted under this key, this direction and this sequence opens.\<close>

lemma crypto_open_genuine:
  assumes "aead_inverse X" and "crypto_open X s d q sealed = Ok m"
  shows "\<exists>n c. sealed = n @ c \<and> length n = NONCE_LEN
           \<and> aead_encrypt X (sk_key (keys_for s d)) n (build_aad d q) m = Some c"
proof -
  from assms(2) have "\<not> length sealed < NONCE_LEN"
    and "aead_decrypt X (sk_key (keys_for s d)) (take NONCE_LEN sealed) (build_aad d q)
           (drop NONCE_LEN sealed) = Some m"
    by (auto simp: crypto_open_def Let_def split: if_splits)
  with assms(1) show ?thesis
    by (intro exI [of _ "take NONCE_LEN sealed"] exI [of _ "drop NONCE_LEN sealed"])
      (auto simp: aead_inverse_def)
qed

lemma length_crypto_seal:
  "crypto_seal X s d q rnd m = Ok sealed \<Longrightarrow> NONCE_LEN \<le> length sealed"
  by (auto simp: crypto_seal_def Let_def split: if_splits sum.splits option.splits)

lemma length_crypto_seal_eq:
  "aead_len X \<Longrightarrow> crypto_seal X s d q rnd m = Ok sealed \<Longrightarrow> length sealed = NONCE_LEN + length m + 16"
  by (auto simp: crypto_seal_def Let_def aead_len_def split: if_splits sum.splits option.splits)

section \<open>Pairing codes\<close>

datatype PairingCode = PairingCode string

fun as_str :: "PairingCode \<Rightarrow> string" where
  "as_str (PairingCode c) = c"

definition pairing_digit_from_byte :: "u8 \<Rightarrow> u8 option" where
  "pairing_digit_from_byte b = (if b < 250 then Some (b mod 10) else None)"

text \<open>
  The rejection loop draws until a byte is accepted or the source fails.  The argument lists the
  outcomes of the successive draws; \<open>None\<close> means the loop is still running when they are used up.
\<close>

fun random_pairing_digit :: "bytes option list \<Rightarrow> ((CryptoError + u8) \<times> bytes option list) option" where
  "random_pairing_digit [] = None"
| "random_pairing_digit (rnd # rest) =
     (case random_bytes 1 ''pairing code'' rnd of
        Inl e \<Rightarrow> Some (Err e, rest)
      | Inr b \<Rightarrow> (case pairing_digit_from_byte (b ! 0) of
                    Some digit \<Rightarrow> Some (Ok digit, rest)
                  | None \<Rightarrow> random_pairing_digit rest))"

fun generate_digits :: "nat \<Rightarrow> bytes option list \<Rightarrow> string \<Rightarrow> ((CryptoError + string) \<times> bytes option list) option" where
  "generate_digits 0 rnds code = Some (Ok code, rnds)"
| "generate_digits (Suc n) rnds code =
     (case random_pairing_digit rnds of
        None \<Rightarrow> None
      | Some (Inl e, rest) \<Rightarrow> Some (Err e, rest)
      | Some (Inr d, rest) \<Rightarrow> generate_digits n rest (code @ [char_of (48 + unat d)]))"

definition PairingCode_generate :: "bytes option list \<Rightarrow> ((CryptoError + PairingCode) \<times> bytes option list) option" where
  "PairingCode_generate rnds =
     (case generate_digits PAIRING_CODE_DIGITS rnds [] of
        None \<Rightarrow> None
      | Some (Inl e, rest) \<Rightarrow> Some (Err e, rest)
      | Some (Inr c, rest) \<Rightarrow> Some (Ok (PairingCode c), rest))"

definition PairingCode_parse :: "string \<Rightarrow> CryptoError + PairingCode" where
  "PairingCode_parse input =
     (let cleaned = map to_ascii_uppercase (filter is_ascii_alphanumeric input)
      in if length cleaned \<noteq> PAIRING_CODE_DIGITS \<or> \<not> list_all is_ascii_digit cleaned then Err Hex
         else Ok (PairingCode cleaned))"

definition PairingCode_display :: "PairingCode \<Rightarrow> string" where
  "PairingCode_display self =
     take (PAIRING_CODE_DIGITS div 2) (as_str self) @ ''-'' @ drop (PAIRING_CODE_DIGITS div 2) (as_str self)"

definition wf_code :: "PairingCode \<Rightarrow> bool" where
  "wf_code c \<longleftrightarrow> length (as_str c) = PAIRING_CODE_DIGITS \<and> list_all is_ascii_digit (as_str c)"

lemma pairing_digit_bound: "pairing_digit_from_byte b = Some d \<Longrightarrow> unat d < 10"
proof -
  assume "pairing_digit_from_byte b = Some d"
  then have "d = b mod 10" by (simp add: pairing_digit_from_byte_def split: if_splits)
  then show ?thesis by (simp add: unat_mod)
qed

lemma random_pairing_digit_bound:
  "random_pairing_digit rnds = Some (Ok d, rest) \<Longrightarrow> unat d < 10"
  by (induction rnds rule: random_pairing_digit.induct)
    (auto split: sum.splits option.splits intro: pairing_digit_bound)

lemma digit_char: "n < 10 \<Longrightarrow> is_ascii_digit (char_of (48 + n :: nat))"
  by (simp add: is_ascii_digit_def)

lemma generate_digits_wf:
  "generate_digits n rnds code = Some (Ok c, rest) \<Longrightarrow> list_all is_ascii_digit code \<Longrightarrow>
   length c = length code + n \<and> list_all is_ascii_digit c"
proof (induction n rnds code rule: generate_digits.induct)
  case (1 rnds code)
  then show ?case by auto
next
  case (2 n rnds code)
  then show ?case
    by (auto split: option.splits prod.splits sum.splits simp: digit_char random_pairing_digit_bound)
qed

lemma PairingCode_generate_wf: "PairingCode_generate rnds = Some (Ok c, rest) \<Longrightarrow> wf_code c"
  using generate_digits_wf [of PAIRING_CODE_DIGITS rnds "[]"]
  by (auto simp: PairingCode_generate_def wf_code_def split: option.splits prod.splits sum.splits)

lemma PairingCode_parse_wf: "PairingCode_parse s = Ok c \<Longrightarrow> wf_code c"
  by (auto simp: PairingCode_parse_def wf_code_def Let_def split: if_splits)

lemma filter_digits: "list_all is_ascii_digit s \<Longrightarrow> filter is_ascii_alphanumeric s = s"
  by (induction s) (auto simp: is_ascii_alphanumeric_def)

lemma upper_digits: "list_all is_ascii_digit s \<Longrightarrow> map to_ascii_uppercase s = s"
  by (induction s) auto

lemma PairingCode_parse_display:
  assumes "wf_code c"
  shows "PairingCode_parse (PairingCode_display c) = Ok c"
proof -
  obtain s where c: "c = PairingCode s" by (cases c)
  with assms have s: "length s = PAIRING_CODE_DIGITS" "list_all is_ascii_digit s"
    by (simp_all add: wf_code_def)
  have "\<not> is_ascii_alphanumeric CHR ''-''"
    by (simp add: is_ascii_alphanumeric_def is_ascii_digit_def is_ascii_upper_def is_ascii_lower_def)
  moreover have "list_all is_ascii_digit (take k s)" "list_all is_ascii_digit (drop k s)" for k
    using s(2) by (auto simp: list_all_iff dest: in_set_takeD in_set_dropD)
  ultimately have "filter is_ascii_alphanumeric (PairingCode_display c) = s"
    by (simp add: PairingCode_display_def c filter_digits)
  then show ?thesis by (simp add: PairingCode_parse_def s upper_digits c)
qed

text \<open>Drawing six accepted bytes gives a code: the loop ends as soon as each digit has its draw.\<close>

lemma random_pairing_digit_returns:
  assumes "Some [b] \<in> set rnds" and "b < 250"
  shows "random_pairing_digit rnds \<noteq> None"
  using assms
  by (induction rnds) (auto simp: random_bytes_def pairing_digit_from_byte_def split: sum.splits option.splits)

lemma generate_digits_accepted:
  assumes "\<forall>b \<in> set bs. b < 250" and "length bs = n"
  shows "generate_digits n (map (\<lambda>b. Some [b]) bs @ rest) code
           = Some (Ok (code @ map (\<lambda>b. char_of (48 + unat (b mod 10))) bs), rest)"
  using assms
  by (induction bs arbitrary: n code) (auto simp: pairing_digit_from_byte_def)

interpretation code_text: wire_codec wf_code PairingCode_display "\<lambda>s. case PairingCode_parse s of Inl _ \<Rightarrow> None | Inr c \<Rightarrow> Some c"
  by unfold_locales (simp add: PairingCode_parse_display)

interpretation aad_text: wire_codec "\<lambda>_. True" "\<lambda>(d, q). build_aad d q"
  "\<lambda>s. case parse_aad s of Inl _ \<Rightarrow> None | Inr x \<Rightarrow> Some x"
  by unfold_locales auto

section \<open>The host identity file\<close>

text \<open>
  The file system is a map from absolute paths (component lists) to nodes with their permission
  bits.  \<open>io k = Some msg\<close> makes the \<open>k\<close>-th file-system call of the function fail with that message,
  beyond the failures the node kinds already force.
\<close>

datatype fnode = FileNode nat bytes | DirNode nat

type_synonym fs = "path \<Rightarrow> fnode option"

definition is_file :: "fnode option \<Rightarrow> bool" where
  "is_file n = (case n of Some (FileNode _ _) \<Rightarrow> True | _ \<Rightarrow> False)"

definition create_dir_all :: "fs \<Rightarrow> path \<Rightarrow> fs option" where
  "create_dir_all f dir =
     (if list_ex (\<lambda>k. is_file (f (take k dir))) [0..<Suc (length dir)] then None
      else Some (\<lambda>p. if f p = None \<and> p = take (length p) dir then Some (DirNode 511) else f p))"

definition set_permissions :: "string option \<Rightarrow> fs \<Rightarrow> path \<Rightarrow> nat \<Rightarrow> string + fs" where
  "set_permissions io f p mode =
     (case io of
        Some e \<Rightarrow> Err e
      | None \<Rightarrow> (case f p of
            None \<Rightarrow> Err ''not found''
          | Some (FileNode _ c) \<Rightarrow> Ok (f(p \<mapsto> FileNode mode c))
          | Some (DirNode _) \<Rightarrow> Ok (f(p \<mapsto> DirNode mode))))"

definition restrict :: "string option \<Rightarrow> fs \<Rightarrow> path \<Rightarrow> nat \<Rightarrow> CryptoError + fs" where
  "restrict io f p mode = map_err CryptoIo (set_permissions io f p mode)"

text \<open>The mode of the open call applies only when the file is created; truncation keeps the old one.\<close>

definition write_private ::
  "(nat \<Rightarrow> string option) \<Rightarrow> fs \<Rightarrow> path \<Rightarrow> bytes \<Rightarrow> (CryptoError + unit) \<times> fs" where
  "write_private io f p content =
     (case io 0 of
        Some e \<Rightarrow> (Err (CryptoIo e), f)
      | None \<Rightarrow>
         (case f p of
            Some (DirNode _) \<Rightarrow> (Err (CryptoIo ''is a directory''), f)
          | node \<Rightarrow>
             let mode = (case node of Some (FileNode m _) \<Rightarrow> m | _ \<Rightarrow> 384)
             in case io 1 of
                  Some e \<Rightarrow> (Err (CryptoIo e), f(p \<mapsto> FileNode mode []))
                | None \<Rightarrow>
                   (case io 2 of
                      Some e \<Rightarrow> (Err (CryptoIo e), f(p \<mapsto> FileNode mode content))
                    | None \<Rightarrow> (Ok (), f(p \<mapsto> FileNode mode content)))))"

record HostIdentity =
  inner :: DeviceIdentity

definition load_existing ::
  "crypto_ext \<Rightarrow> (nat \<Rightarrow> string option) \<Rightarrow> path \<Rightarrow> fnode \<Rightarrow> CryptoError + DeviceIdentity" where
  "load_existing X io p node =
     (case io 1 of
        Some e \<Rightarrow> Err (CryptoIo e)
      | None \<Rightarrow>
         (let mode = (case node of FileNode m _ \<Rightarrow> m | DirNode m \<Rightarrow> m) AND 511
          in if mode AND 63 \<noteq> 0 then Err (InsecurePermissions p mode)
             else case (io 2, node) of
                    (Some e, _) \<Rightarrow> Err (CryptoIo e)
                  | (None, DirNode _) \<Rightarrow> Err (CryptoIo ''is a directory'')
                  | (None, FileNode _ content) \<Rightarrow>
                     (case from_utf8 content of
                        None \<Rightarrow> Err Hex
                      | Some text \<Rightarrow>
                         (case hex_decode X (trim text) of
                            None \<Rightarrow> Err Hex
                          | Some bs \<Rightarrow> if length bs = 32 then Ok (DeviceIdentity_from_private_bytes bs)
                                       else Err Hex))))"

definition create_fresh ::
  "crypto_ext \<Rightarrow> bytes option \<Rightarrow> (nat \<Rightarrow> string option) \<Rightarrow> fs \<Rightarrow> path \<Rightarrow> (CryptoError + DeviceIdentity) \<times> fs" where
  "create_fresh X rnd io f p =
     (case DeviceIdentity_generate rnd of
        Inl e \<Rightarrow> (Err e, f)
      | Inr fresh \<Rightarrow>
         (let write = (\<lambda>g. case write_private (\<lambda>k. io (5 + k)) g p (as_bytes (hex_encode X (secret fresh))) of
                             (Inl e, g') \<Rightarrow> (Err e, g')
                           | (Inr _, g') \<Rightarrow> (Ok fresh, g'))
          in if p = [] then write f
             else case io 3 of
               Some e \<Rightarrow> (Err (CryptoIo e), f)
             | None \<Rightarrow>
                (case create_dir_all f (butlast p) of
                   None \<Rightarrow> (Err (CryptoIo ''not a directory''), f)
                 | Some g \<Rightarrow>
                    (case restrict (io 4) g (butlast p) 448 of
                       Inl e \<Rightarrow> (Err e, g)
                     | Inr g' \<Rightarrow> write g'))))"

definition load_or_create ::
  "crypto_ext \<Rightarrow> bytes option \<Rightarrow> (nat \<Rightarrow> string option) \<Rightarrow> fs \<Rightarrow> path \<Rightarrow> (CryptoError + HostIdentity) \<times> fs" where
  "load_or_create X rnd io f p =
     (case io 0 of
        Some e \<Rightarrow> (Err (CryptoIo e), f)
      | None \<Rightarrow>
         (case f p of
            Some node \<Rightarrow>
              (case load_existing X io p node of
                 Inl e \<Rightarrow> (Err e, f)
               | Inr i \<Rightarrow> (Ok \<lparr>inner = i\<rparr>, f))
          | None \<Rightarrow>
              (case create_fresh X rnd io f p of
                 (Inl e, g) \<Rightarrow> (Err e, g)
               | (Inr i, g) \<Rightarrow> (Ok \<lparr>inner = i\<rparr>, g))))"

definition into_identity :: "HostIdentity \<Rightarrow> DeviceIdentity" where
  "into_identity self = inner self"

end
