(* ===== verification/Sample_Crypto.thy ===== *)
theory Sample_Crypto
  imports Crypto
begin

text \<open>
  A small concrete value of the record of primitives.  It is no cryptography: it only satisfies, by
  computation, every law the development assumes of the real crates, so that properties with such a
  law as hypothesis can be applied to concrete packets.
\<close>

definition pad32 :: "bytes \<Rightarrow> bytes" where
  "pad32 b = take 32 (b @ replicate 32 0)"

definition sample_tag :: "bytes \<Rightarrow> bytes" where
  "sample_tag bs = replicate 16 (sum_list bs)"

definition hex_digit :: "nat \<Rightarrow> char" where
  "hex_digit n = (if n < 10 then char_of (48 + n) else char_of (87 + n))"

definition sample_hex_encode :: "bytes \<Rightarrow> string" where
  "sample_hex_encode bs = concat (map (\<lambda>b. [hex_digit (unat b div 16), hex_digit (unat b mod 16)]) bs)"

fun sample_hex_decode :: "string \<Rightarrow> bytes option" where
  "sample_hex_decode [] = Some []"
| "sample_hex_decode [c] = None"
| "sample_hex_decode (c # d # rest) =
     (case (digit_val 16 c, digit_val 16 d, sample_hex_decode rest) of
        (Some x, Some y, Some bs) \<Rightarrow> Some (of_nat (16 * x + y) # bs)
      | _ \<Rightarrow> None)"

definition sample_crypto :: crypto_ext where
  "sample_crypto =
     \<lparr>x25519_public = pad32,
      x25519_dh = (\<lambda>a b. map2 (+) (pad32 a) (pad32 b)),
      sha256 = pad32,
      hkdf_sha256 = (\<lambda>slt ikm info n. Some (take n (ikm @ slt @ info @ replicate n 0))),
      aead_encrypt = (\<lambda>k n a m. Some (m @ sample_tag (k @ n @ a @ m))),
      aead_decrypt = (\<lambda>k n a c. let m = take (length c - 16) c
                                in if m @ sample_tag (k @ n @ a @ m) = c then Some m else None),
      hex_encode = sample_hex_encode,
      hex_decode = sample_hex_decode\<rparr>"

definition sample_session :: Session where
  "sample_session = \<lparr>host_to_device = \<lparr>sk_key = replicate 32 1\<rparr>,
                     device_to_host = \<lparr>sk_key = replicate 32 2\<rparr>, salt = []\<rparr>"

lemma wf_sample_session [simp]: "wf_session sample_session"
  by (simp add: sample_session_def wf_session_def)

lemma length_sample_tag [simp]: "length (sample_tag bs) = 16"
  by (simp add: sample_tag_def)

lemma length_pad32 [simp]: "length (pad32 b) = 32"
  by (simp add: pad32_def)

lemma pad32_idem [simp]: "pad32 (pad32 b) = pad32 b"
  by (simp add: pad32_def)

lemma map2_add_commute: "map2 (+) xs ys = map2 (+) ys (xs :: bytes)"
  by (induction xs ys rule: list_induct2') (simp_all add: add.commute)

lemma digit_val_hex_digit: "n < 16 \<Longrightarrow> digit_val 16 (hex_digit n) = Some n"
proof -
  assume "n < 16"
  then consider "n < 10" | "10 \<le> n" "n < 16" by linarith
  then show ?thesis
    by cases (simp_all add: hex_digit_def digit_val_def is_ascii_digit_def is_ascii_lower_def)
qed

lemma is_lower_hex_digit: "n < 16 \<Longrightarrow> is_lower_hex (hex_digit n)"
  by (simp add: hex_digit_def is_lower_hex_def is_ascii_digit_def)

lemma sample_hex_round: "sample_hex_decode (sample_hex_encode bs) = Some bs"
proof (induction bs)
  case Nil
  then show ?case by (simp add: sample_hex_encode_def)
next
  case (Cons b bs)
  have "unat b div 16 < 16" "unat b mod 16 < 16" using unat_u8_less [of b] by simp_all
  with Cons show ?case
    by (simp add: sample_hex_encode_def digit_val_hex_digit)
qed

lemma sample_hex_chars:
  "list_all is_lower_hex (sample_hex_encode bs) \<and> length (sample_hex_encode bs) = 2 * length bs"
proof (induction bs)
  case Nil
  then show ?case by (simp add: sample_hex_encode_def)
next
  case (Cons b bs)
  have "unat b div 16 < 16" "unat b mod 16 < 16" using unat_u8_less [of b] by simp_all
  with Cons show ?case by (simp add: sample_hex_encode_def is_lower_hex_digit)
qed

lemma sample_laws:
  "aead_correct sample_crypto" "aead_inverse sample_crypto" "aead_total sample_crypto"
  "aead_len sample_crypto" "dh_commutes sample_crypto" "public_len sample_crypto" "hkdf_ok sample_crypto" "hex_ok sample_crypto"
proof -
  show "aead_correct sample_crypto" by (simp add: aead_correct_def sample_crypto_def Let_def)
  show "aead_len sample_crypto" by (simp add: aead_len_def sample_crypto_def)
  show "aead_inverse sample_crypto"
    by (auto simp: aead_inverse_def sample_crypto_def Let_def split: if_splits)
  show "aead_total sample_crypto" by (simp add: aead_total_def sample_crypto_def)
  show "dh_commutes sample_crypto"
    using map2_add_commute by (simp add: dh_commutes_def sample_crypto_def)
  show "public_len sample_crypto" by (simp add: public_len_def sample_crypto_def)
  show "hkdf_ok sample_crypto" unfolding hkdf_ok_def sample_crypto_def by (simp del: take_append)
  show "hex_ok sample_crypto"
    using sample_hex_round sample_hex_chars by (simp add: hex_ok_def sample_crypto_def)
qed

end
