(* ===== verification/Pairing.thy ===== *)
theory Pairing
  imports Sample_Crypto
begin

text \<open>
  Model of \<^verbatim>\<open>host/crates/emersia-daemon/src/pairing.rs\<close>: the pairing database with its pending code and
  devices, loading and saving it, and the operations that issue and redeem codes and revoke devices.
  The JSON crate is a parameter (\<open>db_codec\<close>); wall-clock readings are arguments in unix seconds; every
  file-system call can be made to fail through the argument \<open>io\<close>.  The lemmas show that a code is
  redeemed at most once, that five wrong guesses burn it, that nothing else than the right code adds a
  device, that saving is atomic for the database file and that a corrupt file is never replaced.
\<close>

section \<open>Data\<close>

definition CONFIG_DIR_ENV :: string where "CONFIG_DIR_ENV = ''XDG_CONFIG_HOME''"
definition CONFIG_SUBDIR :: string where "CONFIG_SUBDIR = ''emersia''"
definition PAIRING_FILE :: string where "PAIRING_FILE = ''pairing.json''"
definition SCHEMA_VERSION :: u32 where "SCHEMA_VERSION = 1"
definition CODE_TTL :: u64 where "CODE_TTL = 300"
definition MAX_CODE_ATTEMPTS :: u32 where "MAX_CODE_ATTEMPTS = 5"
definition MAX_NAME_LEN :: nat where "MAX_NAME_LEN = 64"

datatype PairingError =
    NoConfigDir
  | PairingIo string
  | Corrupt string
  | NoPendingCode
  | WrongCode
  | TooManyAttempts
  | NotFound string
  | Invalid string

fun PairingError_display :: "PairingError \<Rightarrow> string" where
  "PairingError_display NoConfigDir = CONFIG_DIR_ENV @ '' is not set''"
| "PairingError_display (PairingIo m) = ''pairing database I/O failed: '' @ m"
| "PairingError_display (Corrupt m) =
     ''pairing database is unreadable ('' @ m @ ''); refusing to start with an unknown trust store''"
| "PairingError_display NoPendingCode = ''no pairing code is pending (expired or already used)''"
| "PairingError_display WrongCode = ''incorrect pairing code''"
| "PairingError_display TooManyAttempts = ''too many incorrect code attempts; start a new pairing''"
| "PairingError_display (NotFound d) = ''no active device with id '' @ d"
| "PairingError_display (Invalid m) = m"

record Device =
  dev_id :: string
  dev_name :: string
  dev_public_key :: string
  dev_paired_at :: u64
  dev_revoked :: bool
  dev_revoked_at :: "u64 option"

record PendingCode =
  pc_code_hash :: string
  pc_salt :: string
  pc_expires_at :: u64
  pc_attempts :: u32

record DbFile =
  db_version :: u32
  db_devices :: "(string \<times> Device) list"
  db_pending :: "PendingCode option"

definition DbFile_default :: DbFile where
  "DbFile_default = \<lparr>db_version = SCHEMA_VERSION, db_devices = [], db_pending = None\<rparr>"

record PairingDb =
  pdb_path :: path
  pdb_db :: DbFile

text \<open>serde\_json on the database: printing, and parsing with its error text.\<close>

record db_codec =
  db_to_vec :: "DbFile \<Rightarrow> string + bytes"
  db_from_slice :: "bytes \<Rightarrow> string + DbFile"

text \<open>What serde derives for a struct: its printed form parses back to it.\<close>

definition db_roundtrips :: "db_codec \<Rightarrow> DbFile \<Rightarrow> bool" where
  "db_roundtrips J db \<longleftrightarrow> (\<forall>bs. db_to_vec J db = Ok bs \<longrightarrow> db_from_slice J bs = Ok db)"

definition hash_code :: "crypto_ext \<Rightarrow> string \<Rightarrow> string \<Rightarrow> string" where
  "hash_code X code salt_hex =
     hex_encode X (sha256 X (as_bytes salt_hex @ as_bytes ''|'' @ as_bytes code))"

definition derive_device_id :: "crypto_ext \<Rightarrow> string \<Rightarrow> string" where
  "derive_device_id X pk_hex =
     hex_encode X (take 8 (sha256 X (as_bytes ''emersia/device-id/v1'' @ as_bytes pk_hex)))"

definition default_db_path :: "path option \<Rightarrow> PairingError + path" where
  "default_db_path config_home =
     (case config_home of
        None \<Rightarrow> Err NoConfigDir
      | Some base \<Rightarrow> Ok (base @ [CONFIG_SUBDIR, PAIRING_FILE]))"

text \<open>\<^verbatim>\<open>now_unix\<close>: seconds since the epoch, or zero for a clock before it.\<close>

definition now_unix :: "u64 option \<Rightarrow> u64" where
  "now_unix clock = (case clock of None \<Rightarrow> 0 | Some t \<Rightarrow> t)"

section \<open>Loading and saving\<close>

definition PairingDb_load ::
  "db_codec \<Rightarrow> string option \<Rightarrow> fs \<Rightarrow> path \<Rightarrow> PairingError + PairingDb" where
  "PairingDb_load J io f p =
     (case io of
        Some e \<Rightarrow> Err (PairingIo e)
      | None \<Rightarrow>
         (case f p of
            None \<Rightarrow> Ok \<lparr>pdb_path = p, pdb_db = DbFile_default\<rparr>
          | Some (DirNode _) \<Rightarrow> Err (PairingIo ''is a directory'')
          | Some (FileNode _ bs) \<Rightarrow>
             (case db_from_slice J bs of
                Inl e \<Rightarrow> Err (Corrupt e)
              | Inr parsed \<Rightarrow>
                  if db_version parsed \<noteq> SCHEMA_VERSION
                  then Err (Corrupt (''unsupported schema version '' @ show_nat (unat (db_version parsed))
                              @ '' (expected '' @ show_nat (unat SCHEMA_VERSION) @ '')''))
                  else Ok \<lparr>pdb_path = p, pdb_db = parsed\<rparr>)))"

text \<open>\<^verbatim>\<open>Path::with_extension\<close> on the last component: the part before its last dot, unless that dot leads.\<close>

definition file_stem :: "string \<Rightarrow> string" where
  "file_stem s =
     (let before = rev (drop 1 (dropWhile (\<lambda>c. c \<noteq> CHR ''.'') (rev s)))
      in if CHR ''.'' \<notin> set s \<or> before = [] then s else before)"

definition with_extension :: "path \<Rightarrow> string \<Rightarrow> path" where
  "with_extension p ext = (if p = [] then p else butlast p @ [file_stem (last p) @ ''.'' @ ext])"

text \<open>
  The calls of \<^verbatim>\<open>save\<close> in order: create the directory (0), its mode (1), create the temporary file (2),
  write (3), sync (4), its mode (5), rename (6).  \<open>cmode\<close> is the mode a created file gets from the umask.
\<close>

definition write_tmp ::
  "(nat \<Rightarrow> string option) \<Rightarrow> nat \<Rightarrow> fs \<Rightarrow> path \<Rightarrow> path \<Rightarrow> bytes \<Rightarrow> (PairingError + unit) \<times> fs" where
  "write_tmp io cmode f tmp p json =
     (case (io 2, f tmp) of
        (Some e, _) \<Rightarrow> (Err (PairingIo e), f)
      | (None, Some (DirNode _)) \<Rightarrow> (Err (PairingIo ''is a directory''), f)
      | (None, node) \<Rightarrow>
          let mode = (case node of Some (FileNode m _) \<Rightarrow> m | _ \<Rightarrow> cmode)
          in case io 3 of
               Some e \<Rightarrow> (Err (PairingIo e), f(tmp \<mapsto> FileNode mode []))
             | None \<Rightarrow>
                (case io 4 of
                   Some e \<Rightarrow> (Err (PairingIo e), f(tmp \<mapsto> FileNode mode json))
                 | None \<Rightarrow>
                    (case io 5 of
                       Some e \<Rightarrow> (Err (PairingIo e), f(tmp \<mapsto> FileNode mode json))
                     | None \<Rightarrow>
                        (case (io 6, f p) of
                           (Some e, _) \<Rightarrow> (Err (PairingIo e), f(tmp \<mapsto> FileNode 384 json))
                         | (None, Some (DirNode _)) \<Rightarrow>
                             (Err (PairingIo ''is a directory''), f(tmp \<mapsto> FileNode 384 json))
                         | (None, _) \<Rightarrow> (Ok (), f(tmp := None, p \<mapsto> FileNode 384 json))))))"

definition PairingDb_save ::
  "db_codec \<Rightarrow> (nat \<Rightarrow> string option) \<Rightarrow> nat \<Rightarrow> fs \<Rightarrow> PairingDb \<Rightarrow> (PairingError + unit) \<times> fs" where
  "PairingDb_save J io cmode f self =
     (let p = pdb_path self;
          finish = (\<lambda>g. case db_to_vec J (pdb_db self) of
                          Inl e \<Rightarrow> (Err (PairingIo e), g)
                        | Inr json \<Rightarrow> write_tmp io cmode g (with_extension p ''json.tmp'') p json)
      in if p = [] then finish f
         else case io 0 of
                Some e \<Rightarrow> (Err (PairingIo e), f)
              | None \<Rightarrow>
                 (case create_dir_all f (butlast p) of
                    None \<Rightarrow> (Err (PairingIo ''not a directory''), f)
                  | Some g \<Rightarrow>
                     (case set_permissions (io 1) g (butlast p) 448 of
                        Inl e \<Rightarrow> (Err (PairingIo e), g)
                      | Inr g' \<Rightarrow> finish g')))"

text \<open>What one call finds when it saves: the JSON crate, the failing calls and the creation mode.\<close>

record save_env =
  se_codec :: db_codec
  se_io :: "nat \<Rightarrow> string option"
  se_cmode :: nat

definition db_save :: "save_env \<Rightarrow> fs \<Rightarrow> PairingDb \<Rightarrow> (PairingError + unit) \<times> fs" where
  "db_save E f self = PairingDb_save (se_codec E) (se_io E) (se_cmode E) f self"

text \<open>\<^verbatim>\<open>self.save()?; return r\<close>: the result unless saving failed; the change in memory stays either way.\<close>

definition save_then ::
  "save_env \<Rightarrow> fs \<Rightarrow> PairingDb \<Rightarrow> (PairingError + 'a) \<Rightarrow> (PairingError + 'a) \<times> PairingDb \<times> fs" where
  "save_then E f self r =
     (case db_save E f self of
        (Inl e, g) \<Rightarrow> (Err e, self, g)
      | (Inr _, g) \<Rightarrow> (r, self, g))"

section \<open>Operations\<close>

abbreviation set_pending :: "PendingCode option \<Rightarrow> PairingDb \<Rightarrow> PairingDb" where
  "set_pending pc self \<equiv> self\<lparr>pdb_db := (pdb_db self)\<lparr>db_pending := pc\<rparr>\<rparr>"

text \<open>The outer \<open>None\<close>: the draws given do not suffice for the rejection loop of the code digits.\<close>

definition new_code ::
  "crypto_ext \<Rightarrow> bytes option list \<Rightarrow> bytes option \<Rightarrow> u64 option \<Rightarrow> save_env \<Rightarrow> fs \<Rightarrow> PairingDb
     \<Rightarrow> ((PairingError + PairingCode) \<times> PairingDb \<times> fs) option" where
  "new_code X rnds salt_rnd clock E f self =
     (case PairingCode_generate rnds of
        None \<Rightarrow> None
      | Some (Inl e, _) \<Rightarrow> Some (Err (Invalid (CryptoError_display e)), self, f)
      | Some (Inr code, _) \<Rightarrow>
         (case random_bytes 16 ''salt'' salt_rnd of
            Inl _ \<Rightarrow> Some (Err (Invalid ''no entropy''), self, f)
          | Inr slt \<Rightarrow>
              let salt_hex = hex_encode X slt;
                  self = set_pending (Some \<lparr>pc_code_hash = hash_code X (as_str code) salt_hex, pc_salt = salt_hex,
                                            pc_expires_at = now_unix clock + CODE_TTL, pc_attempts = 0\<rparr>) self
              in Some (save_then E f self (Ok code))))"

text \<open>A wrong code: count it, burn the code at the fifth, and save before answering.\<close>

definition wrong_code :: "save_env \<Rightarrow> fs \<Rightarrow> PairingDb \<Rightarrow> PendingCode \<Rightarrow> (PairingError + Device) \<times> PairingDb \<times> fs" where
  "wrong_code E f self pend =
     (let attempts = pc_attempts pend + 1;
          burned = attempts \<ge> MAX_CODE_ATTEMPTS;
          self = set_pending (if burned then None else Some (pend\<lparr>pc_attempts := attempts\<rparr>)) self
      in save_then E f self (Err (if db_pending (pdb_db self) = None then TooManyAttempts else WrongCode)))"

definition register_device ::
  "crypto_ext \<Rightarrow> u64 \<Rightarrow> save_env \<Rightarrow> fs \<Rightarrow> PairingDb \<Rightarrow> string \<Rightarrow> string \<Rightarrow> (PairingError + Device) \<times> PairingDb \<times> fs" where
  "register_device X now E f self name pk_hex =
     (let d = derive_device_id X pk_hex;
          device = \<lparr>dev_id = d, dev_name = name, dev_public_key = pk_hex, dev_paired_at = now,
                    dev_revoked = False, dev_revoked_at = None\<rparr>;
          self = self\<lparr>pdb_db := (pdb_db self)\<lparr>db_devices := bt_insert d device (db_devices (pdb_db self)),
                                              db_pending := None\<rparr>\<rparr>
      in save_then E f self (Ok device))"

definition accept_code ::
  "crypto_ext \<Rightarrow> u64 option \<Rightarrow> save_env \<Rightarrow> fs \<Rightarrow> PairingDb \<Rightarrow> string \<Rightarrow> string \<Rightarrow> string
     \<Rightarrow> (PairingError + Device) \<times> PairingDb \<times> fs" where
  "accept_code X clock E f self code_input device_name pk_hex =
     (case PairingCode_parse code_input of
        Inl e \<Rightarrow> (Err (Invalid (''pairing code: '' @ CryptoError_display e)), self, f)
      | Inr code \<Rightarrow>
         (case parse_public_key_hex X pk_hex of
            Inl e \<Rightarrow> (Err (Invalid (''public key: '' @ CryptoError_display e)), self, f)
          | Inr _ \<Rightarrow>
              let name = trim device_name
              in if name = [] then (Err (Invalid ''device name must not be empty''), self, f)
                 else if chars_count name > MAX_NAME_LEN
                 then (Err (Invalid (''device name must be at most '' @ show_nat MAX_NAME_LEN @ '' characters'')), self, f)
                 else
                   let now = now_unix clock
                   in case db_pending (pdb_db self) of
                        None \<Rightarrow> (Err NoPendingCode, self, f)
                      | Some pend \<Rightarrow>
                          if now > pc_expires_at pend then save_then E f (set_pending None self) (Err NoPendingCode)
                          else if pc_attempts pend \<ge> MAX_CODE_ATTEMPTS
                          then save_then E f (set_pending None self) (Err TooManyAttempts)
                          else if hash_code X (as_str code) (pc_salt pend) \<noteq> pc_code_hash pend
                          then wrong_code E f self pend
                          else register_device X now E f self name pk_hex))"

definition db_devices_list :: "PairingDb \<Rightarrow> Device list" where
  "db_devices_list self = map snd (db_devices (pdb_db self))"

definition active_devices :: "PairingDb \<Rightarrow> Device list" where
  "active_devices self = filter (\<lambda>d. \<not> dev_revoked d) (map snd (db_devices (pdb_db self)))"

definition revoke ::
  "u64 option \<Rightarrow> save_env \<Rightarrow> fs \<Rightarrow> PairingDb \<Rightarrow> string \<Rightarrow> (PairingError + Device) \<times> PairingDb \<times> fs" where
  "revoke clock E f self d =
     (let now = now_unix clock
      in case map_of (db_devices (pdb_db self)) d of
           None \<Rightarrow> (Err (NotFound d), self, f)
         | Some device \<Rightarrow>
             if dev_revoked device then (Err (NotFound d), self, f)
             else
               let device = device\<lparr>dev_revoked := True, dev_revoked_at := Some now\<rparr>;
                   self = self\<lparr>pdb_db := (pdb_db self)\<lparr>db_devices := bt_insert d device (db_devices (pdb_db self))\<rparr>\<rparr>
               in save_then E f self (Ok device))"

section \<open>Saving is atomic for the database file\<close>

lemma file_stem_tmp: "file_stem s @ ''.json.tmp'' \<noteq> s"
proof
  assume eq: "file_stem s @ ''.json.tmp'' = s"
  let ?P = "\<lambda>c. c \<noteq> CHR ''.''"
  let ?before = "rev (drop 1 (dropWhile ?P (rev s)))"
  have dot: "CHR ''.'' \<in> set s" using eq by (metis Un_iff list.set_intros(1) set_append)
  have stem: "file_stem s = ?before"
  proof (rule ccontr)
    assume "file_stem s \<noteq> ?before"
    then have "file_stem s = s" by (auto simp: file_stem_def Let_def split: if_splits)
    with eq show False by simp
  qed
  have "dropWhile ?P (rev s) \<noteq> []" using dot by (simp add: dropWhile_eq_Nil_conv)
  then have "dropWhile ?P (rev s) = CHR ''.'' # rev ?before"
    using hd_dropWhile [of ?P "rev s"] by (cases "dropWhile ?P (rev s)") auto
  then have "rev s = takeWhile ?P (rev s) @ CHR ''.'' # rev ?before"
    by (metis takeWhile_dropWhile_id)
  moreover have "rev s = rev ''.json.tmp'' @ rev ?before" using eq stem by (metis rev_append)
  ultimately have "(takeWhile ?P (rev s) @ [CHR ''.'']) @ rev ?before = rev ''.json.tmp'' @ rev ?before"
    by (metis append.assoc append_Cons append_Nil)
  then have "takeWhile ?P (rev s) @ [CHR ''.''] = rev ''.json.tmp''" by (simp only: append_same_eq)
  then have "takeWhile ?P (rev s) = ''pmt.nosj''" by simp
  moreover have "CHR ''.'' \<notin> set (takeWhile ?P (rev s))" by (auto dest: set_takeWhileD)
  ultimately show False by simp
qed

lemma with_extension_tmp: "p \<noteq> [] \<Longrightarrow> with_extension p ''json.tmp'' \<noteq> p"
  using file_stem_tmp [of "last p"]
  by (auto simp: with_extension_def) (metis append_butlast_last_id last_snoc)

lemma create_dir_all_keeps:
  "create_dir_all f (butlast p) = Some g \<Longrightarrow> p \<noteq> [] \<Longrightarrow> g p = f p"
proof -
  assume g: "create_dir_all f (butlast p) = Some g" and "p \<noteq> []"
  then have "p \<noteq> take (length p) (butlast p)"
    by (metis append_butlast_last_id append_self_conv length_butlast less_imp_le_nat list.simps(3)
        take_all diff_le_self)
  with g show ?thesis by (auto simp: create_dir_all_def split: if_splits)
qed

lemma set_permissions_keeps: "set_permissions io f p mode = Ok g \<Longrightarrow> q \<noteq> p \<Longrightarrow> g q = f q"
  by (auto simp: set_permissions_def split: option.splits fnode.splits)

lemma write_tmp_atomic:
  assumes "write_tmp io cmode f tmp p json = (r, g)" and "tmp \<noteq> p"
  shows "g p = (if is_ok r then Some (FileNode 384 json) else f p)"
  using assms by (auto simp: write_tmp_def Let_def split: option.splits fnode.splits)

lemma PairingDb_save_atomic:
  assumes "PairingDb_save J io cmode f self = (r, g)" and ne: "pdb_path self \<noteq> []"
  shows "(is_ok r \<longrightarrow> (\<exists>json. db_to_vec J (pdb_db self) = Ok json \<and> g (pdb_path self) = Some (FileNode 384 json)))
       \<and> (\<not> is_ok r \<longrightarrow> g (pdb_path self) = f (pdb_path self))"
proof -
  let ?p = "pdb_path self"
  have pne: "?p \<noteq> butlast ?p" using ne by (metis append_butlast_last_id append_self_conv list.simps(3))
  note keeps = create_dir_all_keeps [OF _ ne] set_permissions_keeps [OF _ pne]
    write_tmp_atomic [OF _ with_extension_tmp [OF ne]]
  show ?thesis using assms
    by (fastforce simp: PairingDb_save_def Let_def dest: keeps split: option.splits sum.splits if_splits)
qed

section \<open>The database invariant\<close>

definition device_ok :: "crypto_ext \<Rightarrow> string \<times> Device \<Rightarrow> bool" where
  "device_ok X e \<longleftrightarrow> dev_id (snd e) = fst e \<and> fst e = derive_device_id X (dev_public_key (snd e))
     \<and> (dev_revoked (snd e) \<longleftrightarrow> dev_revoked_at (snd e) \<noteq> None)"

definition db_inv :: "crypto_ext \<Rightarrow> PairingDb \<Rightarrow> bool" where
  "db_inv X self \<longleftrightarrow>
     bt_wf (db_devices (pdb_db self)) \<and> (\<forall>e \<in> set (db_devices (pdb_db self)). device_ok X e)
     \<and> (\<forall>pend. db_pending (pdb_db self) = Some pend \<longrightarrow> pc_attempts pend < MAX_CODE_ATTEMPTS)"

lemma save_then_state [simp]: "fst (snd (save_then E f self r)) = self"
  by (simp add: save_then_def split: sum.splits prod.splits)

lemma save_then_result: "fst (save_then E f self r) = r \<or> (\<exists>e. fst (save_then E f self r) = Err e)"
  by (auto simp: save_then_def split: sum.splits prod.splits)

lemma save_then_Ok: "save_then E f self r = (Ok x, self', g) \<Longrightarrow> r = Ok x \<and> self' = self"
  by (auto simp: save_then_def split: sum.splits prod.splits)

lemma set_bt_insert: "set (bt_insert k v m) \<subseteq> insert (k, v) (set m)"
  by (induction k v m rule: bt_insert.induct) auto

lemma db_inv_pending:
  "db_inv X self \<Longrightarrow> (\<And>p. pc = Some p \<Longrightarrow> pc_attempts p < MAX_CODE_ATTEMPTS) \<Longrightarrow> db_inv X (set_pending pc self)"
  by (simp add: db_inv_def)

text \<open>
  The outcomes of \<^verbatim>\<open>accept_code\<close> as a case rule: refused before the code is looked at, code dropped
  because it is dead, a wrong guess, or the right code.
\<close>

lemma accept_code_cases:
  assumes "accept_code X clock E f self inp nm pk = (r, self', g)"
  obtains (rejected) e where "r = Err e" "self' = self" "e = NoPendingCode \<or> (\<exists>m. e = Invalid m)"
  | (dead) pend e where "db_pending (pdb_db self) = Some pend"
      "pc_expires_at pend < now_unix clock \<or> MAX_CODE_ATTEMPTS \<le> pc_attempts pend"
      "(r, self', g) = save_then E f (set_pending None self) (Err e)"
      "e = (if pc_expires_at pend < now_unix clock then NoPendingCode else TooManyAttempts)"
  | (wrong) pend code where "db_pending (pdb_db self) = Some pend" "PairingCode_parse inp = Ok code"
      "\<not> pc_expires_at pend < now_unix clock" "\<not> MAX_CODE_ATTEMPTS \<le> pc_attempts pend"
      "hash_code X (as_str code) (pc_salt pend) \<noteq> pc_code_hash pend"
      "(r, self', g) = wrong_code E f self pend"
  | (redeemed) pend code where "db_pending (pdb_db self) = Some pend" "PairingCode_parse inp = Ok code"
      "\<not> pc_expires_at pend < now_unix clock" "\<not> MAX_CODE_ATTEMPTS \<le> pc_attempts pend"
      "hash_code X (as_str code) (pc_salt pend) = pc_code_hash pend"
      "is_ok (parse_public_key_hex X pk)"
      "(r, self', g) = register_device X (now_unix clock) E f self (trim nm) pk"
proof (cases "PairingCode_parse inp")
  case (Inl e)
  with assms show ?thesis by (intro rejected) (auto simp: accept_code_def)
next
  case code: (Inr code)
  show ?thesis
  proof (cases "parse_public_key_hex X pk")
    case (Inl e)
    with assms code show ?thesis by (intro rejected) (auto simp: accept_code_def)
  next
    case key: (Inr k)
    show ?thesis
    proof (cases "trim nm = [] \<or> chars_count (trim nm) > MAX_NAME_LEN \<or> db_pending (pdb_db self) = None")
      case True
      with assms code key show ?thesis
        by (intro rejected [of "case r of Inl e \<Rightarrow> e"]) (auto simp: accept_code_def Let_def split: if_splits)
    next
      case False
      then obtain pend where pend: "db_pending (pdb_db self) = Some pend" by auto
      note here = assms [unfolded accept_code_def Let_def code key pend sum.case option.case]
      show ?thesis
      proof (cases "pc_expires_at pend < now_unix clock \<or> MAX_CODE_ATTEMPTS \<le> pc_attempts pend")
        case True
        with here False show ?thesis by (intro dead [OF pend True _ refl]) (auto split: if_splits)
      next
        case alive: False
        show ?thesis
        proof (cases "hash_code X (as_str code) (pc_salt pend) = pc_code_hash pend")
          case True
          with here False alive key show ?thesis by (intro redeemed [OF pend code]) auto
        next
          case bad: False
          with here False alive show ?thesis by (intro wrong [OF pend code]) auto
        qed
      qed
    qed
  qed
qed

lemma wrong_code_state:
  assumes "(r, self', g) = wrong_code E f self pend"
  shows "self' = set_pending (if pc_attempts pend + 1 \<ge> MAX_CODE_ATTEMPTS then None
           else Some (pend\<lparr>pc_attempts := pc_attempts pend + 1\<rparr>)) self"
  using arg_cong [OF assms, of "\<lambda>x. fst (snd x)"] by (simp add: wrong_code_def Let_def)

lemma register_device_state:
  assumes "(r, self', g) = register_device X now E f self name pk"
  shows "self' = self\<lparr>pdb_db := (pdb_db self)\<lparr>db_devices := bt_insert (derive_device_id X pk)
            \<lparr>dev_id = derive_device_id X pk, dev_name = name, dev_public_key = pk, dev_paired_at = now,
             dev_revoked = False, dev_revoked_at = None\<rparr> (db_devices (pdb_db self)), db_pending := None\<rparr>\<rparr>"
  using arg_cong [OF assms, of "\<lambda>x. fst (snd x)"] by (simp add: register_device_def Let_def)

lemma dead_state: "(r, self', g) = save_then E f s x \<Longrightarrow> self' = s"
  by (metis save_then_state fst_conv snd_conv)

lemma db_inv_insert:
  assumes "db_inv X self" and "device_ok X (d, dev)"
  shows "db_inv X (self\<lparr>pdb_db := (pdb_db self)\<lparr>db_devices := bt_insert d dev (db_devices (pdb_db self))\<rparr>\<rparr>)"
proof -
  have "\<forall>e \<in> set (bt_insert d dev (db_devices (pdb_db self))). device_ok X e"
    using assms set_bt_insert [of d dev "db_devices (pdb_db self)"] unfolding db_inv_def by auto
  with assms(1) show ?thesis by (simp add: db_inv_def)
qed

lemma accept_code_inv:
  assumes "db_inv X self" and "accept_code X clock E f self inp nm pk = (r, self', g)"
  shows "db_inv X self'"
  using assms(2)
proof (cases rule: accept_code_cases)
  case (rejected e)
  with assms(1) show ?thesis by simp
next
  case (dead pend e)
  have "self' = set_pending None self" using dead(3) by (rule dead_state)
  with assms(1) show ?thesis by (auto intro!: db_inv_pending)
next
  case (wrong pend code)
  show ?thesis unfolding wrong_code_state [OF wrong(6)]
    using assms(1) by (intro db_inv_pending) (auto simp: not_le split: if_splits)
next
  case (redeemed pend code)
  let ?dev = "\<lparr>dev_id = derive_device_id X pk, dev_name = trim nm, dev_public_key = pk,
     dev_paired_at = now_unix clock, dev_revoked = False, dev_revoked_at = None\<rparr>"
  have "db_inv X (self\<lparr>pdb_db := (pdb_db self)\<lparr>db_devices :=
      bt_insert (derive_device_id X pk) ?dev (db_devices (pdb_db self))\<rparr>\<rparr>)"
    by (intro db_inv_insert assms(1)) (simp add: device_ok_def)
  from db_inv_pending [OF this, of None] show ?thesis
    unfolding register_device_state [OF redeemed(7)] by simp
qed

lemma revoke_state:
  assumes "revoke clock E f self d = (r, self', g)"
  shows "self' = self \<or> (\<exists>dev. map_of (db_devices (pdb_db self)) d = Some dev \<and> \<not> dev_revoked dev
     \<and> self' = self\<lparr>pdb_db := (pdb_db self)\<lparr>db_devices := bt_insert d
         (dev\<lparr>dev_revoked := True, dev_revoked_at := Some (now_unix clock)\<rparr>) (db_devices (pdb_db self))\<rparr>\<rparr>)"
proof (cases "\<exists>dev. map_of (db_devices (pdb_db self)) d = Some dev \<and> \<not> dev_revoked dev")
  case True
  then obtain dev where "map_of (db_devices (pdb_db self)) d = Some dev" "\<not> dev_revoked dev" by blast
  with assms show ?thesis by (simp add: revoke_def Let_def dead_state [OF sym])
next
  case False
  with assms show ?thesis by (auto simp: revoke_def Let_def split: option.splits if_splits)
qed

lemma revoke_inv:
  assumes "db_inv X self" and "revoke clock E f self d = (r, self', g)"
  shows "db_inv X self'"
  using revoke_state [OF assms(2)]
proof (elim disjE exE conjE)
  fix dev assume dev: "map_of (db_devices (pdb_db self)) d = Some dev"
    and self': "self' = self\<lparr>pdb_db := (pdb_db self)\<lparr>db_devices := bt_insert d
         (dev\<lparr>dev_revoked := True, dev_revoked_at := Some (now_unix clock)\<rparr>) (db_devices (pdb_db self))\<rparr>\<rparr>"
  have "(d, dev) \<in> set (db_devices (pdb_db self))" using dev by (rule map_of_SomeD)
  then have "device_ok X (d, dev)" using assms(1) unfolding db_inv_def by blast
  then show ?thesis unfolding self' by (intro db_inv_insert assms(1)) (simp add: device_ok_def)
qed (use assms(1) in simp)

lemma new_code_inv:
  assumes "db_inv X self" and "new_code X rnds sr clock E f self = Some (r, self', g)"
  shows "db_inv X self'"
proof -
  have "self' = self \<or> (\<exists>pend. self' = set_pending (Some pend) self \<and> pc_attempts pend = 0)"
    using assms(2) by (fastforce simp: new_code_def Let_def dest!: dead_state [OF sym]
        split: option.splits sum.splits prod.splits)
  then show ?thesis using assms(1) by (auto simp: MAX_CODE_ATTEMPTS_def intro!: db_inv_pending)
qed

section \<open>Runs and the guess budget\<close>

datatype db_op =
    NewCode "bytes option list" "bytes option" "u64 option" save_env fs
  | AcceptCode "u64 option" save_env fs string string string
  | Revoke "u64 option" save_env fs string

fun db_step :: "crypto_ext \<Rightarrow> PairingDb \<Rightarrow> db_op \<Rightarrow> PairingDb" where
  "db_step X self (NewCode rnds sr clock E f) =
     (case new_code X rnds sr clock E f self of None \<Rightarrow> self | Some (_, self', _) \<Rightarrow> self')"
| "db_step X self (AcceptCode clock E f inp nm pk) = fst (snd (accept_code X clock E f self inp nm pk))"
| "db_step X self (Revoke clock E f d) = fst (snd (revoke clock E f self d))"

lemma db_step_inv: "db_inv X self \<Longrightarrow> db_inv X (db_step X self op)"
proof (cases op)
  case (NewCode rnds sr clock E f)
  assume "db_inv X self"
  with NewCode show ?thesis using new_code_inv [of X self rnds sr clock E f] by (auto split: option.splits prod.splits)
next
  case (AcceptCode clock E f inp nm pk)
  assume "db_inv X self"
  with AcceptCode show ?thesis using accept_code_inv [of X self clock E f inp nm pk] by (metis db_step.simps(2) prod.collapse)
next
  case (Revoke clock E f d)
  assume "db_inv X self"
  with Revoke show ?thesis using revoke_inv [of X self clock E f d] by (metis db_step.simps(3) prod.collapse)
qed

interpretation pairing_run: invariant_machine "db_step X" "db_inv X" for X
  by unfold_locales (rule db_step_inv)

text \<open>
  A call is a guess when it reaches the comparison with the pending code: the code parses, the key and the name are
  accepted, and a code is pending, not expired and with attempts left.  Whether the database is saved
  afterwards does not matter.  \<open>matches\<close> is a guess that is right.
\<close>

definition compares :: "crypto_ext \<Rightarrow> u64 option \<Rightarrow> PairingDb \<Rightarrow> string \<Rightarrow> string \<Rightarrow> string \<Rightarrow> bool" where
  "compares X clock self code_input device_name pk_hex \<longleftrightarrow>
     is_ok (PairingCode_parse code_input) \<and> is_ok (parse_public_key_hex X pk_hex)
     \<and> trim device_name \<noteq> [] \<and> chars_count (trim device_name) \<le> MAX_NAME_LEN
     \<and> (case db_pending (pdb_db self) of
           None \<Rightarrow> False
         | Some pend \<Rightarrow> now_unix clock \<le> pc_expires_at pend \<and> pc_attempts pend < MAX_CODE_ATTEMPTS)"

definition matches :: "crypto_ext \<Rightarrow> PairingDb \<Rightarrow> string \<Rightarrow> bool" where
  "matches X self code_input \<longleftrightarrow>
     (case (db_pending (pdb_db self), PairingCode_parse code_input) of
        (Some pend, Inr code) \<Rightarrow> hash_code X (as_str code) (pc_salt pend) = pc_code_hash pend
      | _ \<Rightarrow> False)"

lemma accept_code_compares:
  assumes "compares X clock self inp nm pk"
  obtains pend where "db_pending (pdb_db self) = Some pend" "pc_attempts pend < MAX_CODE_ATTEMPTS"
    "accept_code X clock E f self inp nm pk =
       (if matches X self inp then register_device X (now_unix clock) E f self (trim nm) pk else wrong_code E f self pend)"
proof -
  obtain code key pend where parts: "PairingCode_parse inp = Ok code" "parse_public_key_hex X pk = Ok key"
      "trim nm \<noteq> []" "\<not> MAX_NAME_LEN < chars_count (trim nm)" "db_pending (pdb_db self) = Some pend"
      "\<not> pc_expires_at pend < now_unix clock" "\<not> MAX_CODE_ATTEMPTS \<le> pc_attempts pend"
    using assms by (auto simp: compares_def not_le not_less elim!: is_okE split: option.splits)
  show ?thesis by (rule that [of pend]) (use parts in \<open>simp_all add: accept_code_def matches_def\<close>)
qed

text \<open>A call that is no guess answers the same whatever code is pending, and changes no device.\<close>

abbreviation other_code :: "string \<Rightarrow> PairingDb \<Rightarrow> PairingDb" where
  "other_code h self \<equiv> set_pending (map_option (\<lambda>pend. pend\<lparr>pc_code_hash := h\<rparr>) (db_pending (pdb_db self))) self"

lemma accept_code_no_guess:
  assumes "\<not> compares X clock self inp nm pk"
  shows "fst (accept_code X clock E f (other_code h self) inp nm pk) = fst (accept_code X clock E f self inp nm pk)"
    and "db_devices (pdb_db (fst (snd (accept_code X clock E f self inp nm pk)))) = db_devices (pdb_db self)"
  using assms
  by (auto simp: compares_def accept_code_def Let_def not_le not_less split: option.split sum.split)

text \<open>How many more guesses the pending code allows, the answers that judge a guess, and the guesses among calls.\<close>

definition guesses_left :: "PairingDb \<Rightarrow> nat" where
  "guesses_left self =
     (case db_pending (pdb_db self) of
        None \<Rightarrow> 0
      | Some pend \<Rightarrow> unat MAX_CODE_ATTEMPTS - unat (pc_attempts pend))"

definition judged :: "PairingError + Device \<Rightarrow> bool" where
  "judged r = (case r of Inr _ \<Rightarrow> True | Inl e \<Rightarrow> e = WrongCode \<or> e = TooManyAttempts)"

fun accept_all ::
  "crypto_ext \<Rightarrow> PairingDb \<Rightarrow> (u64 option \<times> save_env \<times> fs \<times> string \<times> string \<times> string) list
     \<Rightarrow> (PairingError + Device) list \<times> PairingDb" where
  "accept_all X self [] = ([], self)"
| "accept_all X self ((clock, E, f, inp, nm, pk) # rest) =
     (case accept_code X clock E f self inp nm pk of
        (r, self', _) \<Rightarrow> (case accept_all X self' rest of (rs, self'') \<Rightarrow> (r # rs, self'')))"

lemma accept_code_budget:
  assumes "db_inv X self" and "accept_code X clock E f self inp nm pk = (r, self', g)"
  shows "guesses_left self' + (if judged r then 1 else 0) \<le> guesses_left self"
  using assms(2)
proof (cases rule: accept_code_cases)
  case (rejected e)
  then show ?thesis by (auto simp: judged_def)
next
  case (dead pend e)
  then have "pc_attempts pend < MAX_CODE_ATTEMPTS" using assms(1) by (auto simp: db_inv_def)
  with dead show ?thesis
    by (auto simp: guesses_left_def dead_state [OF dead(3)] word_less_nat_alt)
next
  case (wrong pend code)
  have "unat (pc_attempts pend + 1) = unat (pc_attempts pend) + 1"
    using wrong(4) by (intro unat_plus_if' [THEN trans]) (auto simp: not_le word_less_nat_alt MAX_CODE_ATTEMPTS_def)
  with wrong(1,4) show ?thesis
    by (auto simp: guesses_left_def wrong_code_state [OF wrong(6)] not_le word_less_nat_alt)
next
  case (redeemed pend code)
  then show ?thesis
    by (auto simp: guesses_left_def register_device_state [OF redeemed(7)] not_le word_less_nat_alt)
qed

lemma accept_all_budget:
  "db_inv X self \<Longrightarrow> length (filter judged (fst (accept_all X self calls))) \<le> guesses_left self"
proof (induction X self calls rule: accept_all.induct)
  case (2 X self clock E f inp nm pk rest)
  obtain r self' g where acc: "accept_code X clock E f self inp nm pk = (r, self', g)"
    using prod_cases3 by blast
  have "length (filter judged (fst (accept_all X self' rest))) \<le> guesses_left self'"
    using 2(1) [OF acc [symmetric] refl] accept_code_inv [OF 2(2) acc] by simp
  with accept_code_budget [OF 2(2) acc] show ?case
    by (auto simp: acc split: prod.splits if_splits)
qed simp

fun guesses ::
  "crypto_ext \<Rightarrow> PairingDb \<Rightarrow> (u64 option \<times> save_env \<times> fs \<times> string \<times> string \<times> string) list \<Rightarrow> nat" where
  "guesses X self [] = 0"
| "guesses X self ((clock, E, f, inp, nm, pk) # rest) =
     (if compares X clock self inp nm pk then 1 else 0)
     + guesses X (fst (snd (accept_code X clock E f self inp nm pk))) rest"

lemma guess_costs:
  assumes "compares X clock self inp nm pk" and "accept_code X clock E f self inp nm pk = (r, self', g)"
  shows "guesses_left self' + 1 \<le> guesses_left self"
proof -
  obtain pend where pend: "db_pending (pdb_db self) = Some pend" "pc_attempts pend < MAX_CODE_ATTEMPTS"
      and out: "(r, self', g) = (if matches X self inp then register_device X (now_unix clock) E f self (trim nm) pk
        else wrong_code E f self pend)"
    using accept_code_compares [OF assms(1)] assms(2) by metis
  have inc: "unat (pc_attempts pend + 1) = unat (pc_attempts pend) + 1"
    using pend(2) by (intro unat_plus_if' [THEN trans]) (auto simp: word_less_nat_alt MAX_CODE_ATTEMPTS_def)
  show ?thesis
  proof (cases "matches X self inp")
    case True
    then have "(r, self', g) = register_device X (now_unix clock) E f self (trim nm) pk" using out by simp
    from register_device_state [OF this] pend show ?thesis by (simp add: guesses_left_def word_less_nat_alt)
  next
    case False
    then have "(r, self', g) = wrong_code E f self pend" using out by simp
    from wrong_code_state [OF this] pend inc show ?thesis by (auto simp: guesses_left_def word_less_nat_alt)
  qed
qed

lemma guesses_budget: "db_inv X self \<Longrightarrow> guesses X self calls \<le> guesses_left self"
proof (induction X self calls rule: guesses.induct)
  case (2 X self clock E f inp nm pk rest)
  obtain r self' g where acc: "accept_code X clock E f self inp nm pk = (r, self', g)" using prod_cases3 by blast
  have rest: "guesses X self' rest \<le> guesses_left self'"
    using 2(1) accept_code_inv [OF 2(2) acc] by (simp add: acc)
  show ?case
  proof (cases "compares X clock self inp nm pk")
    case True
    from rest guess_costs [OF True acc] show ?thesis by (simp add: acc)
  next
    case False
    from rest accept_code_budget [OF 2(2) acc] False show ?thesis by (simp add: acc split: if_splits)
  qed
qed simp

lemma guesses_left_le: "guesses_left self \<le> 5"
  by (auto simp: guesses_left_def MAX_CODE_ATTEMPTS_def split: option.splits)

section \<open>Devices under a run\<close>

lemma accept_code_devices:
  assumes "accept_code X clock E f self inp nm pk = (r, self', g)"
  shows "db_devices (pdb_db self') = db_devices (pdb_db self) \<or>
    (\<exists>pend code. db_pending (pdb_db self) = Some pend \<and> PairingCode_parse inp = Ok code
       \<and> \<not> pc_expires_at pend < now_unix clock \<and> pc_attempts pend < MAX_CODE_ATTEMPTS
       \<and> hash_code X (as_str code) (pc_salt pend) = pc_code_hash pend \<and> is_ok (parse_public_key_hex X pk)
       \<and> db_devices (pdb_db self') = bt_insert (derive_device_id X pk)
            \<lparr>dev_id = derive_device_id X pk, dev_name = trim nm, dev_public_key = pk,
             dev_paired_at = now_unix clock, dev_revoked = False, dev_revoked_at = None\<rparr>
            (db_devices (pdb_db self))
       \<and> db_pending (pdb_db self') = None)"
  using assms
proof (cases rule: accept_code_cases)
  case (dead pend e)
  then show ?thesis by (auto simp: dead_state [OF dead(3)])
next
  case (wrong pend code)
  then show ?thesis by (auto simp: wrong_code_state [OF wrong(6)])
next
  case (redeemed pend code)
  then show ?thesis by (auto simp: register_device_state [OF redeemed(7)] not_le)
qed simp

lemma new_code_devices:
  assumes "new_code X rnds sr clock E f self = Some (r, self', g)"
  shows "db_devices (pdb_db self') = db_devices (pdb_db self)"
  using assms by (auto simp: new_code_def Let_def dest!: dead_state [OF sym] split: option.splits sum.splits prod.splits)

definition revoked_in :: "string \<Rightarrow> PairingDb \<Rightarrow> bool" where
  "revoked_in d self \<longleftrightarrow> (\<exists>dev. map_of (db_devices (pdb_db self)) d = Some dev \<and> dev_revoked dev)"

text \<open>A redemption of the pending code for an identity, and runs in which there is none.\<close>

fun redeems :: "crypto_ext \<Rightarrow> string \<Rightarrow> PairingDb \<Rightarrow> db_op \<Rightarrow> bool" where
  "redeems X d self (AcceptCode clock E f inp nm pk) \<longleftrightarrow>
     derive_device_id X pk = d \<and> compares X clock self inp nm pk \<and> matches X self inp"
| "redeems X d self _ \<longleftrightarrow> False"

fun unredeemed :: "crypto_ext \<Rightarrow> string \<Rightarrow> PairingDb \<Rightarrow> db_op list \<Rightarrow> bool" where
  "unredeemed X d self [] \<longleftrightarrow> True"
| "unredeemed X d self (op # ops) \<longleftrightarrow> \<not> redeems X d self op \<and> unredeemed X d (db_step X self op) ops"

lemma accept_revoked:
  assumes "revoked_in d self" and "\<not> redeems X d self (AcceptCode clock E f inp nm pk)"
  shows "revoked_in d (fst (snd (accept_code X clock E f self inp nm pk)))"
proof (cases "compares X clock self inp nm pk")
  case False
  from accept_code_no_guess(2) [OF this] assms(1) show ?thesis by (simp add: revoked_in_def)
next
  case True
  from accept_code_compares [OF this] obtain pend where
      out: "accept_code X clock E f self inp nm pk =
        (if matches X self inp then register_device X (now_unix clock) E f self (trim nm) pk else wrong_code E f self pend)"
    by metis
  obtain r self' g where acc: "accept_code X clock E f self inp nm pk = (r, self', g)" using prod_cases3 by blast
  show ?thesis
  proof (cases "matches X self inp")
    case matched: True
    then have "derive_device_id X pk \<noteq> d" using assms(2) True by simp
    moreover have "self' = self\<lparr>pdb_db := (pdb_db self)\<lparr>db_devices := bt_insert (derive_device_id X pk)
            \<lparr>dev_id = derive_device_id X pk, dev_name = trim nm, dev_public_key = pk, dev_paired_at = now_unix clock,
             dev_revoked = False, dev_revoked_at = None\<rparr> (db_devices (pdb_db self)), db_pending := None\<rparr>\<rparr>"
      using out acc matched by (intro register_device_state) simp
    ultimately show ?thesis using assms(1) by (simp add: acc revoked_in_def)
  next
    case False
    then have "(r, self', g) = wrong_code E f self pend" using out acc by simp
    from wrong_code_state [OF this] assms(1) show ?thesis by (simp add: acc revoked_in_def)
  qed
qed

lemma db_step_revoked:
  assumes "revoked_in d self" and "\<not> redeems X d self op"
  shows "revoked_in d (db_step X self op)"
proof (cases op)
  case (NewCode rnds sr clock E f)
  with assms(1) show ?thesis using new_code_devices [of X rnds sr clock E f self]
    by (auto simp: revoked_in_def split: option.splits prod.splits)
next
  case (AcceptCode clock E f inp nm pk)
  with assms accept_revoked show ?thesis by simp
next
  case (Revoke clock E f d')
  obtain r self' g where rev: "revoke clock E f self d' = (r, self', g)" using prod_cases3 by blast
  show ?thesis using revoke_state [OF rev] assms(1) Revoke by (auto simp: rev revoked_in_def)
qed

lemma run_revoked:
  "revoked_in d self \<Longrightarrow> unredeemed X d self ops \<Longrightarrow> revoked_in d (foldl (db_step X) self ops)"
  by (induction ops arbitrary: self) (auto intro: db_step_revoked)

lemma revoked_not_active:
  assumes "db_inv X self" and "revoked_in d self" and "dev \<in> set (active_devices self)"
  shows "dev_id dev \<noteq> d"
proof
  assume eq: "dev_id dev = d"
  from assms(3) obtain k where k: "(k, dev) \<in> set (db_devices (pdb_db self))" "\<not> dev_revoked dev"
    by (auto simp: active_devices_def)
  with assms(1) eq have "k = d" by (auto simp: db_inv_def device_ok_def)
  moreover have "al_wf (db_devices (pdb_db self))" using assms(1) by (simp add: db_inv_def bt_wf_al_wf)
  ultimately have "map_of (db_devices (pdb_db self)) d = Some dev" using k(1) al_get_iff by metis
  with assms(2) k(2) show False by (auto simp: revoked_in_def)
qed

section \<open>Properties\<close>

definition sample_codec :: db_codec where
  "sample_codec = \<lparr>db_to_vec = (\<lambda>_. Ok [1]), db_from_slice = (\<lambda>_. Ok DbFile_default)\<rparr>"

definition sample_env :: save_env where
  "sample_env = \<lparr>se_codec = sample_codec, se_io = (\<lambda>_. None), se_cmode = 420\<rparr>"

definition sample_key :: string where
  "sample_key = replicate 64 (CHR ''a'')"

definition sample_db :: PairingDb where
  "sample_db = \<lparr>pdb_path = [''emersia'', ''pairing.json''],
     pdb_db = \<lparr>db_version = 1, db_devices = [], db_pending =
       Some \<lparr>pc_code_hash = hash_code sample_crypto ''123456'' ''00'', pc_salt = ''00'',
             pc_expires_at = 1000, pc_attempts = 0\<rparr>\<rparr>\<rparr>"

lemma sample_db_inv: "db_inv sample_crypto sample_db"
  by (simp add: db_inv_def sample_db_def MAX_CODE_ATTEMPTS_def)

text \<open>
  C15 Guess budget: between two issues of a code, however many redemption attempts are made, with whatever clocks
  and whether or not the database can be saved, at most five of them compare a code with the pending one;
  every other attempt answers the same whatever code is pending, and adds or changes no device.
\<close>

theorem at_most_five_guesses:
  assumes "db_inv X self"
  shows "guesses X self calls \<le> 5
         \<and> (\<forall>s clock E f inp nm pk h. \<not> compares X clock s inp nm pk \<longrightarrow>
               fst (accept_code X clock E f (other_code h s) inp nm pk) = fst (accept_code X clock E f s inp nm pk)
               \<and> db_devices (pdb_db (fst (snd (accept_code X clock E f s inp nm pk)))) = db_devices (pdb_db s))"
proof (intro conjI allI impI)
  show "guesses X self calls \<le> 5" using guesses_budget [OF assms, of calls] guesses_left_le [of self] by simp
qed (use accept_code_no_guess in \<open>blast+\<close>)

text \<open>Nine wrong guesses on a file system where nothing can be written.\<close>

definition full_disk :: save_env where
  "full_disk = sample_env\<lparr>se_io := (\<lambda>_. Some ''disk full'')\<rparr>"

definition wrong_guesses :: "(u64 option \<times> save_env \<times> fs \<times> string \<times> string \<times> string) list" where
  "wrong_guesses = replicate 9 (Some 5, full_disk, (\<lambda>_. None), ''654321'', ''tv'', sample_key)"

definition sample_pending_code :: PendingCode where
  "sample_pending_code = \<lparr>pc_code_hash = hash_code sample_crypto ''123456'' ''00'', pc_salt = ''00'',
             pc_expires_at = 1000, pc_attempts = 0\<rparr>"

lemma sample_call_ok:
  "is_ok (parse_public_key_hex sample_crypto sample_key)" "trim ''tv'' = ''tv''" "\<not> MAX_NAME_LEN < chars_count ''tv''"
proof -
  show "is_ok (parse_public_key_hex sample_crypto sample_key)" by code_simp
qed (simp_all add: trim_plain plain_char_def MAX_NAME_LEN_def chars_count_def)

lemma sample_wrong:
  assumes "db_pending (pdb_db self) = Some sample_pending_code"
  shows "compares sample_crypto (Some 5) self ''654321'' ''tv'' sample_key" "\<not> matches sample_crypto self ''654321''"
    "accept_code sample_crypto (Some 5) E f self ''654321'' ''tv'' sample_key = wrong_code E f self sample_pending_code"
proof -
  have code: "PairingCode_parse ''654321'' = Ok (PairingCode ''654321'')" by code_simp
  have hash: "hash_code sample_crypto ''654321'' ''00'' \<noteq> hash_code sample_crypto ''123456'' ''00''" by code_simp
  show guess: "compares sample_crypto (Some 5) self ''654321'' ''tv'' sample_key"
    using sample_call_ok assms
    by (simp add: compares_def code not_less sample_pending_code_def now_unix_def MAX_CODE_ATTEMPTS_def)
  show wrong: "\<not> matches sample_crypto self ''654321''"
    using assms hash by (simp add: matches_def code sample_pending_code_def)
  show "accept_code sample_crypto (Some 5) E f self ''654321'' ''tv'' sample_key = wrong_code E f self sample_pending_code"
    using accept_code_compares [OF guess] wrong assms by (metis option.inject)
qed

theorem at_most_five_guesses_witness:
  "guesses sample_crypto sample_db wrong_guesses \<le> 5 \<and> compares sample_crypto (Some 5) sample_db ''654321'' ''tv'' sample_key
   \<and> fst (accept_code sample_crypto (Some 5) full_disk (\<lambda>_. None) sample_db ''654321'' ''tv'' sample_key)
       = Err (PairingIo ''disk full'')"
proof -
  have pend: "db_pending (pdb_db sample_db) = Some sample_pending_code" by (simp add: sample_db_def sample_pending_code_def)
  have "fst (wrong_code full_disk (\<lambda>_. None) sample_db sample_pending_code) = Err (PairingIo ''disk full'')"
    by (simp add: wrong_code_def save_then_def full_disk_def sample_env_def sample_codec_def db_save_def PairingDb_save_def
        write_tmp_def sample_db_def Let_def)
  then show ?thesis using at_most_five_guesses [OF sample_db_inv, of wrong_guesses] sample_wrong [OF pend] by simp
qed

text \<open>
  C16 Single use: once a code has been redeemed, no later redemption succeeds, is judged or is even compared with a
  code until a new one is issued.
\<close>

theorem code_single_use:
  assumes "db_inv X self" and "accept_code X clock E f self inp nm pk = (Ok dev, self', g)"
  shows "(\<forall>r \<in> set (fst (accept_all X self' calls)). \<not> is_ok r \<and> \<not> judged r) \<and> guesses X self' calls = 0"
proof -
  have "db_pending (pdb_db self') = None"
    using assms(2)
  proof (cases rule: accept_code_cases)
    case (redeemed pend code)
    then show ?thesis by (simp add: register_device_state [OF redeemed(7)])
  next
    case (wrong pend code)
    then show ?thesis by (auto simp: wrong_code_def Let_def dest!: save_then_Ok [OF sym])
  next
    case (dead pend e)
    then show ?thesis by (auto dest!: save_then_Ok [OF sym])
  qed simp
  then have "guesses_left self' = 0" by (simp add: guesses_left_def)
  with accept_all_budget [OF accept_code_inv [OF assms], of calls] guesses_budget [OF accept_code_inv [OF assms], of calls]
  have "filter judged (fst (accept_all X self' calls)) = []" and none: "guesses X self' calls = 0" by simp_all
  then have "\<not> judged r" if "r \<in> set (fst (accept_all X self' calls))" for r
    using that by (auto simp: filter_empty_conv)
  moreover have "is_ok r \<Longrightarrow> judged r" for r by (auto simp: judged_def elim: is_okE)
  ultimately show ?thesis using none by blast
qed

lemma register_device_ok:
  assumes "\<And>s. pdb_path s = pdb_path self \<Longrightarrow> is_ok (fst (db_save E f s))"
  shows "\<exists>dev self' g. register_device X now E f self name pk = (Ok dev, self', g)"
proof -
  have "\<exists>x. save_then E f s (Ok r) = (Ok r, s, x)" if "pdb_path s = pdb_path self" for s and r :: Device
    using assms [OF that] by (auto simp: save_then_def elim!: is_okE split: prod.splits)
  then show ?thesis unfolding register_device_def Let_def
    by (metis (no_types, lifting) PairingDb.select_convs(1) PairingDb.surjective PairingDb.update_convs(2))
qed

lemma sample_save_ok:
  "pdb_path self = [''emersia'', ''pairing.json''] \<Longrightarrow> is_ok (fst (db_save sample_env (\<lambda>_. None) self))"
  by (simp add: db_save_def sample_env_def PairingDb_save_def create_dir_all_def is_file_def
      set_permissions_def sample_codec_def write_tmp_def with_extension_def)

lemma sample_accept_code:
  assumes "pdb_path self = [''emersia'', ''pairing.json'']" and "db_pending (pdb_db self) = Some sample_pending_code"
    and "PairingCode_parse inp = Ok (PairingCode ''123456'')"
  shows "\<exists>dev self' g. accept_code sample_crypto (Some 5) sample_env (\<lambda>_. None) self inp ''tv'' sample_key = (Ok dev, self', g)"
proof -
  have "accept_code sample_crypto (Some 5) sample_env (\<lambda>_. None) self inp ''tv'' sample_key
      = register_device sample_crypto 5 sample_env (\<lambda>_. None) self ''tv'' sample_key"
    using sample_call_ok(1) by (auto simp: accept_code_def assms(2,3) sample_call_ok(2,3) sample_pending_code_def now_unix_def MAX_CODE_ATTEMPTS_def elim: is_okE)
  then show ?thesis using register_device_ok [of self sample_env "\<lambda>_. None"] sample_save_ok assms(1) by metis
qed

lemma sample_redeem:
  "\<exists>dev self' g. accept_code sample_crypto (Some 5) sample_env (\<lambda>_. None) sample_db ''123-456'' ''tv'' sample_key
     = (Ok dev, self', g)"
proof (rule sample_accept_code)
  show "PairingCode_parse ''123-456'' = Ok (PairingCode ''123456'')" by code_simp
qed (simp_all add: sample_db_def sample_pending_code_def)

theorem code_single_use_witness:
  "\<exists>dev self' g. accept_code sample_crypto (Some 5) sample_env (\<lambda>_. None) sample_db ''123-456'' ''tv'' sample_key
       = (Ok dev, self', g)
     \<and> (\<forall>r \<in> set (fst (accept_all sample_crypto self' [(Some 5, sample_env, (\<lambda>_. None), ''123456'', ''tv'', sample_key)])).
          \<not> is_ok r)"
  using sample_redeem code_single_use [OF sample_db_inv] by blast

text \<open>
  Only the pending code adds trust: when a redemption changes the stored devices, the code given
  hashes to the pending one, which is not expired and has attempts left, the key is a well-formed
  public key, and the one change is the entry of that key, no longer revoked; the code is consumed.
\<close>

theorem device_only_by_code:
  assumes "accept_code X clock E f self inp nm pk = (r, self', g)"
    and "db_devices (pdb_db self') \<noteq> db_devices (pdb_db self)"
  shows "\<exists>pend code. db_pending (pdb_db self) = Some pend \<and> PairingCode_parse inp = Ok code
       \<and> \<not> pc_expires_at pend < now_unix clock \<and> pc_attempts pend < MAX_CODE_ATTEMPTS
       \<and> hash_code X (as_str code) (pc_salt pend) = pc_code_hash pend \<and> is_ok (parse_public_key_hex X pk)
       \<and> db_devices (pdb_db self') = bt_insert (derive_device_id X pk)
            \<lparr>dev_id = derive_device_id X pk, dev_name = trim nm, dev_public_key = pk,
             dev_paired_at = now_unix clock, dev_revoked = False, dev_revoked_at = None\<rparr>
            (db_devices (pdb_db self))
       \<and> db_pending (pdb_db self') = None"
  using accept_code_devices [OF assms(1)] assms(2) by blast

theorem device_only_by_code_witness:
  "\<exists>r self' g. accept_code sample_crypto (Some 5) sample_env (\<lambda>_. None) sample_db ''123-456'' ''tv'' sample_key
       = (r, self', g)
     \<and> db_devices (pdb_db self') \<noteq> [] \<and> db_pending (pdb_db self') = None"
proof -
  obtain dev self' g where acc: "accept_code sample_crypto (Some 5) sample_env (\<lambda>_. None) sample_db ''123-456'' ''tv'' sample_key
       = (Ok dev, self', g)" using sample_redeem by blast
  have "db_devices (pdb_db self') \<noteq> []"
    using acc
  proof (cases rule: accept_code_cases)
    case (redeemed pend code)
    show ?thesis unfolding register_device_state [OF redeemed(7)] by (simp add: sample_db_def)
  next
    case (wrong pend code)
    then show ?thesis by (auto simp: wrong_code_def Let_def dest!: save_then_Ok [OF sym])
  next
    case (dead pend e)
    then show ?thesis by (auto dest!: save_then_Ok [OF sym])
  qed simp
  moreover have "db_devices (pdb_db sample_db) = []" by (simp add: sample_db_def)
  ultimately show ?thesis using device_only_by_code [OF acc] acc by auto
qed

text \<open>
  C17 Revocation holds: after a successful revoke the device is in no list of active devices, whatever codes are
  issued, redeemed for other keys or tried for its own key (malformed, wrong, expired, burned) and devices
  revoked, until the pending code is given correctly, in time and with attempts left, for that very identity.
\<close>

theorem revoked_until_repaired:
  assumes "db_inv X self" and "revoke clock E f self d = (Ok dev, self', g)"
    and "unredeemed X d self' ops"
  shows "\<forall>a \<in> set (active_devices (foldl (db_step X) self' ops)). dev_id a \<noteq> d"
proof -
  have "revoked_in d self'"
    using assms(2) by (auto simp: revoke_def Let_def revoked_in_def split: option.splits if_splits
        dest!: save_then_Ok)
  then have "revoked_in d (foldl (db_step X) self' ops)" using run_revoked assms(3) by blast
  moreover have "db_inv X (foldl (db_step X) self' ops)"
    using pairing_run.run_inv [OF revoke_inv [OF assms(1,2)]] .
  ultimately show ?thesis using revoked_not_active by blast
qed

definition sample_device :: Device where
  "sample_device = \<lparr>dev_id = derive_device_id sample_crypto sample_key, dev_name = ''tv'',
     dev_public_key = sample_key, dev_paired_at = 1, dev_revoked = False, dev_revoked_at = None\<rparr>"

definition sample_paired :: PairingDb where
  "sample_paired = sample_db\<lparr>pdb_db := (pdb_db sample_db)\<lparr>db_devices := [(dev_id sample_device, sample_device)]\<rparr>\<rparr>"

lemma sample_paired_inv: "db_inv sample_crypto sample_paired"
  by (simp add: db_inv_def device_ok_def sample_paired_def sample_device_def sample_db_def MAX_CODE_ATTEMPTS_def bt_wf_def)

lemma revoke_saved:
  assumes "map_of (db_devices (pdb_db self)) d = Some dev" and "\<not> dev_revoked dev"
    and "\<And>s. pdb_path s = pdb_path self \<Longrightarrow> is_ok (fst (db_save E f s))"
  shows "\<exists>dev' self' g. revoke clock E f self d = (Ok dev', self', g)"
proof -
  let ?dev = "dev\<lparr>dev_revoked := True, dev_revoked_at := Some (now_unix clock)\<rparr>"
  let ?db = "self\<lparr>pdb_db := (pdb_db self)\<lparr>db_devices := bt_insert d ?dev (db_devices (pdb_db self))\<rparr>\<rparr>"
  obtain g where "db_save E f ?db = (Ok (), g)" using assms(3) [of ?db] by (cases "db_save E f ?db") (auto elim!: is_okE)
  then show ?thesis using assms(1,2) by (simp add: revoke_def Let_def save_then_def)
qed

lemma sample_revoke:
  "\<exists>dev self' g. revoke clock sample_env (\<lambda>_. None) sample_paired (dev_id sample_device) = (Ok dev, self', g)"
proof -
  have "map_of (db_devices (pdb_db sample_paired)) (dev_id sample_device) = Some sample_device" "\<not> dev_revoked sample_device"
      "pdb_path sample_paired = [''emersia'', ''pairing.json'']"
    by (simp_all add: sample_paired_def sample_device_def sample_db_def)
  then show ?thesis using revoke_saved [of sample_paired _ _ sample_env "\<lambda>_. None" clock] sample_save_ok by metis
qed

text \<open>Attempts for the revoked key: a wrong code, an empty name, the right code too late, and a code that cannot be issued.\<close>

definition failed_attempts :: "db_op list" where
  "failed_attempts =
     [AcceptCode (Some 5) sample_env (\<lambda>_. None) ''654321'' ''tv'' sample_key,
      AcceptCode (Some 5) full_disk (\<lambda>_. None) ''123456'' [] sample_key,
      AcceptCode (Some 2000) sample_env (\<lambda>_. None) ''123456'' ''tv'' sample_key,
      NewCode [] None None sample_env (\<lambda>_. None)]"

theorem revoked_until_repaired_witness:
  "\<exists>dev self' g. revoke (Some 9) sample_env (\<lambda>_. None) sample_paired (dev_id sample_device) = (Ok dev, self', g)
     \<and> derive_device_id sample_crypto sample_key = dev_id sample_device
     \<and> (\<forall>a \<in> set (active_devices (foldl (db_step sample_crypto) self' failed_attempts)). dev_id a \<noteq> dev_id sample_device)"
proof -
  obtain dev self' g where r: "revoke (Some 9) sample_env (\<lambda>_. None) sample_paired (dev_id sample_device) = (Ok dev, self', g)"
    using sample_revoke by blast
  have "db_pending (pdb_db self') = Some sample_pending_code"
    using revoke_state [OF r] by (auto simp: sample_paired_def sample_db_def sample_pending_code_def)
  note first = sample_wrong [OF this]
  have trim_nil: "trim [] = []" by code_simp
  let ?s1 = "set_pending (Some (sample_pending_code\<lparr>pc_attempts := 1\<rparr>)) self'"
  have "fst (snd (wrong_code sample_env (\<lambda>_. None) self' sample_pending_code)) = ?s1"
    by (simp add: wrong_code_def Let_def sample_pending_code_def MAX_CODE_ATTEMPTS_def word_le_nat_alt)
  moreover have "db_pending (pdb_db (fst (snd (accept_code sample_crypto (Some 5) full_disk (\<lambda>_. None) ?s1 ''123456'' [] sample_key))))
      = Some (sample_pending_code\<lparr>pc_attempts := 1\<rparr>)"
    by (simp add: accept_code_def trim_nil Let_def split: sum.split)
  ultimately have "unredeemed sample_crypto (dev_id sample_device) self' failed_attempts"
    using first by (simp add: failed_attempts_def compares_def trim_nil sample_pending_code_def now_unix_def)
  from revoked_until_repaired [OF sample_paired_inv r this] r show ?thesis by (simp add: sample_device_def)
qed

text \<open>
  Re-pairing lifts a revocation: redeeming the pending code for the key of a revoked device puts it
  back among the active devices under the same id.
\<close>

theorem repairing_unrevokes:
  assumes "revoked_in (derive_device_id X pk) self" and "accept_code X clock E f self inp nm pk = (Ok dev, self', g)"
  shows "\<exists>a \<in> set (active_devices self'). dev_id a = derive_device_id X pk"
proof -
  let ?d = "derive_device_id X pk"
  let ?dev = "\<lparr>dev_id = ?d, dev_name = trim nm, dev_public_key = pk, dev_paired_at = now_unix clock,
             dev_revoked = False, dev_revoked_at = None\<rparr>"
  have "map_of (db_devices (pdb_db self')) ?d = Some ?dev"
    using assms(2)
  proof (cases rule: accept_code_cases)
    case (redeemed pend code)
    then show ?thesis by (simp add: register_device_state [OF redeemed(7)])
  next
    case (wrong pend code)
    then show ?thesis by (auto simp: wrong_code_def Let_def dest!: save_then_Ok [OF sym])
  next
    case (dead pend e)
    then show ?thesis by (auto dest!: save_then_Ok [OF sym])
  qed simp
  then have "(?d, ?dev) \<in> set (db_devices (pdb_db self'))" by (rule map_of_SomeD)
  then show ?thesis by (force simp: active_devices_def)
qed

definition sample_revoked :: PairingDb where
  "sample_revoked = sample_paired\<lparr>pdb_db := (pdb_db sample_paired)\<lparr>db_devices :=
     [(dev_id sample_device, sample_device\<lparr>dev_revoked := True, dev_revoked_at := Some 2\<rparr>)]\<rparr>\<rparr>"

theorem repairing_unrevokes_witness:
  "\<exists>self'. revoked_in (derive_device_id sample_crypto sample_key) sample_revoked
     \<and> (\<exists>a \<in> set (active_devices self'). dev_id a = derive_device_id sample_crypto sample_key)"
proof -
  have parse: "PairingCode_parse ''123456'' = Ok (PairingCode ''123456'')" by code_simp
  obtain dev self' g where
    acc: "accept_code sample_crypto (Some 5) sample_env (\<lambda>_. None) sample_revoked ''123456'' ''tv'' sample_key = (Ok dev, self', g)"
    using sample_accept_code [OF _ _ parse, of sample_revoked]
    by (auto simp: sample_revoked_def sample_paired_def sample_db_def sample_pending_code_def)
  have "dev_id sample_device = derive_device_id sample_crypto sample_key"
    unfolding sample_device_def by (rule Device.select_convs)
  then have rev: "revoked_in (derive_device_id sample_crypto sample_key) sample_revoked"
    by (simp add: revoked_in_def sample_revoked_def)
  show ?thesis using repairing_unrevokes [OF rev acc] rev by blast
qed

text \<open>
  C18 Atomic persistence: whatever file-system call fails while saving, the database file is either
  untouched (and the error reported) or, when the save succeeds, holds the complete new contents with
  mode 0600; loading it then gives the database that was saved.
\<close>

theorem save_atomic:
  assumes "PairingDb_save J io cmode f self = (r, g)" and "pdb_path self \<noteq> []"
    and "db_roundtrips J (pdb_db self)" and "db_version (pdb_db self) = SCHEMA_VERSION"
  shows "(\<not> is_ok r \<longrightarrow> g (pdb_path self) = f (pdb_path self))
       \<and> (is_ok r \<longrightarrow> (\<exists>json. g (pdb_path self) = Some (FileNode 384 json))
                     \<and> PairingDb_load J None g (pdb_path self) = Ok self)"
proof -
  note atomic = PairingDb_save_atomic [OF assms(1,2)]
  show ?thesis
  proof (cases "is_ok r")
    case True
    with atomic obtain json where "db_to_vec J (pdb_db self) = Ok json"
      and "g (pdb_path self) = Some (FileNode 384 json)" by blast
    with True assms(3,4) show ?thesis by (simp add: PairingDb_load_def db_roundtrips_def)
  qed (use atomic in blast)
qed

definition sample_fresh :: PairingDb where
  "sample_fresh = \<lparr>pdb_path = [''x'', ''pairing.json''], pdb_db = DbFile_default\<rparr>"

definition sample_saved :: "(PairingError + unit) \<times> fs" where
  "sample_saved = PairingDb_save sample_codec (\<lambda>_. None) 420 (\<lambda>_. None) sample_fresh"

theorem save_atomic_witness:
  "PairingDb_load sample_codec None (snd sample_saved) (pdb_path sample_fresh) = Ok sample_fresh"
proof -
  have ok: "is_ok (fst sample_saved)" by code_simp
  have "PairingDb_save sample_codec (\<lambda>_. None) 420 (\<lambda>_. None) sample_fresh = (fst sample_saved, snd sample_saved)"
    by (simp add: sample_saved_def)
  from save_atomic [OF this] ok show ?thesis
    by (simp add: db_roundtrips_def sample_codec_def sample_fresh_def DbFile_default_def)
qed

text \<open>
  Fail closed: loading never turns an existing database into an empty one. A result for an existing
  path is exactly what the file parses to, with the supported schema version; anything else is an error.
\<close>

theorem load_fails_closed:
  assumes "PairingDb_load J io f p = Ok db" and "f p \<noteq> None"
  shows "\<exists>mode bs. f p = Some (FileNode mode bs) \<and> db_from_slice J bs = Ok (pdb_db db)
           \<and> db_version (pdb_db db) = SCHEMA_VERSION \<and> pdb_path db = p"
  using assms by (auto simp: PairingDb_load_def split: option.splits fnode.splits sum.splits if_splits)

theorem load_fails_closed_witness:
  "db_version (pdb_db \<lparr>pdb_path = [''p''], pdb_db = DbFile_default\<rparr>) = SCHEMA_VERSION
   \<and> PairingDb_load sample_codec None [[''p''] \<mapsto> FileNode 384 [1]] [''p''] = Ok \<lparr>pdb_path = [''p''], pdb_db = DbFile_default\<rparr>"
proof -
  have "PairingDb_load sample_codec None [[''p''] \<mapsto> FileNode 384 [1]] [''p''] = Ok \<lparr>pdb_path = [''p''], pdb_db = DbFile_default\<rparr>"
    by (simp add: PairingDb_load_def sample_codec_def DbFile_default_def)
  with load_fails_closed [OF this] show ?thesis by simp
qed

end
