(* ===== verification/Protocol.thy ===== *)
theory Protocol
  imports Interfaces
begin

text \<open>
  Model of \<^verbatim>\<open>host/crates/emersia-protocol/src/lib.rs\<close>: the commands, requests and responses of the control
  plane and their framing as JSON lines.  The JSON text itself is serde's work, so printing and parsing are the
  fields of \<open>json_codec\<close>, with what the code relies on as \<open>codec_lines\<close>: a printed value parses back, is
  one line and has no space around it.  JSON values are a datatype; an \<^verbatim>\<open>f64\<close> is its bit pattern.
\<close>

section \<open>Messages\<close>

definition PROTOCOL_VERSION :: u8 where "PROTOCOL_VERSION = 1"
definition RUNTIME_DIR_ENV :: string where "RUNTIME_DIR_ENV = ''XDG_RUNTIME_DIR''"
definition SOCKET_FILE :: string where "SOCKET_FILE = ''control.sock''"

definition default_socket_path :: "string list option \<Rightarrow> string + string list" where
  "default_socket_path runtime_dir =
     (case runtime_dir of
        None \<Rightarrow> Err (RUNTIME_DIR_ENV @ '' is not set'')
      | Some dir \<Rightarrow> Ok (dir @ [''emersia'', SOCKET_FILE]))"

datatype ErrorCode = UnknownCmd | NotPaired | Busy | NoCaptureBackend | Denied | InvalidArgs | NotFoundCode | Internal

record ErrorInfo =
  ei_code :: ErrorCode
  ei_message :: string

definition ErrorInfo_new :: "ErrorCode \<Rightarrow> string \<Rightarrow> ErrorInfo" where
  "ErrorInfo_new code message = \<lparr>ei_code = code, ei_message = message\<rparr>"

record StartArgs =
  sa_output :: "string option"
  sa_fps :: "u32 option"

datatype PairAction = PairNew | PairAccept

record PairArgs =
  pa_action :: PairAction
  pa_code :: "string option"
  pa_name :: "string option"
  pa_public_key :: "string option"

record DeviceInfo =
  di_id :: string
  di_name :: string
  di_paired_at :: u64
  di_revoked :: bool

record RevokeArgs =
  ra_device :: string

record SelectArgs =
  sel_targets :: "string list"

datatype Command =
    CmdStatus | CmdScreens | CmdStart StartArgs | CmdStop | CmdEvents | CmdPair PairArgs | CmdDevices
  | CmdRevoke RevokeArgs | CmdSelect SelectArgs | CmdUnknown

record Request =
  rq_v :: u8
  rq_id :: string
  rq_command :: Command

type_synonym f64 = "64 word"

datatype json =
    JNull | JBool bool | JInt nat | JFloat f64 | JStr string | JArr "json list" | JObj "(string \<times> json) list"

record ResponseOk =
  ro_v :: u8
  ro_id :: string
  ro_ok :: json

record ResponseErr =
  re_v :: u8
  re_id :: string
  re_error :: ErrorInfo

datatype Response = RespOk ResponseOk | RespErr ResponseErr

datatype ProtocolError = JsonError string | VersionError u8 u8

fun ProtocolError_display :: "ProtocolError \<Rightarrow> string" where
  "ProtocolError_display (JsonError e) = ''malformed JSON line: '' @ e"
| "ProtocolError_display (VersionError found expected) =
     ''unsupported protocol version '' @ show_nat (unat found) @ '' (this daemon speaks '' @ show_nat (unat expected) @ '')''"

section \<open>JSON lines\<close>

record json_codec =
  rq_to_string :: "Request \<Rightarrow> string + string"
  rq_from_str :: "string \<Rightarrow> string + Request"
  rs_to_string :: "Response \<Rightarrow> string + string"
  rs_from_str :: "string \<Rightarrow> string + Response"

definition newline :: char where "newline = char_of (10 :: nat)"

definition encode_request :: "json_codec \<Rightarrow> Request \<Rightarrow> ProtocolError + string" where
  "encode_request J req = (case rq_to_string J req of Inl e \<Rightarrow> Err (JsonError e) | Inr line \<Rightarrow> Ok (line @ [newline]))"

definition encode_response :: "json_codec \<Rightarrow> Response \<Rightarrow> ProtocolError + string" where
  "encode_response J res = (case rs_to_string J res of Inl e \<Rightarrow> Err (JsonError e) | Inr line \<Rightarrow> Ok (line @ [newline]))"

definition decode_request :: "json_codec \<Rightarrow> string \<Rightarrow> ProtocolError + Request" where
  "decode_request J line =
     (case rq_from_str J (trim line) of
        Inl e \<Rightarrow> Err (JsonError e)
      | Inr req \<Rightarrow> if rq_v req \<noteq> PROTOCOL_VERSION then Err (VersionError (rq_v req) PROTOCOL_VERSION) else Ok req)"

definition decode_response :: "json_codec \<Rightarrow> string \<Rightarrow> ProtocolError + Response" where
  "decode_response J line = map_err JsonError (rs_from_str J (trim line))"

text \<open>The text of one JSON object as serde prints it: braces at both ends, valid UTF-8, and no line break (control
  characters in strings are escaped).\<close>

definition one_line :: "string \<Rightarrow> bool" where
  "one_line s \<longleftrightarrow> s \<noteq> [] \<and> hd s = CHR ''{'' \<and> last s = CHR ''}'' \<and> newline \<notin> set s \<and> valid_utf8 (as_bytes s)"

definition codec_lines :: "json_codec \<Rightarrow> bool" where
  "codec_lines J \<longleftrightarrow>
     (\<forall>req s. rq_to_string J req = Ok s \<longrightarrow> one_line s \<and> rq_from_str J s = Ok req)
     \<and> (\<forall>res s. rs_to_string J res = Ok s \<longrightarrow> one_line s \<and> rs_from_str J s = Ok res)"

end
