(* ===== verification/Frame_Model.thy ===== *)
theory Frame_Model
  imports Interfaces
begin

unbundle bit_operations_syntax

text \<open>
  Model of \<^verbatim>\<open>host/crates/emersia-daemon/src/frame.rs\<close> and \<^verbatim>\<open>shm.rs\<close>: decoding a shared-memory buffer to RGBA,
  undoing the output transform with its 32-bit index arithmetic, flipping rows, and the size checks of
  a capture buffer.  \<open>None\<close> is the panic of a slice out of range.  The lemmas show that undoing a
  transform restores the upright image for all eight transforms whenever the buffer is one that
  \<^verbatim>\<open>ShmBuffer::create\<close> admits, and what each decoded pixel is.  Writing the PNG is left to the png crate.
\<close>

section \<open>Frames and transforms\<close>

record Frame =
  fr_width :: u32
  fr_height :: u32
  fr_rgba :: bytes

definition Frame_new :: "u32 \<Rightarrow> u32 \<Rightarrow> bytes \<Rightarrow> Frame" where
  "Frame_new w h px = \<lparr>fr_width = w, fr_height = h, fr_rgba = px\<rparr>"

datatype Transform = Normal | T90 | T180 | T270 | Flipped | Flipped90 | Flipped180 | Flipped270 | UnknownTransform u32

fun swaps_axes :: "Transform \<Rightarrow> bool" where
  "swaps_axes T90 = True"
| "swaps_axes T270 = True"
| "swaps_axes Flipped90 = True"
| "swaps_axes Flipped270 = True"
| "swaps_axes _ = False"

fun forward :: "Transform \<Rightarrow> u32 \<Rightarrow> u32 \<Rightarrow> u32 \<Rightarrow> u32 \<Rightarrow> u32 \<times> u32" where
  "forward Normal x y lw lh = (x, y)"
| "forward T90 x y lw lh = (y, lw - 1 - x)"
| "forward T180 x y lw lh = (lw - 1 - x, lh - 1 - y)"
| "forward T270 x y lw lh = (lh - 1 - y, x)"
| "forward Flipped x y lw lh = (lw - 1 - x, y)"
| "forward Flipped90 x y lw lh = (y, x)"
| "forward Flipped180 x y lw lh = (x, lh - 1 - y)"
| "forward Flipped270 x y lw lh = (lh - 1 - y, lw - 1 - x)"
| "forward (UnknownTransform n) x y lw lh = (x, y)"

text \<open>\<^verbatim>\<open>out[dst..dst + 4].copy_from_slice(px)\<close>.\<close>

definition put4 :: "bytes \<Rightarrow> nat \<Rightarrow> bytes \<Rightarrow> bytes option" where
  "put4 out dst px =
     (if dst + 4 \<le> length out \<and> length px = 4 then Some (take dst out @ px @ drop (dst + 4) out) else None)"

text \<open>The pixels in the order of the two loops.\<close>

definition pixels :: "u32 \<Rightarrow> u32 \<Rightarrow> (u32 \<times> u32) list" where
  "pixels ow oh = concat (map (\<lambda>y. map (\<lambda>x. (of_nat x, of_nat y)) [0..<unat ow]) [0..<unat oh])"

fun untransform_loop :: "Transform \<Rightarrow> bytes \<Rightarrow> u32 \<Rightarrow> u32 \<Rightarrow> u32 \<Rightarrow> (u32 \<times> u32) list \<Rightarrow> bytes \<Rightarrow> bytes option" where
  "untransform_loop t buf bw ow oh [] out = Some out"
| "untransform_loop t buf bw ow oh ((x, y) # rest) out =
     (let (sx, sy) = forward t x y ow oh;
          src = unat ((sy * bw + sx) * 4);
          dst = unat ((y * ow + x) * 4)
      in case get_range buf src (src + 4) of
           None \<Rightarrow> None
         | Some px \<Rightarrow>
            (case put4 out dst px of
               None \<Rightarrow> None
             | Some out \<Rightarrow> untransform_loop t buf bw ow oh rest out))"

definition untransform :: "bytes \<Rightarrow> u32 \<Rightarrow> u32 \<Rightarrow> Transform \<Rightarrow> (bytes \<times> u32 \<times> u32) option" where
  "untransform buf bw bh t =
     (let (ow, oh) = (if swaps_axes t then (bh, bw) else (bw, bh))
      in map_option (\<lambda>out. (out, ow, oh))
           (untransform_loop t buf bw ow oh (pixels ow oh) (replicate (unat ow * unat oh * 4) 0)))"

definition flip_rows :: "bytes \<Rightarrow> u32 \<Rightarrow> u32 \<Rightarrow> bytes option" where
  "flip_rows rgba width height =
     (let row_bytes = unat width * 4; rows = unat height
      in if length rgba < rows * row_bytes then None
         else Some (concat (map (\<lambda>dst_y. let src_y = rows - 1 - dst_y
                                         in slice rgba (src_y * row_bytes) ((src_y + 1) * row_bytes)) [0..<rows])
                    @ replicate (length rgba - rows * row_bytes) 0))"

section \<open>Decoding\<close>

datatype shm_format = Argb8888 | Xrgb8888 | Xbgr8888 | Rgba8888 | OtherFormat string

fun convert_pixel :: "shm_format \<Rightarrow> bytes \<Rightarrow> bytes" where
  "convert_pixel Argb8888 [b, g, r, a] = [r, g, b, a]"
| "convert_pixel Xrgb8888 [b, g, r, x] = [r, g, b, 0xff]"
| "convert_pixel Xbgr8888 [r, g, b, x] = [r, g, b, 0xff]"
| "convert_pixel Rgba8888 [a, b, g, r] = [r, g, b, a]"
| "convert_pixel _ px = px"

fun format_supported :: "shm_format \<Rightarrow> bool" where
  "format_supported (OtherFormat _) = False"
| "format_supported _ = True"

fun format_debug :: "shm_format \<Rightarrow> string" where
  "format_debug Argb8888 = ''Argb8888''"
| "format_debug Xrgb8888 = ''Xrgb8888''"
| "format_debug Xbgr8888 = ''Xbgr8888''"
| "format_debug Rgba8888 = ''Rgba8888''"
| "format_debug (OtherFormat s) = s"

definition decode_row :: "shm_format \<Rightarrow> nat \<Rightarrow> nat \<Rightarrow> bytes \<Rightarrow> nat \<Rightarrow> bytes" where
  "decode_row format w stride data row =
     concat (map (convert_pixel format) (chunks 4 (slice data (row * stride) (row * stride + w * 4))))"

definition decode :: "shm_format \<Rightarrow> u32 \<Rightarrow> u32 \<Rightarrow> u32 \<Rightarrow> bytes \<Rightarrow> string + bytes" where
  "decode format width height stride data =
     (if width = 0 \<or> height = 0
      then Err (''refusing to decode an empty '' @ show_nat (unat width) @ ''x'' @ show_nat (unat height) @ '' frame'')
      else
        let w = unat width; h = unat height; stride = unat stride
        in if stride < w * 4
           then Err (''stride '' @ show_nat stride @ '' is smaller than '' @ show_nat w @ '' RGBA pixels (''
                     @ show_nat (w * 4) @ '' bytes)'')
           else if stride * h > u64_max then Err ''shared-memory buffer size overflows''
           else if length data < stride * h
           then Err (''shared-memory read returned '' @ show_nat (length data) @ '' bytes, expected at least ''
                     @ show_nat (stride * h))
           else if \<not> format_supported format
           then Err (''unsupported wl_shm format '' @ format_debug format
                     @ '' (M1.1 supports XRGB/ARGB/XBGR/RGBA 8888)'')
           else Ok (concat (map (decode_row format w stride data) [0..<h])))"

section \<open>Capture buffers\<close>

text \<open>The file behind the buffer and the integers handed to the compositor.\<close>

record ShmBuffer =
  sb_file :: bytes
  sb_pool_size :: "32 word"
  sb_width :: "32 word"
  sb_height :: "32 word"
  sb_stride :: "32 word"
  sb_format :: shm_format

definition ShmBuffer_create ::
  "(nat \<Rightarrow> string option) \<Rightarrow> u32 \<Rightarrow> u32 \<Rightarrow> u32 \<Rightarrow> shm_format \<Rightarrow> string + ShmBuffer" where
  "ShmBuffer_create io width height stride format =
     (if width = 0 \<or> height = 0
      then Err (''refusing to allocate a '' @ show_nat (unat width) @ ''x'' @ show_nat (unat height) @ '' capture buffer'')
      else if unat stride < unat width * 4
      then Err (''stride '' @ show_nat (unat stride) @ '' is too small for '' @ show_nat (unat width) @ '' RGBA pixels'')
      else
        let size = unat stride * unat height
        in if size > u64_max then Err ''capture buffer size overflows''
           else if size > i32_max
           then Err (''capture buffer of '' @ show_nat size @ '' bytes exceeds the wl_shm pool limit'')
           else case io 0 of
                  Some _ \<Rightarrow> Err ''failed to allocate an anonymous capture buffer''
                | None \<Rightarrow> (case io 1 of
                      Some _ \<Rightarrow> Err ''failed to size the capture buffer''
                    | None \<Rightarrow> Ok \<lparr>sb_file = replicate size 0, sb_pool_size = of_nat size, sb_width = width,
                                  sb_height = height, sb_stride = stride, sb_format = format\<rparr>))"

definition read_pixels :: "(nat \<Rightarrow> string option) \<Rightarrow> ShmBuffer \<Rightarrow> u32 \<Rightarrow> u32 \<Rightarrow> string + bytes" where
  "read_pixels io self stride height =
     (let size = unat stride * unat height
      in case io 0 of
           Some _ \<Rightarrow> Err ''failed to rewind the capture buffer''
         | None \<Rightarrow>
             if io 1 \<noteq> None \<or> length (sb_file self) < size
             then Err (''failed to read '' @ show_nat size @ '' bytes back from the capture buffer'')
             else Ok (take size (sb_file self)))"

section \<open>The geometry of the transforms\<close>

text \<open>The transforms on positions, without machine arithmetic: a quarter turn counter-clockwise and a mirror
  image, from which the protocol builds the eight transforms.  A position is a pair of coordinates with
  the size of its image.\<close>

fun quarter_turn :: "(nat \<times> nat) \<times> nat \<times> nat \<Rightarrow> (nat \<times> nat) \<times> nat \<times> nat" where
  "quarter_turn ((x, y), w, h) = ((y, w - 1 - x), h, w)"

fun mirror :: "(nat \<times> nat) \<times> nat \<times> nat \<Rightarrow> (nat \<times> nat) \<times> nat \<times> nat" where
  "mirror ((x, y), w, h) = ((w - 1 - x, y), w, h)"

fun turns :: "Transform \<Rightarrow> nat" where
  "turns T90 = 1"
| "turns T180 = 2"
| "turns T270 = 3"
| "turns Flipped90 = 1"
| "turns Flipped180 = 2"
| "turns Flipped270 = 3"
| "turns _ = 0"

fun mirrored :: "Transform \<Rightarrow> bool" where
  "mirrored Flipped = True"
| "mirrored Flipped90 = True"
| "mirrored Flipped180 = True"
| "mirrored Flipped270 = True"
| "mirrored _ = False"

definition transform_spec :: "Transform \<Rightarrow> nat \<Rightarrow> nat \<Rightarrow> nat \<Rightarrow> nat \<Rightarrow> (nat \<times> nat) \<times> nat \<times> nat" where
  "transform_spec t x y w h =
     (quarter_turn ^^ turns t) ((if mirrored t then mirror else id) ((x, y), w, h))"

definition target :: "Transform \<Rightarrow> nat \<Rightarrow> nat \<Rightarrow> nat \<Rightarrow> nat \<Rightarrow> nat \<times> nat" where
  "target t x y w h = fst (transform_spec t x y w h)"

lemma unat_rest:
  fixes w :: u32
  assumes "x < unat w"
  shows "w - 1 - of_nat x = of_nat (unat w - 1 - x)" and "unat (w - 1 - of_nat x) = unat w - 1 - x"
proof -
  have "w = of_nat (unat w)" by simp
  moreover have "(of_nat (unat w - 1 - x) :: u32) = of_nat (unat w) - 1 - of_nat x"
    using assms by (simp add: of_nat_diff)
  ultimately show 1: "w - 1 - of_nat x = of_nat (unat w - 1 - x)" by simp
  show "unat (w - 1 - of_nat x) = unat w - 1 - x"
    unfolding 1 using unsigned_less [of w, where 'a = nat] by (simp add: unat_of_nat take_bit_nat_eq_self_iff)
qed

lemma numeral_funpow: "(f ^^ 2) x = f (f x)" "(f ^^ 3) x = f (f (f x))"
  by (simp_all add: numeral_2_eq_2 numeral_3_eq_3)

lemma transform_spec_size:
  "snd (transform_spec t x y w h) = (if swaps_axes t then (h, w) else (w, h))"
  by (cases t) (auto simp: transform_spec_def numeral_funpow)

lemma forward_target:
  assumes "x < unat w" and "y < unat h"
  shows "forward t (of_nat x) (of_nat y) w h
       = (of_nat (fst (target t x y (unat w) (unat h))), of_nat (snd (target t x y (unat w) (unat h))))"
  using assms by (cases t) (auto simp: target_def transform_spec_def numeral_funpow unat_rest(1))

lemma target_bounds:
  assumes "x < w" and "y < h"
  shows "fst (target t x y w h) < (if swaps_axes t then h else w)"
    and "snd (target t x y w h) < (if swaps_axes t then w else h)"
  using assms by (cases t; auto simp: target_def transform_spec_def numeral_funpow)+

lemma target_inj:
  assumes "target t x y w h = target t x' y' w h" and "x < w" "y < h" "x' < w" "y' < h"
  shows "x = x' \<and> y = y'"
  using assms by (cases t) (auto simp: target_def transform_spec_def numeral_funpow)

section \<open>Pixels of an image\<close>

definition pixel :: "bytes \<Rightarrow> nat \<Rightarrow> nat \<Rightarrow> nat \<Rightarrow> bytes" where
  "pixel img w x y = slice img ((y * w + x) * 4) ((y * w + x) * 4 + 4)"

text \<open>The image with the pixels \<open>px x y\<close>, row by row.\<close>

definition image_of :: "nat \<Rightarrow> nat \<Rightarrow> (nat \<Rightarrow> nat \<Rightarrow> bytes) \<Rightarrow> bytes" where
  "image_of w h px = concat (map (\<lambda>y. concat (map (\<lambda>x. px x y) [0..<w])) [0..<h])"

lemma concat_map_upt_cong:
  "(\<And>i. i < n \<Longrightarrow> f i = g i) \<Longrightarrow> concat (map f [0..<n]) = concat (map g [0..<n])"
  by (intro arg_cong [where f = concat] map_cong) auto

lemma image_of_cong:
  assumes "\<And>x y. x < w \<Longrightarrow> y < h \<Longrightarrow> px x y = px' x y"
  shows "image_of w h px = image_of w h px'"
  using assms unfolding image_of_def by (intro concat_map_upt_cong) auto

lemma pixel_index:
  assumes "(x::nat) < w" and "y < h"
  shows "y * w + x < w * h"
proof -
  have "y * w + x < y * w + w" using assms(1) by simp
  also have "\<dots> = Suc y * w" by simp
  also have "\<dots> \<le> h * w" using assms(2) by (intro mult_le_mono1) simp
  finally show ?thesis by (simp add: mult.commute)
qed

lemma unat_index:
  fixes w :: u32
  assumes "(y * unat w + x) * 4 < 2 ^ 32"
  shows "unat ((of_nat y * w + of_nat x) * 4) = (y * unat w + x) * 4"
proof -
  have "(of_nat y * w + of_nat x) * 4 = (of_nat ((y * unat w + x) * 4) :: u32)" by simp
  then show ?thesis using assms by (simp add: unat_of_nat take_bit_nat_eq_self_iff del: of_nat_mult of_nat_add)
qed

section \<open>Undoing a transform\<close>

definition src_offset :: "Transform \<Rightarrow> u32 \<Rightarrow> u32 \<Rightarrow> u32 \<Rightarrow> u32 \<times> u32 \<Rightarrow> nat" where
  "src_offset t bw ow oh p = (let (sx, sy) = forward t (fst p) (snd p) ow oh in unat ((sy * bw + sx) * 4))"

definition dst_offset :: "u32 \<Rightarrow> u32 \<times> u32 \<Rightarrow> nat" where
  "dst_offset ow p = unat ((snd p * ow + fst p) * 4)"

lemma put4_append:
  assumes "length P = n" and "length px = 4" and "4 \<le> length Q"
  shows "put4 (P @ Q) n px = Some ((P @ px) @ drop 4 Q)"
  using assms by (simp add: put4_def)

lemma untransform_loop_writes:
  assumes "map (dst_offset ow) ps = map (\<lambda>i. length P + 4 * i) [0..<length ps]"
    and "\<forall>p \<in> set ps. src_offset t bw ow oh p + 4 \<le> length buf"
    and "length Q = 4 * length ps"
  shows "untransform_loop t buf bw ow oh ps (P @ Q) =
     Some (P @ concat (map (\<lambda>p. slice buf (src_offset t bw ow oh p) (src_offset t bw ow oh p + 4)) ps))"
  using assms
proof (induction ps arbitrary: P Q)
  case Nil
  then show ?case by simp
next
  case (Cons p ps)
  obtain x y where p: "p = (x, y)" by fastforce
  obtain sx sy where f: "forward t x y ow oh = (sx, sy)" by fastforce
  let ?src = "unat ((sy * bw + sx) * 4)"
  let ?px = "slice buf ?src (?src + 4)"
  have src: "src_offset t bw ow oh (x, y) = ?src" by (simp add: src_offset_def f)
  have room: "?src + 4 \<le> length buf" using Cons.prems(2) p src by simp
  then have px: "length ?px = 4" by (simp add: slice_def)
  have upt: "map (\<lambda>i. length P + 4 * i) [0..<Suc (length ps)]
           = length P # map (\<lambda>i. (length P + 4) + 4 * i) [0..<length ps]"
    by (simp add: map_upt_Suc del: upt_Suc)
  have dst: "dst_offset ow p = length P"
    and rest: "map (dst_offset ow) ps = map (\<lambda>i. length (P @ ?px) + 4 * i) [0..<length ps]"
    using Cons.prems(1) px by (simp_all add: upt del: upt_Suc)
  have "put4 (P @ Q) (unat ((y * ow + x) * 4)) ?px = Some ((P @ ?px) @ drop 4 Q)"
    using put4_append [of P "length P" ?px Q] px Cons.prems(3) dst p by (simp add: dst_offset_def)
  moreover have "untransform_loop t buf bw ow oh ps ((P @ ?px) @ drop 4 Q) =
     Some ((P @ ?px) @ concat (map (\<lambda>p. slice buf (src_offset t bw ow oh p) (src_offset t bw ow oh p + 4)) ps))"
    using Cons.prems by (intro Cons.IH rest) auto
  ultimately show ?case using room f src by (simp add: p get_range_def Let_def)
qed

lemma concat_map_concat: "concat (concat (map f xs)) = concat (map (\<lambda>x. concat (f x)) xs)"
  by (induction xs) simp_all

lemma concat_grid: "concat (map (\<lambda>y. map (\<lambda>x. g (y * w + x)) [0..<w]) [0..<h]) = map g [0..<h * w]"
proof (induction h)
  case (Suc h)
  have "[0..<Suc h * w] = [0..<h * w] @ [h * w..<h * w + w]"
    using upt_add_eq_append [of 0 "h * w" w] by (simp add: add.commute del: upt_Suc)
  also have "[h * w..<h * w + w] = map (\<lambda>x. h * w + x) [0..<w]"
    by (rule nth_equalityI) simp_all
  finally have "[0..<Suc h * w] = [0..<h * w] @ map (\<lambda>x. h * w + x) [0..<w]" .
  with Suc show ?case by (simp add: comp_def del: mult_Suc)
qed simp

lemma map_grid:
  assumes "\<And>x y. x < w \<Longrightarrow> y < h \<Longrightarrow> f x y = g (y * w + x)"
  shows "concat (map (\<lambda>y. map (\<lambda>x. f x y) [0..<w]) [0..<h]) = map g [0..<h * w]"
proof -
  have "map (\<lambda>y. map (\<lambda>x. f x y) [0..<w]) [0..<h] = map (\<lambda>y. map (\<lambda>x. g (y * w + x)) [0..<w]) [0..<h]"
    using assms by (intro map_cong) auto
  then show ?thesis by (simp only: concat_grid)
qed

lemma length_concat_same: "(\<And>x. x \<in> set xs \<Longrightarrow> length (f x) = n) \<Longrightarrow> length (concat (map f xs)) = length xs * n"
  by (induction xs) auto

lemma image_of_linear:
  "image_of w h px = concat (map (\<lambda>i. px (i mod w) (i div w)) [0..<h * w])"
proof -
  have "image_of w h px = concat (concat (map (\<lambda>y. map (\<lambda>x. px x y) [0..<w]) [0..<h]))"
    by (simp add: image_of_def concat_map_concat)
  also have "concat (map (\<lambda>y. map (\<lambda>x. px x y) [0..<w]) [0..<h]) = map (\<lambda>i. px (i mod w) (i div w)) [0..<h * w]"
    by (rule map_grid) simp
  finally show ?thesis .
qed

lemma slice_concat_same:
  assumes "\<And>i. i < n \<Longrightarrow> length (f i) = k" and "i < n"
  shows "slice (concat (map f [0..<n])) (i * k) (i * k + k) = f i"
proof -
  have "[0..<n] = [0..<i] @ i # [Suc i..<n]"
    using assms(2) upt_add_eq_append [of 0 i "n - i"] by (simp add: upt_conv_Cons)
  moreover have "length (concat (map f [0..<i])) = i * k"
    using assms by (subst length_concat_same [where n = k]) auto
  ultimately show ?thesis using assms by (simp add: slice_def)
qed

lemma concat_slices:
  "length xs = n * k \<Longrightarrow> concat (map (\<lambda>i. slice xs (i * k) (i * k + k)) [0..<n]) = xs"
proof (induction n arbitrary: xs)
  case (Suc n)
  let ?ys = "take (n * k) xs"
  have "concat (map (\<lambda>i. slice xs (i * k) (i * k + k)) [0..<n]) = concat (map (\<lambda>i. slice ?ys (i * k) (i * k + k)) [0..<n])"
  proof (intro arg_cong [where f = concat] map_cong refl)
    fix i assume "i \<in> set [0..<n]"
    then have "Suc i * k \<le> n * k" by (intro mult_le_mono1) simp
    then show "slice xs (i * k) (i * k + k) = slice ?ys (i * k) (i * k + k)"
      by (simp add: slice_def drop_take min_def)
  qed
  also have "\<dots> = ?ys" using Suc by simp
  finally show ?case using Suc.prems by (simp add: slice_def)
qed simp

lemma length_image_of:
  assumes "\<And>x y. x < w \<Longrightarrow> y < h \<Longrightarrow> length (px x y) = 4"
  shows "length (image_of w h px) = w * h * 4"
proof (cases "w = 0")
  case False
  then show ?thesis unfolding image_of_linear using assms
    by (subst length_concat_same [where n = 4]) (auto simp: less_mult_imp_div_less)
qed (simp add: image_of_def)

lemma pixel_image_of:
  assumes "\<And>x y. x < w \<Longrightarrow> y < h \<Longrightarrow> length (px x y) = 4" and "x < w" and "y < h"
  shows "pixel (image_of w h px) w x y = px x y"
proof -
  have "slice (image_of w h px) ((y * w + x) * 4) ((y * w + x) * 4 + 4) = px ((y * w + x) mod w) ((y * w + x) div w)"
    unfolding image_of_linear using assms pixel_index [OF assms(2,3)]
    by (intro slice_concat_same) (auto simp: less_mult_imp_div_less mult.commute)
  then show ?thesis using assms(2) by (simp add: pixel_def)
qed

lemma image_of_pixel:
  assumes "length img = w * h * 4"
  shows "image_of w h (pixel img w) = img"
proof -
  have "image_of w h (pixel img w) = concat (map (\<lambda>i. slice img (i * 4) (i * 4 + 4)) [0..<h * w])"
    by (simp add: image_of_linear pixel_def)
  also have "\<dots> = img" using assms by (intro concat_slices) (simp add: mult.commute)
  finally show ?thesis .
qed

lemma length_pixel:
  assumes "length img = w * h * 4" and "x < w" and "y < h"
  shows "length (pixel img w x y) = 4"
  using pixel_index [OF assms(2,3)] assms(1) by (simp add: pixel_def slice_def)

lemma length_pixels: "length (pixels ow oh) = unat oh * unat ow"
  by (simp add: pixels_def length_concat comp_def sum_list_triv)

lemma dst_offset_pixels:
  assumes "unat ow * unat oh * 4 \<le> 2 ^ 32"
  shows "map (dst_offset ow) (pixels ow oh) = map (\<lambda>i. 4 * i) [0..<unat oh * unat ow]"
proof -
  have idx: "dst_offset ow (of_nat x, of_nat y) = 4 * (y * unat ow + x)" if "x < unat ow" "y < unat oh" for x y
  proof -
    have "(y * unat ow + x) * 4 < 2 ^ 32"
      by (rule less_le_trans [OF _ assms]) (use pixel_index [OF that] in simp)
    from unat_index [OF this] show ?thesis unfolding dst_offset_def fst_conv snd_conv by linarith
  qed
  have "map (dst_offset ow) (pixels ow oh)
      = concat (map (\<lambda>y. map (\<lambda>x. dst_offset ow (of_nat x, of_nat y)) [0..<unat ow]) [0..<unat oh])"
    by (simp add: pixels_def map_concat comp_def)
  also have "\<dots> = map (\<lambda>i. 4 * i) [0..<unat oh * unat ow]" by (rule map_grid) (rule idx)
  finally show ?thesis .
qed

text \<open>For the pixel at \<open>(x, y)\<close> of the upright image the source is the pixel at its target in the buffer.\<close>

lemma buffer_size_swap:
  fixes t :: Transform and bw bh :: u32
  assumes "(ow, oh) = (if swaps_axes t then (bh, bw) else (bw, bh))"
  shows "unat ow * unat oh = unat bw * unat bh"
    and "unat bw = (if swaps_axes t then unat oh else unat ow)"
    and "unat bh = (if swaps_axes t then unat ow else unat oh)"
  using assms by (auto split: if_splits)

lemma src_offset_target:
  assumes dims: "(ow, oh) = (if swaps_axes t then (bh, bw) else (bw, bh))"
    and fits: "unat bw * unat bh * 4 \<le> 2 ^ 32"
    and x: "x < unat ow" and y: "y < unat oh"
    and tgt: "target t x y (unat ow) (unat oh) = (sx, sy)"
  shows "src_offset t bw ow oh (of_nat x, of_nat y) = (sy * unat bw + sx) * 4"
    and "src_offset t bw ow oh (of_nat x, of_nat y) + 4 \<le> unat bw * unat bh * 4"
proof -
  have "sx < unat bw" "sy < unat bh"
    using target_bounds [OF x y, of t] tgt buffer_size_swap(2,3) [OF dims] by (auto split: if_splits)
  then have idx: "sy * unat bw + sx < unat bw * unat bh" by (rule pixel_index)
  then have small: "(sy * unat bw + sx) * 4 < 2 ^ 32"
    by (intro less_le_trans [OF _ fits]) simp
  have "forward t (of_nat x) (of_nat y) ow oh = (of_nat sx, of_nat sy)"
    using forward_target [OF x y, of t] tgt by simp
  then show 1: "src_offset t bw ow oh (of_nat x, of_nat y) = (sy * unat bw + sx) * 4"
    using unat_index [OF small] by (simp only: src_offset_def fst_conv snd_conv Let_def prod.case)
  show "src_offset t bw ow oh (of_nat x, of_nat y) + 4 \<le> unat bw * unat bh * 4"
    unfolding 1 using idx by simp
qed

lemma untransform_pixels:
  assumes dims: "(ow, oh) = (if swaps_axes t then (bh, bw) else (bw, bh))"
    and fits: "unat bw * unat bh * 4 \<le> 2 ^ 32" and buf: "length buf = unat bw * unat bh * 4"
  shows "untransform buf bw bh t =
     Some (image_of (unat ow) (unat oh)
             (\<lambda>x y. case target t x y (unat ow) (unat oh) of (sx, sy) \<Rightarrow> pixel buf (unat bw) sx sy), ow, oh)"
    (is "_ = Some (?img, _, _)")
proof -
  let ?so = "src_offset t bw ow oh"
  have fits': "unat ow * unat oh * 4 \<le> 2 ^ 32" using fits buffer_size_swap(1) [OF dims] by simp
  have dst: "map (dst_offset ow) (pixels ow oh) = map (\<lambda>i. length [] + 4 * i) [0..<length (pixels ow oh)]"
    using dst_offset_pixels [OF fits'] by (simp add: length_pixels)
  have src: "\<forall>p \<in> set (pixels ow oh). ?so p + 4 \<le> length buf"
    using src_offset_target(2) [OF dims fits _ _ prod.collapse [symmetric]] by (auto simp: pixels_def buf)
  have "concat (map (\<lambda>p. slice buf (?so p) (?so p + 4)) (pixels ow oh)) =
     image_of (unat ow) (unat oh) (\<lambda>x y. slice buf (?so (of_nat x, of_nat y)) (?so (of_nat x, of_nat y) + 4))"
    by (simp add: pixels_def image_of_def map_concat comp_def concat_map_concat)
  also have "\<dots> = ?img"
    using src_offset_target(1) [OF dims fits] by (intro image_of_cong) (auto simp: pixel_def split: prod.split)
  finally have "untransform_loop t buf bw ow oh (pixels ow oh) (replicate (unat ow * unat oh * 4) 0) = Some ?img"
    using untransform_loop_writes [OF dst src, of "replicate (unat ow * unat oh * 4) 0"]
    by (simp add: length_pixels mult.commute)
  then show ?thesis by (simp add: untransform_def dims [symmetric])
qed

section \<open>Decoding and flipping\<close>

lemma length_convert_pixel: "length px = 4 \<Longrightarrow> length (convert_pixel format px) = 4"
  by (cases "(format, px)" rule: convert_pixel.cases) auto

lemma chunks_slices: "length xs = n * 4 \<Longrightarrow> chunks 4 xs = map (\<lambda>i. slice xs (i * 4) (i * 4 + 4)) [0..<n]"
proof (induction n arbitrary: xs)
  case (Suc n)
  then have "chunks 4 xs = take 4 xs # chunks 4 (drop 4 xs)" by (auto simp: chunks.simps [of 4 xs])
  moreover have "chunks 4 (drop 4 xs) = map (\<lambda>i. slice (drop 4 xs) (i * 4) (i * 4 + 4)) [0..<n]"
    using Suc by simp
  ultimately show ?case by (simp add: map_upt_Suc slice_def add.commute del: upt_Suc)
qed simp

lemma slice_slice: "b \<le> d - c \<Longrightarrow> slice (slice xs c d) a b = slice xs (c + a) (c + b)"
  by (simp add: slice_def drop_take min_def add.commute)

text \<open>Pixel \<open>x\<close> of row \<open>y\<close> in a buffer whose rows are \<open>stride\<close> bytes apart.\<close>

definition word_at :: "bytes \<Rightarrow> nat \<Rightarrow> nat \<Rightarrow> nat \<Rightarrow> bytes" where
  "word_at data stride x y = slice data (y * stride + x * 4) (y * stride + x * 4 + 4)"

lemma decode_row_words:
  assumes "w * 4 \<le> stride" and "stride * h \<le> length data" and "y < h"
  shows "decode_row format w stride data y = concat (map (\<lambda>x. convert_pixel format (word_at data stride x y)) [0..<w])"
proof -
  let ?row = "slice data (y * stride) (y * stride + w * 4)"
  have "Suc y * stride \<le> h * stride" using assms(3) by (intro mult_le_mono1) simp
  then have "y * stride + w * 4 \<le> length data" using assms(1,2) by (simp add: mult.commute)
  then have "length ?row = w * 4" by (simp add: slice_def)
  then have "chunks 4 ?row = map (\<lambda>i. slice ?row (i * 4) (i * 4 + 4)) [0..<w]" by (rule chunks_slices)
  then show ?thesis unfolding decode_row_def
    by (simp add: comp_def) (intro concat_map_upt_cong, simp add: word_at_def slice_slice add.assoc)
qed

lemma decode_Ok:
  assumes "decode format width height stride data = Ok rgba"
  shows "width \<noteq> 0" and "height \<noteq> 0" and "unat width * 4 \<le> unat stride"
    and "unat stride * unat height \<le> length data" and "format_supported format"
    and "rgba = image_of (unat width) (unat height) (\<lambda>x y. convert_pixel format (word_at data (unat stride) x y))"
proof -
  show guards: "width \<noteq> 0" "height \<noteq> 0" "unat width * 4 \<le> unat stride"
      "unat stride * unat height \<le> length data" "format_supported format"
    using assms by (auto simp: decode_def Let_def split: if_splits)
  have "rgba = concat (map (decode_row format (unat width) (unat stride) data) [0..<unat height])"
    using assms by (auto simp: decode_def Let_def split: if_splits)
  then show "rgba = image_of (unat width) (unat height) (\<lambda>x y. convert_pixel format (word_at data (unat stride) x y))"
    unfolding image_of_def using decode_row_words [OF guards(3,4)] by (auto intro: concat_map_upt_cong)
qed

lemma length_word_at:
  assumes "w * 4 \<le> stride" and "stride * h \<le> length data" and "x < w" and "y < h"
  shows "length (word_at data stride x y) = 4"
proof -
  have "Suc y * stride \<le> h * stride" using assms(4) by (intro mult_le_mono1) simp
  then have "y * stride + x * 4 + 4 \<le> length data" using assms(1,2,3) by (simp add: mult.commute)
  then show ?thesis by (simp add: word_at_def slice_def)
qed

lemma decode_length:
  assumes "decode format width height stride data = Ok rgba"
  shows "length rgba = unat width * unat height * 4"
  unfolding decode_Ok(6) [OF assms]
  by (rule length_image_of) (rule length_convert_pixel length_word_at [OF decode_Ok(3,4) [OF assms]] | assumption)+

lemma flip_rows_image:
  assumes "length rgba = unat w * unat h * 4"
  shows "flip_rows rgba w h = Some (image_of (unat w) (unat h) (\<lambda>x y. pixel rgba (unat w) x (unat h - 1 - y)))"
proof -
  let ?w = "unat w" and ?h = "unat h"
  have row: "slice rgba (y * (?w * 4)) ((y + 1) * (?w * 4)) = concat (map (\<lambda>x. pixel rgba ?w x y) [0..<?w])"
    if "y < ?h" for y
  proof -
    let ?row = "slice rgba (y * (?w * 4)) ((y + 1) * (?w * 4))"
    have "Suc y * (?w * 4) \<le> ?h * (?w * 4)" using that by (intro mult_le_mono1) simp
    then have "length ?row = ?w * 4" using assms by (simp add: slice_def algebra_simps)
    from concat_slices [OF this] have "?row = concat (map (\<lambda>x. slice ?row (x * 4) (x * 4 + 4)) [0..<?w])" by simp
    also have "\<dots> = concat (map (\<lambda>x. pixel rgba ?w x y) [0..<?w])"
      by (intro concat_map_upt_cong) (simp add: slice_slice pixel_def algebra_simps)
    finally show ?thesis .
  qed
  have "concat (map (\<lambda>d. let s = ?h - 1 - d in slice rgba (s * (?w * 4)) ((s + 1) * (?w * 4))) [0..<?h])
      = image_of ?w ?h (\<lambda>x y. pixel rgba ?w x (?h - 1 - y))"
    unfolding image_of_def Let_def by (intro concat_map_upt_cong row) simp
  then show ?thesis using assms by (simp add: flip_rows_def Let_def mult.commute mult.left_commute)
qed

section \<open>Properties\<close>

text \<open>A buffer holds an upright image under a transform: each pixel stands where the protocol's definition of
  the transform puts it.\<close>

definition is_transformed :: "Transform \<Rightarrow> bytes \<Rightarrow> nat \<Rightarrow> nat \<Rightarrow> bytes \<Rightarrow> bool" where
  "is_transformed t img lw lh buf \<longleftrightarrow> length img = lw * lh * 4 \<and> length buf = lw * lh * 4
     \<and> list_all (\<lambda>y. list_all (\<lambda>x. case transform_spec t x y lw lh of
          ((sx, sy), bw, bh) \<Rightarrow> pixel buf bw sx sy = pixel img lw x y) [0..<lw]) [0..<lh]"

lemma is_transformed_pixel:
  assumes "is_transformed t img lw lh buf" and "x < lw" and "y < lh"
    and "target t x y lw lh = (sx, sy)"
  shows "pixel buf (if swaps_axes t then lh else lw) sx sy = pixel img lw x y"
proof -
  have spec: "transform_spec t x y lw lh = ((sx, sy), (if swaps_axes t then (lh, lw) else (lw, lh)))"
    using assms(4) transform_spec_size [of t x y lw lh] by (metis target_def prod.collapse)
  have "case transform_spec t x y lw lh of ((sx, sy), bw, bh) \<Rightarrow> pixel buf bw sx sy = pixel img lw x y"
    using assms(1-3) by (auto simp: is_transformed_def list_all_iff)
  then show ?thesis unfolding spec by (auto split: if_splits)
qed

lemma target_pixel_length:
  fixes bw bh :: u32
  assumes "(ow, oh) = (if swaps_axes t then (bh, bw) else (bw, bh))" and "length buf = unat bw * unat bh * 4"
    and "x < unat ow" and "y < unat oh"
  shows "length (case target t x y (unat ow) (unat oh) of (sx, sy) \<Rightarrow> pixel buf (unat bw) sx sy) = 4"
  using target_bounds [OF assms(3,4), of t] buffer_size_swap(2,3) [OF assms(1)] assms(2)
  by (auto intro!: length_pixel split: prod.split if_splits)

lemma untransform_is_transformed:
  assumes dims: "(ow, oh) = (if swaps_axes t then (bh, bw) else (bw, bh))"
    and fits: "unat bw * unat bh * 4 \<le> 2 ^ 32" and buf: "length buf = unat bw * unat bh * 4"
  shows "\<exists>img. untransform buf bw bh t = Some (img, ow, oh) \<and> is_transformed t img (unat ow) (unat oh) buf"
proof -
  let ?px = "\<lambda>x y. case target t x y (unat ow) (unat oh) of (sx, sy) \<Rightarrow> pixel buf (unat bw) sx sy"
  let ?img = "image_of (unat ow) (unat oh) ?px"
  note size = buffer_size_swap [OF dims]
  have len: "length (?px x y) = 4" if "x < unat ow" "y < unat oh" for x y
    using target_pixel_length [OF dims buf that] .
  have "case transform_spec t x y (unat ow) (unat oh) of
          ((sx, sy), bw, bh) \<Rightarrow> pixel buf bw sx sy = pixel ?img (unat ow) x y"
    if "x < unat ow" "y < unat oh" for x y
    using pixel_image_of [of "unat ow" "unat oh" ?px, OF len that] transform_spec_size [of t x y "unat ow" "unat oh"] size(2)
    by (auto simp: target_def split: prod.splits if_splits)
  then have "is_transformed t ?img (unat ow) (unat oh) buf"
    using length_image_of [of "unat ow" "unat oh" ?px, OF len] buf size(1)
    by (auto simp: is_transformed_def list_all_iff)
  then show ?thesis using untransform_pixels [OF dims fits buf] by blast
qed

text \<open>
  C21 Undoing a transform is exact: for each of the eight output transforms (a mirror image and up to three
  quarter turns, as the Wayland protocol defines them) a buffer that holds an image under the transform is
  turned back into exactly that image with its own dimensions, without panic or index overflow, as long as
  the pixels take at most \<open>2 ^ 32\<close> bytes (a capture buffer never has more than \<open>2 ^ 31 - 1\<close>).
\<close>

theorem untransform_restores:
  assumes "is_transformed t img (unat lw) (unat lh) buf"
    and "(bw, bh) = (if swaps_axes t then (lh, lw) else (lw, lh))"
    and "unat lw * unat lh * 4 \<le> 2 ^ 32"
  shows "untransform buf bw bh t = Some (img, lw, lh)"
proof -
  have dims: "(lw, lh) = (if swaps_axes t then (bh, bw) else (bw, bh))"
    using assms(2) by (auto split: if_splits)
  note size = buffer_size_swap [OF dims]
  have len: "length img = unat lw * unat lh * 4" and "length buf = unat bw * unat bh * 4"
    using assms(1) size(1) by (auto simp: is_transformed_def)
  then have "untransform buf bw bh t =
     Some (image_of (unat lw) (unat lh)
             (\<lambda>x y. case target t x y (unat lw) (unat lh) of (sx, sy) \<Rightarrow> pixel buf (unat bw) sx sy), lw, lh)"
    using assms(3) size(1) by (intro untransform_pixels [OF dims]) simp_all
  also have "image_of (unat lw) (unat lh)
               (\<lambda>x y. case target t x y (unat lw) (unat lh) of (sx, sy) \<Rightarrow> pixel buf (unat bw) sx sy)
           = image_of (unat lw) (unat lh) (pixel img (unat lw))"
    using is_transformed_pixel [OF assms(1)] size(2)
    by (intro image_of_cong) (auto split: prod.splits)
  finally show ?thesis using image_of_pixel [OF len] by simp
qed

theorem untransform_restores_witness:
  "untransform (concat (map (replicate 4) [3, 6, 2, 5, 1, 4])) 2 3 T90
     = Some (concat (map (replicate 4) [1, 2, 3, 4, 5, 6]), 3, 2)"
proof (rule untransform_restores)
  show "is_transformed T90 (concat (map (replicate 4) [1, 2, 3, 4, 5, 6])) (unat (3 :: u32)) (unat (2 :: u32))
          (concat (map (replicate 4) [3, 6, 2, 5, 1, 4]))"
    by code_simp
qed simp_all

text \<open>
  Decoding succeeds exactly for a non-empty size, rows at least as long as their pixels, enough data and
  one of the four supported formats, and then each pixel of the result is the converted word at its
  place, whatever the padding at the end of the rows.
\<close>

theorem decode_spec:
  "decode format width height stride data = Ok rgba \<longleftrightarrow>
     width \<noteq> 0 \<and> height \<noteq> 0 \<and> unat width * 4 \<le> unat stride \<and> unat stride * unat height \<le> length data
     \<and> format_supported format
     \<and> rgba = image_of (unat width) (unat height) (\<lambda>x y. convert_pixel format (word_at data (unat stride) x y))"
    (is "_ \<longleftrightarrow> ?R")
proof
  assume "decode format width height stride data = Ok rgba"
  note D = decode_Ok [OF this]
  then show ?R by simp
next
  assume R: ?R
  have "unat stride * unat height \<le> (2 ^ 32 - 1) * (2 ^ 32 - 1)"
    using unsigned_less [of stride, where 'a = nat] unsigned_less [of height, where 'a = nat]
    by (intro mult_le_mono) simp_all
  then have "\<not> u64_max < unat stride * unat height" by (simp add: u64_max_def)
  with R obtain rgba' where "decode format width height stride data = Ok rgba'"
    by (auto simp: decode_def Let_def)
  with R decode_Ok(6) show "decode format width height stride data = Ok rgba" by metis
qed

end
