(* ===== verification/Capture_Model.thy ===== *)
theory Capture_Model
  imports Frame_Model
begin

text \<open>
  Model of \<^verbatim>\<open>host/crates/emersia-daemon/src/capture/\<close>: the choice of backend, output and pixel format
  (\<^verbatim>\<open>mod.rs\<close>), the state the Wayland events build up (the \<^verbatim>\<open>Dispatch\<close> implementations), the deadline-bounded
  event loop \<^verbatim>\<open>wait_until\<close>, and the two capture sequences (\<^verbatim>\<open>ext.rs\<close>, \<^verbatim>\<open>wlr.rs\<close>).

  The compositor is an input: a stream of loop iterations, each with the events delivered and the
  outcomes of the system calls, and the bytes found in the shared buffer when it is read back.  The
  protocol requests a capture sends are its output.  A proxy is the pair of the global's name and the
  version it was bound with.  Times are nanoseconds.
\<close>

section \<open>Choices\<close>

definition CONSTRAINT_TIMEOUT :: nat where "CONSTRAINT_TIMEOUT = 5 * 10 ^ 9"
definition FRAME_TIMEOUT :: nat where "FRAME_TIMEOUT = 10 * 10 ^ 9"

record CaptureTimings =
  ct_constraints :: nat
  ct_frame_wait :: nat
  ct_shm_read :: nat
  ct_decode :: nat
  ct_transform :: nat
  ct_total :: nat

record CapturedFrame =
  cf_frame :: Frame
  cf_timings :: CaptureTimings

datatype Backend = BackendExt | BackendWlr

fun protocol_name :: "Backend \<Rightarrow> string" where
  "protocol_name BackendExt = ''ext-image-copy-capture''"
| "protocol_name BackendWlr = ''wlr-screencopy''"

datatype BackendPref = PrefAuto | PrefExt | PrefWlr

fun choose_backend :: "BackendPref \<Rightarrow> bool \<Rightarrow> bool \<Rightarrow> string + Backend" where
  "choose_backend PrefExt has_ext has_wlr =
     (if has_ext then Ok BackendExt
      else Err ''--backend ext requested but the compositor does not advertise ext-image-copy-capture'')"
| "choose_backend PrefWlr has_ext has_wlr =
     (if has_wlr then Ok BackendWlr
      else Err ''--backend wlr requested but the compositor does not advertise wlr-screencopy'')"
| "choose_backend PrefAuto has_ext has_wlr =
     (if has_ext then Ok BackendExt
      else if has_wlr then Ok BackendWlr
      else Err ''the compositor advertises neither ext-image-copy-capture nor wlr-screencopy'')"

fun position_from :: "nat \<Rightarrow> 'a list \<Rightarrow> 'a \<Rightarrow> nat option" where
  "position_from i [] x = None"
| "position_from i (y # ys) x = (if y = x then Some i else position_from (Suc i) ys x)"

definition select_output :: "string list \<Rightarrow> string option \<Rightarrow> string + nat" where
  "select_output labels want =
     (if labels = [] then Err ''the compositor advertised no wl_output monitors''
      else case want of
             None \<Rightarrow> Ok 0
           | Some nm \<Rightarrow>
               ok_or (position_from 0 labels nm)
                 (''no output named '' @ str_debug nm @ ''; available: '' @ str_join '', '' labels))"

definition preferred_formats :: "shm_format list" where
  "preferred_formats = [Xrgb8888, Argb8888, Xbgr8888, Rgba8888]"

definition pick_shm_format :: "shm_format list \<Rightarrow> string + shm_format" where
  "pick_shm_format formats =
     (case filter (\<lambda>f. f \<in> set formats) preferred_formats of
        f # _ \<Rightarrow> Ok f
      | [] \<Rightarrow> Err (''the compositor offered no supported shm format (got: [''
                  @ str_join '', '' (map format_debug formats) @ ''])''))"

section \<open>State\<close>

type_synonym proxy = "u32 \<times> u32"

record OutputInfo =
  oi_global_name :: u32
  oi_proxy :: proxy
  oi_name :: "string option"
  oi_make :: string
  oi_model :: string
  oi_width :: u32
  oi_height :: u32
  oi_scale :: "32 word"
  oi_transform :: Transform

definition OutputInfo_new :: "u32 \<Rightarrow> proxy \<Rightarrow> OutputInfo" where
  "OutputInfo_new gname pr =
     \<lparr>oi_global_name = gname, oi_proxy = pr, oi_name = None, oi_make = [], oi_model = [], oi_width = 0,
      oi_height = 0, oi_scale = 1, oi_transform = Normal\<rparr>"

definition OutputInfo_label :: "OutputInfo \<Rightarrow> nat \<Rightarrow> string" where
  "OutputInfo_label self index =
     (case oi_name self of Some nm \<Rightarrow> nm | None \<Rightarrow> ''output-'' @ show_nat index)"

record ExtState =
  ex_buffer_width :: u32
  ex_buffer_height :: u32
  ex_shm_formats :: "shm_format list"
  ex_constraints_done :: bool
  ex_stopped :: bool
  ex_transform :: "Transform option"
  ex_frame_ready :: bool
  ex_failure :: "string option"

definition ExtState_reset :: ExtState where
  "ExtState_reset =
     \<lparr>ex_buffer_width = 0, ex_buffer_height = 0, ex_shm_formats = [], ex_constraints_done = False,
      ex_stopped = False, ex_transform = None, ex_frame_ready = False, ex_failure = None\<rparr>"

record WlrState =
  wr_have_buffer :: bool
  wr_buffer_done :: bool
  wr_dmabuf_only :: bool
  wr_buffer_format :: "shm_format option"
  wr_buffer_width :: u32
  wr_buffer_height :: u32
  wr_buffer_stride :: u32
  wr_y_invert :: bool
  wr_ready :: bool
  wr_failed :: bool

definition WlrState_reset :: WlrState where
  "WlrState_reset =
     \<lparr>wr_have_buffer = False, wr_buffer_done = False, wr_dmabuf_only = False, wr_buffer_format = None,
      wr_buffer_width = 0, wr_buffer_height = 0, wr_buffer_stride = 0, wr_y_invert = False,
      wr_ready = False, wr_failed = False\<rparr>"

record State =
  st_shm :: "proxy option"
  st_ext_source_mgr :: "proxy option"
  st_ext_copy_mgr :: "proxy option"
  st_wlr_mgr :: "proxy option"
  st_outputs :: "OutputInfo list"
  st_ext :: ExtState
  st_wlr :: WlrState

definition State_new :: State where
  "State_new =
     \<lparr>st_shm = None, st_ext_source_mgr = None, st_ext_copy_mgr = None, st_wlr_mgr = None, st_outputs = [],
      st_ext = ExtState_reset, st_wlr = WlrState_reset\<rparr>"

definition output_labels :: "State \<Rightarrow> string list" where
  "output_labels self = map (\<lambda>(i, out). OutputInfo_label out i) (enumerate 0 (st_outputs self))"

section \<open>Events\<close>

text \<open>A protocol enumeration value, known or not to this version of the bindings; for flags the value is
  whether the one flag the code tests is set.\<close>

datatype 'a WEnum = WValue 'a | WUnknown u32

datatype FailureReason = BufferConstraints | ReasonStopped | OtherReason string

datatype registry_event = Global u32 string u32 | GlobalRemove u32 | OtherRegistry

datatype output_event =
    Geometry string string "Transform WEnum"
  | Mode "bool WEnum" "32 word" "32 word"
  | Scale "32 word"
  | OutputName string
  | OtherOutput

datatype session_event = BufferSize u32 u32 | ShmFormat "shm_format WEnum" | SessionDone | SessionStopped | OtherSession

datatype ext_frame_event =
    FrameTransform "Transform WEnum" | FrameReady | FrameFailed "FailureReason WEnum" | OtherFrame

datatype wlr_frame_event =
    WlrBuffer "shm_format WEnum" u32 u32 u32
  | WlrFlags "bool WEnum"
  | WlrReady
  | WlrFailed
  | WlrBufferDone
  | WlrLinuxDmabuf
  | OtherWlr

text \<open>An event with the object it is about; for outputs the global's name is the user data of the proxy.\<close>

datatype wl_event =
    RegistryEvent registry_event
  | OutputEvent u32 output_event
  | SessionEvent nat session_event
  | ExtFrameEvent nat ext_frame_event
  | WlrFrameEvent nat wlr_frame_event
  | IgnoredEvent

definition registry_dispatch :: "State \<Rightarrow> registry_event \<Rightarrow> State" where
  "registry_dispatch state ev =
     (case ev of
        Global gname interface version \<Rightarrow>
          if interface = ''wl_shm'' then state\<lparr>st_shm := Some (gname, min version 3)\<rparr>
          else if interface = ''wl_output''
          then state\<lparr>st_outputs := st_outputs state @ [OutputInfo_new gname (gname, min version 4)]\<rparr>
          else if interface = ''ext_output_image_capture_source_manager_v1''
          then state\<lparr>st_ext_source_mgr := Some (gname, min version 1)\<rparr>
          else if interface = ''ext_image_copy_capture_manager_v1''
          then state\<lparr>st_ext_copy_mgr := Some (gname, min version 1)\<rparr>
          else if interface = ''zwlr_screencopy_manager_v1''
          then state\<lparr>st_wlr_mgr := Some (gname, min version 3)\<rparr>
          else state
      | GlobalRemove gname \<Rightarrow>
          state\<lparr>st_outputs := filter (\<lambda>out. oi_global_name out \<noteq> gname) (st_outputs state)\<rparr>
      | OtherRegistry \<Rightarrow> state)"

definition i32_or_zero :: "32 word \<Rightarrow> u32" where
  "i32_or_zero v = (if sint v < 0 then 0 else v)"

definition output_update :: "output_event \<Rightarrow> OutputInfo \<Rightarrow> OutputInfo" where
  "output_update ev info =
     (case ev of
        Geometry mk mdl tr \<Rightarrow>
          info\<lparr>oi_make := mk, oi_model := mdl,
               oi_transform := (case tr of WValue t \<Rightarrow> t | WUnknown _ \<Rightarrow> Normal)\<rparr>
      | Mode (WValue current) w h \<Rightarrow>
          if current then info\<lparr>oi_width := i32_or_zero w, oi_height := i32_or_zero h\<rparr> else info
      | Scale factor \<Rightarrow> info\<lparr>oi_scale := factor\<rparr>
      | OutputName nm \<Rightarrow> info\<lparr>oi_name := Some nm\<rparr>
      | _ \<Rightarrow> info)"

fun update_first :: "('a \<Rightarrow> bool) \<Rightarrow> ('a \<Rightarrow> 'a) \<Rightarrow> 'a list \<Rightarrow> 'a list" where
  "update_first P f [] = []"
| "update_first P f (x # xs) = (if P x then f x # xs else x # update_first P f xs)"

definition output_dispatch :: "State \<Rightarrow> u32 \<Rightarrow> output_event \<Rightarrow> State" where
  "output_dispatch state gname ev =
     state\<lparr>st_outputs := update_first (\<lambda>out. oi_global_name out = gname) (output_update ev) (st_outputs state)\<rparr>"

definition session_dispatch :: "State \<Rightarrow> session_event \<Rightarrow> State" where
  "session_dispatch state ev =
     (case ev of
        BufferSize w h \<Rightarrow> state\<lparr>st_ext := (st_ext state)\<lparr>ex_buffer_width := w, ex_buffer_height := h\<rparr>\<rparr>
      | ShmFormat (WValue f) \<Rightarrow>
          state\<lparr>st_ext := (st_ext state)\<lparr>ex_shm_formats := ex_shm_formats (st_ext state) @ [f]\<rparr>\<rparr>
      | SessionDone \<Rightarrow> state\<lparr>st_ext := (st_ext state)\<lparr>ex_constraints_done := True\<rparr>\<rparr>
      | SessionStopped \<Rightarrow> state\<lparr>st_ext := (st_ext state)\<lparr>ex_stopped := True\<rparr>\<rparr>
      | _ \<Rightarrow> state)"

fun describe_failure :: "FailureReason WEnum \<Rightarrow> string" where
  "describe_failure (WValue BufferConstraints) = ''buffer constraints could not be satisfied''"
| "describe_failure (WValue ReasonStopped) = ''capture session stopped''"
| "describe_failure (WValue (OtherReason dbg)) = ''failure reason '' @ dbg"
| "describe_failure (WUnknown v) = ''unknown failure reason '' @ show_nat (unat v)"

definition ext_frame_dispatch :: "State \<Rightarrow> ext_frame_event \<Rightarrow> State" where
  "ext_frame_dispatch state ev =
     (case ev of
        FrameTransform tr \<Rightarrow>
          state\<lparr>st_ext := (st_ext state)
            \<lparr>ex_transform := Some (case tr of WValue t \<Rightarrow> t | WUnknown _ \<Rightarrow> Normal)\<rparr>\<rparr>
      | FrameReady \<Rightarrow> state\<lparr>st_ext := (st_ext state)\<lparr>ex_frame_ready := True\<rparr>\<rparr>
      | FrameFailed reason \<Rightarrow> state\<lparr>st_ext := (st_ext state)\<lparr>ex_failure := Some (describe_failure reason)\<rparr>\<rparr>
      | OtherFrame \<Rightarrow> state)"

definition wlr_frame_dispatch :: "State \<Rightarrow> wlr_frame_event \<Rightarrow> State" where
  "wlr_frame_dispatch state ev =
     (let upd = (\<lambda>f. state\<lparr>st_wlr := f (st_wlr state)\<rparr>) in
      case ev of
        WlrBuffer format w h stride \<Rightarrow>
          (let fmt = (case format of WValue f \<Rightarrow> Some f | WUnknown _ \<Rightarrow> None)
           in upd (\<lambda>s. s\<lparr>wr_buffer_format := fmt, wr_buffer_width := w, wr_buffer_height := h,
                          wr_buffer_stride := stride, wr_have_buffer := (fmt \<noteq> None)\<rparr>))
      | WlrFlags (WValue invert) \<Rightarrow> upd (\<lambda>s. s\<lparr>wr_y_invert := invert\<rparr>)
      | WlrReady \<Rightarrow> upd (\<lambda>s. s\<lparr>wr_ready := True\<rparr>)
      | WlrFailed \<Rightarrow> upd (\<lambda>s. s\<lparr>wr_failed := True\<rparr>)
      | WlrBufferDone \<Rightarrow> upd (\<lambda>s. s\<lparr>wr_buffer_done := True\<rparr>)
      | WlrLinuxDmabuf \<Rightarrow> upd (\<lambda>s. s\<lparr>wr_dmabuf_only := True\<rparr>)
      | _ \<Rightarrow> state)"

fun dispatch :: "State \<Rightarrow> wl_event \<Rightarrow> State" where
  "dispatch state (RegistryEvent ev) = registry_dispatch state ev"
| "dispatch state (OutputEvent gname ev) = output_dispatch state gname ev"
| "dispatch state (SessionEvent obj ev) = session_dispatch state ev"
| "dispatch state (ExtFrameEvent obj ev) = ext_frame_dispatch state ev"
| "dispatch state (WlrFrameEvent obj ev) = wlr_frame_dispatch state ev"
| "dispatch state IgnoredEvent = state"

section \<open>The event loop\<close>

datatype poll_result = PollOk nat | PollIntr | PollErr string

text \<open>What one iteration of the loop meets: the events dispatched, the results of the calls, and the two
  clock readings.\<close>

record tick =
  tk_events :: "wl_event list"
  tk_dispatch_err :: "string option"
  tk_now :: nat
  tk_flush_err :: "string option"
  tk_guard :: bool
  tk_now_poll :: nat
  tk_poll :: poll_result
  tk_read_err :: "string option"

definition i64_max :: nat where "i64_max = 9223372036854775807"

partial_function (option) wait_until ::
  "(nat \<Rightarrow> tick) \<Rightarrow> nat \<Rightarrow> State \<Rightarrow> nat \<Rightarrow> string \<Rightarrow> (State \<Rightarrow> bool) \<Rightarrow> ((string + unit) \<times> State \<times> nat) option" where
  "wait_until env n state deadline what ready =
     (let tk = env n; state = foldl dispatch state (tk_events tk) in
      case tk_dispatch_err tk of
        Some e \<Rightarrow> Some (Err e, state, Suc n)
      | None \<Rightarrow>
          if ready state then Some (Ok (), state, Suc n)
          else if deadline \<le> tk_now tk then Some (Err (''timed out waiting for '' @ what), state, Suc n)
          else case tk_flush_err tk of
            Some e \<Rightarrow> Some (Err e, state, Suc n)
          | None \<Rightarrow>
              if \<not> tk_guard tk then wait_until env (Suc n) state deadline what ready
              else if i64_max < (deadline - tk_now_poll tk) div 10 ^ 9
              then Some (Err ''capture timeout is out of range'', state, Suc n)
              else case tk_poll tk of
                PollOk k \<Rightarrow>
                  if k = 0 then Some (Err (''timed out waiting for '' @ what), state, Suc n)
                  else (case tk_read_err tk of
                      Some e \<Rightarrow> Some (Err e, state, Suc n)
                    | None \<Rightarrow> wait_until env (Suc n) state deadline what ready)
              | PollIntr \<Rightarrow> wait_until env (Suc n) state deadline what ready
              | PollErr e \<Rightarrow> Some (Err ''failed to poll the Wayland socket'', state, Suc n))"

section \<open>The capture sequences\<close>

datatype request =
    CreateSource proxy | CreateSession | CreatePool "32 word" | CreateBuffer "32 word" "32 word" "32 word" shm_format
  | CreateFrame | AttachBuffer | DamageBuffer "32 word" "32 word" | CaptureFrame
  | CaptureOutput proxy | CopyFrame
  | DestroyFrame | DestroySession | DestroySource | DestroyBuffer | DestroyPool

datatype cap_outcome = CapOk CapturedFrame | CapErr string | CapPanic

text \<open>The surroundings of one capture: the loop iterations, the clock readings in program order, failures of
  the temporary file's creation and of reading it, and its content at the moment of reading.\<close>

record cap_env =
  ce_ticks :: "nat \<Rightarrow> tick"
  ce_clock :: "nat \<Rightarrow> nat"
  ce_create_io :: "nat \<Rightarrow> string option"
  ce_read_io :: "nat \<Rightarrow> string option"
  ce_written :: bytes

definition elapsed :: "cap_env \<Rightarrow> nat \<Rightarrow> nat \<Rightarrow> nat" where
  "elapsed E a b = ce_clock E b - ce_clock E a"

definition capture_timings :: "cap_env \<Rightarrow> CaptureTimings" where
  "capture_timings E =
     \<lparr>ct_constraints = elapsed E 1 3, ct_frame_wait = elapsed E 4 6, ct_shm_read = elapsed E 7 8,
      ct_decode = elapsed E 9 10, ct_transform = elapsed E 11 12, ct_total = elapsed E 0 13\<rparr>"

text \<open>The requests of \<^verbatim>\<open>ShmBuffer::create\<close>, and of its \<^verbatim>\<open>Drop\<close>.\<close>

definition create_requests :: "ShmBuffer \<Rightarrow> request list" where
  "create_requests b =
     [CreatePool (sb_pool_size b), CreateBuffer (sb_width b) (sb_height b) (sb_stride b) (sb_format b)]"

definition ShmBuffer_drop :: "request list" where
  "ShmBuffer_drop = [DestroyBuffer, DestroyPool]"

text \<open>The last phase, from the pixels to the upright frame; \<open>invert\<close> only for screencopy.\<close>

definition finish_frame ::
  "cap_env \<Rightarrow> ShmBuffer \<Rightarrow> shm_format \<Rightarrow> u32 \<Rightarrow> u32 \<Rightarrow> u32 \<Rightarrow> bool \<Rightarrow> Transform \<Rightarrow> cap_outcome" where
  "finish_frame E shm_buffer format width height stride invert transform =
     (case read_pixels (ce_read_io E) (shm_buffer\<lparr>sb_file := ce_written E\<rparr>) stride height of
        Inl e \<Rightarrow> CapErr e
      | Inr data \<Rightarrow>
         (case decode format width height stride data of
            Inl e \<Rightarrow> CapErr e
          | Inr rgba \<Rightarrow>
             (case (if invert then flip_rows rgba width height else Some rgba) of
                None \<Rightarrow> CapPanic
              | Some rgba \<Rightarrow>
                 (case untransform rgba width height transform of
                    None \<Rightarrow> CapPanic
                  | Some (rgba, out_w, out_h) \<Rightarrow>
                      CapOk \<lparr>cf_frame = Frame_new out_w out_h rgba, cf_timings = capture_timings E\<rparr>))))"

definition checked_mul_u32 :: "u32 \<Rightarrow> nat \<Rightarrow> u32 option" where
  "checked_mul_u32 a k = (if unat a * k \<le> u32_max then Some (a * of_nat k) else None)"

text \<open>The second half of the ext sequence, once the constraints are known.\<close>

definition ext_copy ::
  "cap_env \<Rightarrow> nat \<Rightarrow> State \<Rightarrow> request list \<Rightarrow> ShmBuffer \<Rightarrow> shm_format \<Rightarrow> u32 \<Rightarrow> u32 \<Rightarrow> u32
   \<Rightarrow> (cap_outcome \<times> State \<times> request list \<times> nat) option" where
  "ext_copy E n state reqs shm_buffer format width height stride =
     (let reqs = reqs @ create_requests shm_buffer @ [CreateFrame, AttachBuffer, DamageBuffer width height, CaptureFrame] in
      case wait_until (ce_ticks E) n state (ce_clock E 5 + FRAME_TIMEOUT) ''frame copy''
             (\<lambda>s. ex_frame_ready (st_ext s) \<or> ex_failure (st_ext s) \<noteq> None \<or> ex_stopped (st_ext s)) of
        None \<Rightarrow> None
      | Some (Inl e, state, n) \<Rightarrow> Some (CapErr e, state, reqs @ ShmBuffer_drop, n)
      | Some (Inr _, state, n) \<Rightarrow>
         (let failure = ex_failure (st_ext state);
              transform = (case ex_transform (st_ext state) of Some t \<Rightarrow> t | None \<Rightarrow> Normal);
              reqs = reqs @ [DestroyFrame, DestroySession, DestroySource]
          in case failure of
               Some reason \<Rightarrow>
                 Some (CapErr (''the compositor failed the frame capture: '' @ reason), state, reqs @ ShmBuffer_drop, n)
             | None \<Rightarrow>
                 if \<not> ex_frame_ready (st_ext state)
                 then Some (CapErr ''the capture session stopped before a frame was produced'', state,
                            reqs @ ShmBuffer_drop, n)
                 else Some (finish_frame E shm_buffer format width height stride False transform, state,
                            reqs @ ShmBuffer_drop, n)))"

definition ext_capture ::
  "cap_env \<Rightarrow> nat \<Rightarrow> State \<Rightarrow> proxy \<Rightarrow> (cap_outcome \<times> State \<times> request list \<times> nat) option" where
  "ext_capture E n state output =
     (let state = state\<lparr>st_ext := ExtState_reset\<rparr> in
      if st_ext_source_mgr state = None
      then Some (CapErr ''the compositor does not advertise ext_output_image_capture_source_manager_v1'', state, [], n)
      else if st_ext_copy_mgr state = None
      then Some (CapErr ''the compositor does not advertise ext_image_copy_capture_manager_v1'', state, [], n)
      else if st_shm state = None
      then Some (CapErr ''the compositor does not advertise wl_shm'', state, [], n)
      else
        let reqs = [CreateSource output, CreateSession] in
        case wait_until (ce_ticks E) n state (ce_clock E 2 + CONSTRAINT_TIMEOUT) ''capture constraints''
               (\<lambda>s. ex_constraints_done (st_ext s) \<or> ex_stopped (st_ext s)) of
          None \<Rightarrow> None
        | Some (Inl e, state, n) \<Rightarrow> Some (CapErr e, state, reqs, n)
        | Some (Inr _, state, n) \<Rightarrow>
            if ex_stopped (st_ext state)
            then Some (CapErr ''the compositor stopped the capture session before publishing constraints'', state, reqs, n)
            else case pick_shm_format (ex_shm_formats (st_ext state)) of
              Inl e \<Rightarrow> Some (CapErr e, state, reqs, n)
            | Inr format \<Rightarrow>
               (let width = ex_buffer_width (st_ext state); height = ex_buffer_height (st_ext state) in
                case checked_mul_u32 width 4 of
                  None \<Rightarrow> Some (CapErr ''capture stride overflows'', state, reqs, n)
                | Some stride \<Rightarrow>
                   (case ShmBuffer_create (ce_create_io E) width height stride format of
                      Inl e \<Rightarrow> Some (CapErr e, state, reqs, n)
                    | Inr shm_buffer \<Rightarrow> ext_copy E n state reqs shm_buffer format width height stride)))"

text \<open>The second half of the screencopy sequence.\<close>

definition wlr_copy ::
  "cap_env \<Rightarrow> nat \<Rightarrow> State \<Rightarrow> request list \<Rightarrow> ShmBuffer \<Rightarrow> shm_format \<Rightarrow> u32 \<Rightarrow> u32 \<Rightarrow> u32 \<Rightarrow> Transform
   \<Rightarrow> (cap_outcome \<times> State \<times> request list \<times> nat) option" where
  "wlr_copy E n state reqs shm_buffer format width height stride transform =
     (let reqs = reqs @ create_requests shm_buffer @ [CopyFrame] in
      case wait_until (ce_ticks E) n state (ce_clock E 5 + FRAME_TIMEOUT) ''screencopy frame''
             (\<lambda>s. wr_ready (st_wlr s) \<or> wr_failed (st_wlr s)) of
        None \<Rightarrow> None
      | Some (Inl e, state, n) \<Rightarrow> Some (CapErr e, state, reqs @ ShmBuffer_drop, n)
      | Some (Inr _, state, n) \<Rightarrow>
         (let y_invert = wr_y_invert (st_wlr state);
              reqs = reqs @ [DestroyFrame]
          in if \<not> wr_ready (st_wlr state)
             then Some (CapErr ''the compositor failed the screencopy'', state, reqs @ ShmBuffer_drop, n)
             else Some (finish_frame E shm_buffer format width height stride y_invert transform, state,
                        reqs @ ShmBuffer_drop, n)))"

definition wlr_described :: "bool \<Rightarrow> State \<Rightarrow> bool" where
  "wlr_described needs_buffer_done s \<longleftrightarrow>
     wr_failed (st_wlr s)
     \<or> wr_have_buffer (st_wlr s) \<and> (\<not> needs_buffer_done \<or> wr_buffer_done (st_wlr s))
     \<or> wr_dmabuf_only (st_wlr s)"

definition wlr_capture ::
  "cap_env \<Rightarrow> nat \<Rightarrow> State \<Rightarrow> proxy \<Rightarrow> Transform \<Rightarrow> (cap_outcome \<times> State \<times> request list \<times> nat) option" where
  "wlr_capture E n state output transform =
     (let state = state\<lparr>st_wlr := WlrState_reset\<rparr> in
      case st_wlr_mgr state of
        None \<Rightarrow> Some (CapErr ''the compositor does not advertise zwlr_screencopy_manager_v1'', state, [], n)
      | Some mgr \<Rightarrow>
          if st_shm state = None
          then Some (CapErr ''the compositor does not advertise wl_shm'', state, [], n)
          else
            let reqs = [CaptureOutput output]; needs_buffer_done = 3 \<le> snd mgr in
            case wait_until (ce_ticks E) n state (ce_clock E 2 + CONSTRAINT_TIMEOUT)
                   ''screencopy buffer description'' (wlr_described needs_buffer_done) of
              None \<Rightarrow> None
            | Some (Inl e, state, n) \<Rightarrow> Some (CapErr e, state, reqs, n)
            | Some (Inr _, state, n) \<Rightarrow>
                if wr_failed (st_wlr state)
                then Some (CapErr ''the compositor failed the screencopy request'', state, reqs, n)
                else if wr_dmabuf_only (st_wlr state) \<and> \<not> wr_have_buffer (st_wlr state)
                then Some (CapErr ''the compositor only offers dmabuf screencopy buffers (unsupported in M1.1)'',
                           state, reqs, n)
                else case wr_buffer_format (st_wlr state) of
                  None \<Rightarrow> Some (CapErr ''the compositor sent no usable buffer format'', state, reqs, n)
                | Some format \<Rightarrow>
                   (let width = wr_buffer_width (st_wlr state); height = wr_buffer_height (st_wlr state);
                        stride = wr_buffer_stride (st_wlr state)
                    in case ShmBuffer_create (ce_create_io E) width height stride format of
                         Inl e \<Rightarrow> Some (CapErr e, state, reqs, n)
                       | Inr shm_buffer \<Rightarrow> wlr_copy E n state reqs shm_buffer format width height stride transform))"

section \<open>The event loop: it returns, and only when its condition holds\<close>

lemma wait_until_returns_at:
  "deadline \<le> tk_now (env (n + k)) \<Longrightarrow> \<exists>r. wait_until env n state deadline what ready = Some r"
proof (induction k arbitrary: n state)
  case 0
  then show ?case by (subst wait_until.simps) (simp add: Let_def split: option.split)
next
  case (Suc k)
  have "\<exists>r. wait_until env (Suc n) s deadline what ready = Some r" for s
    using Suc.IH [of "Suc n" s] Suc.prems by simp
  then show ?case by (subst wait_until.simps) (simp add: Let_def split: option.split poll_result.split)
qed

text \<open>What a returned loop has done: it dispatched the events of its iterations, and reports success only if
  the condition holds.\<close>

definition wait_post :: "(nat \<Rightarrow> tick) \<Rightarrow> nat \<Rightarrow> State \<Rightarrow> (State \<Rightarrow> bool) \<Rightarrow> (string + unit) \<times> State \<times> nat \<Rightarrow> bool" where
  "wait_post env n state ready y \<longleftrightarrow> (case y of (r, s, m) \<Rightarrow>
     n < m \<and> s = foldl dispatch state (concat (map (\<lambda>i. tk_events (env i)) [n..<m])) \<and> (r = Ok () \<longrightarrow> ready s))"

lemma wait_post_stop:
  "(r = Ok () \<Longrightarrow> ready (foldl dispatch state (tk_events (env n)))) \<Longrightarrow>
   wait_post env n state ready (r, foldl dispatch state (tk_events (env n)), Suc n)"
  by (simp add: wait_post_def)

lemma wait_post_next:
  assumes "wait_post env (Suc n) (foldl dispatch state (tk_events (env n))) ready y"
  shows "wait_post env n state ready y"
  using assms by (auto simp: wait_post_def upt_conv_Cons [of n])

lemma wait_until_post:
  assumes "wait_until env n state deadline what ready = Some y"
  shows "wait_post env n state ready y"
proof (rule wait_until.raw_induct [where P = "\<lambda>env n state d w ready y. wait_post env n state ready y", OF _ assms])
  fix wait env n state deadline what ready y
  assume 1: "\<And>env n state deadline what ready y.
         wait env n state deadline what ready = Some y \<Longrightarrow> wait_post env n state ready y"
    and 2: "(let tk = env n; state = foldl dispatch state (tk_events tk) in
      case tk_dispatch_err tk of
        Some e \<Rightarrow> Some (Err e, state, Suc n)
      | None \<Rightarrow>
          if ready state then Some (Ok (), state, Suc n)
          else if deadline \<le> tk_now tk then Some (Err (''timed out waiting for '' @ what), state, Suc n)
          else case tk_flush_err tk of
            Some e \<Rightarrow> Some (Err e, state, Suc n)
          | None \<Rightarrow>
              if \<not> tk_guard tk then wait env (Suc n) state deadline what ready
              else if i64_max < (deadline - tk_now_poll tk) div 10 ^ 9
              then Some (Err ''capture timeout is out of range'', state, Suc n)
              else case tk_poll tk of
                PollOk k \<Rightarrow>
                  if k = 0 then Some (Err (''timed out waiting for '' @ what), state, Suc n)
                  else (case tk_read_err tk of
                      Some e \<Rightarrow> Some (Err e, state, Suc n)
                    | None \<Rightarrow> wait env (Suc n) state deadline what ready)
              | PollIntr \<Rightarrow> wait env (Suc n) state deadline what ready
              | PollErr e \<Rightarrow> Some (Err ''failed to poll the Wayland socket'', state, Suc n)) = Some y"
  let ?s = "foldl dispatch state (tk_events (env n))"
  have "(\<exists>r. y = (r, ?s, Suc n) \<and> (r = Ok () \<longrightarrow> ready ?s)) \<or> wait env (Suc n) ?s deadline what ready = Some y"
    using 2 by (auto simp: Let_def split: option.splits if_splits poll_result.splits)
  then show "wait_post env n state ready y"
  proof (elim disjE exE conjE)
    fix r assume "y = (r, ?s, Suc n)" and "r = Ok () \<longrightarrow> ready ?s"
    then show ?thesis by (simp add: wait_post_stop)
  next
    assume "wait env (Suc n) ?s deadline what ready = Some y"
    from 1 [OF this] show ?thesis by (rule wait_post_next)
  qed
qed

section \<open>A finished capture\<close>

lemma ShmBuffer_create_Ok:
  assumes "ShmBuffer_create io width height stride format = Ok b"
  shows "width \<noteq> 0" and "height \<noteq> 0" and "unat width * 4 \<le> unat stride"
    and "unat stride * unat height \<le> i32_max" and "length (sb_file b) = unat stride * unat height"
  using assms by (auto simp: ShmBuffer_create_def Let_def split: if_splits option.splits)

definition Frame_wf :: "Frame \<Rightarrow> bool" where
  "Frame_wf f \<longleftrightarrow> length (fr_rgba f) = unat (fr_width f) * unat (fr_height f) * 4 \<and> length (fr_rgba f) \<le> i32_max"

text \<open>The pixels the compositor left in the buffer, top row first.\<close>

definition buffer_image :: "shm_format \<Rightarrow> u32 \<Rightarrow> u32 \<Rightarrow> u32 \<Rightarrow> bool \<Rightarrow> bytes \<Rightarrow> bytes" where
  "buffer_image format width height stride invert data =
     image_of (unat width) (unat height)
       (\<lambda>x y. convert_pixel format (word_at data (unat stride) x (if invert then unat height - 1 - y else y)))"

lemma word_at_take:
  assumes "w * 4 \<le> stride" and "x < w" and "y < h"
  shows "word_at (take (stride * h) data) stride x y = word_at data stride x y"
proof -
  have "Suc y * stride \<le> h * stride" using assms(3) by (intro mult_le_mono1) simp
  then have "y * stride + x * 4 + 4 \<le> stride * h" using assms(1,2) by (simp add: mult.commute)
  then show ?thesis by (simp add: word_at_def slice_def drop_take min_def)
qed

lemma finish_frame_pixels:
  assumes read: "read_pixels (ce_read_io E) (b\<lparr>sb_file := ce_written E\<rparr>) stride height = Ok data"
    and dec: "decode format width height stride data = Ok rgba"
  shows "\<exists>img. (if invert then flip_rows rgba width height else Some rgba) = Some img
           \<and> img = buffer_image format width height stride invert (ce_written E)
           \<and> length img = unat width * unat height * 4"
proof -
  let ?w = "unat width" and ?h = "unat height" and ?s = "unat stride"
  let ?px = "\<lambda>x y. convert_pixel format (word_at (ce_written E) ?s x y)"
  note D = decode_Ok [OF dec]
  have data: "data = take (?s * ?h) (ce_written E)" and enough: "?s * ?h \<le> length (ce_written E)"
    using read by (auto simp: read_pixels_def Let_def split: option.splits if_splits)
  have rgba: "rgba = image_of ?w ?h ?px"
    unfolding D(6) by (rule image_of_cong) (simp add: data word_at_take [OF D(3)])
  have len: "length rgba = ?w * ?h * 4" by (rule decode_length [OF dec])
  have px4: "length (?px x y) = 4" if "x < ?w" "y < ?h" for x y
    by (intro length_convert_pixel length_word_at [OF D(3) enough that])
  show ?thesis
  proof (cases invert)
    case True
    have "image_of ?w ?h (\<lambda>x y. pixel rgba ?w x (?h - 1 - y)) = image_of ?w ?h (\<lambda>x y. ?px x (?h - 1 - y))"
      unfolding rgba by (rule image_of_cong) (simp add: pixel_image_of [OF px4])
    moreover have "length (image_of ?w ?h (\<lambda>x y. ?px x (?h - 1 - y))) = ?w * ?h * 4"
      by (rule length_image_of) (simp add: px4)
    ultimately show ?thesis using True flip_rows_image [OF len] by (simp add: buffer_image_def)
  next
    case False
    then show ?thesis using rgba len by (simp add: buffer_image_def)
  qed
qed

lemma finish_frame_safe:
  assumes "ShmBuffer_create io width height stride format = Ok b"
    and res: "finish_frame E b format width height stride invert t = res"
  shows "res \<noteq> CapPanic"
    and "res = CapOk cf \<Longrightarrow> Frame_wf (cf_frame cf)
       \<and> (fr_width (cf_frame cf), fr_height (cf_frame cf)) = (if swaps_axes t then (height, width) else (width, height))
       \<and> is_transformed t (fr_rgba (cf_frame cf)) (unat (fr_width (cf_frame cf))) (unat (fr_height (cf_frame cf)))
           (buffer_image format width height stride invert (ce_written E))"
proof -
  note C = ShmBuffer_create_Ok [OF assms(1)]
  obtain ow oh where dims: "(ow, oh) = (if swaps_axes t then (height, width) else (width, height))" by fastforce
  have "unat width * 4 * unat height \<le> unat stride * unat height" using C(3) by (rule mult_le_mono1)
  also have "\<dots> \<le> i32_max" by (rule C(4))
  finally have small: "unat width * unat height * 4 \<le> i32_max" by (simp add: mult.assoc mult.commute)
  then have fits: "unat width * unat height * 4 \<le> 2 ^ 32" by (rule order_trans) (simp add: i32_max_def)
  have *: "res \<noteq> CapPanic \<and> (\<forall>cf. res = CapOk cf \<longrightarrow> Frame_wf (cf_frame cf)
       \<and> (fr_width (cf_frame cf), fr_height (cf_frame cf)) = (ow, oh)
       \<and> is_transformed t (fr_rgba (cf_frame cf)) (unat ow) (unat oh)
           (buffer_image format width height stride invert (ce_written E)))"
  proof (cases "\<exists>data rgba. read_pixels (ce_read_io E) (b\<lparr>sb_file := ce_written E\<rparr>) stride height = Ok data
                      \<and> decode format width height stride data = Ok rgba")
    case False
    then show ?thesis using res by (auto simp: finish_frame_def split: sum.splits)
  next
    case True
    then obtain data rgba where rd: "read_pixels (ce_read_io E) (b\<lparr>sb_file := ce_written E\<rparr>) stride height = Ok data"
      "decode format width height stride data = Ok rgba" by blast
    then obtain img where img: "(if invert then flip_rows rgba width height else Some rgba) = Some img"
        "img = buffer_image format width height stride invert (ce_written E)"
        "length img = unat width * unat height * 4"
      using finish_frame_pixels [OF rd] by blast
    obtain out where out: "untransform img width height t = Some (out, ow, oh)"
        "is_transformed t out (unat ow) (unat oh) img"
      using untransform_is_transformed [OF dims fits img(3)] by blast
    have "length out = unat ow * unat oh * 4" "length out \<le> i32_max"
      using out(2) small buffer_size_swap(1) [OF dims] by (auto simp: is_transformed_def)
    then show ?thesis using res rd img(1,2) out by (auto simp: finish_frame_def Frame_new_def Frame_wf_def)
  qed
  then show "res \<noteq> CapPanic" by blast
  assume "res = CapOk cf"
  with * dims show "Frame_wf (cf_frame cf)
       \<and> (fr_width (cf_frame cf), fr_height (cf_frame cf)) = (if swaps_axes t then (height, width) else (width, height))
       \<and> is_transformed t (fr_rgba (cf_frame cf)) (unat (fr_width (cf_frame cf))) (unat (fr_height (cf_frame cf)))
           (buffer_image format width height stride invert (ce_written E))" by (metis prod.inject)
qed

text \<open>\<^verbatim>\<open>Engine::capture_once\<close>: the chosen backend on the chosen output.\<close>

definition capture_once ::
  "Backend \<Rightarrow> cap_env \<Rightarrow> nat \<Rightarrow> State \<Rightarrow> proxy \<Rightarrow> Transform \<Rightarrow> (cap_outcome \<times> State \<times> request list \<times> nat) option" where
  "capture_once backend E n state output transform =
     (case backend of
        BackendExt \<Rightarrow> ext_capture E n state output
      | BackendWlr \<Rightarrow> wlr_capture E n state output transform)"

lemma checked_mul_u32_Some: "checked_mul_u32 a k = Some b \<Longrightarrow> unat b = unat a * k"
proof -
  assume "checked_mul_u32 a k = Some b"
  then have "b = of_nat (unat a * k)" and "unat a * k \<le> u32_max"
    by (simp_all add: checked_mul_u32_def split: if_splits)
  then show ?thesis
    by (simp add: unat_of_nat take_bit_nat_eq_self_iff u32_max_def del: of_nat_mult)
qed

text \<open>The two ways a sequence ends: refused with an error before any pixel is read, or with \<open>finish_frame\<close>
  on a buffer that \<^verbatim>\<open>ShmBuffer::create\<close> made.\<close>

lemma ext_copy_cases:
  assumes "ext_copy E n state reqs b format w h stride = Some (res, s, rq, m)"
  shows "(\<exists>e. res = CapErr e) \<or>
    (res = finish_frame E b format w h stride False (case ex_transform (st_ext s) of Some t \<Rightarrow> t | None \<Rightarrow> Normal)
     \<and> ex_frame_ready (st_ext s) \<and> ex_failure (st_ext s) = None
     \<and> n < m \<and> s = foldl dispatch state (concat (map (\<lambda>i. tk_events (ce_ticks E i)) [n..<m])))"
  using assms
  by (auto simp: ext_copy_def Let_def wait_post_def dest!: wait_until_post split: option.splits prod.splits sum.splits if_splits)

text \<open>The ready mark is only set by a ready event.\<close>

lemma dispatch_ready:
  "ex_frame_ready (st_ext (dispatch s ev)) \<Longrightarrow> ex_frame_ready (st_ext s) \<or> (\<exists>obj. ev = ExtFrameEvent obj FrameReady)"
  by (cases ev)
    (auto simp: registry_dispatch_def output_dispatch_def session_dispatch_def ext_frame_dispatch_def wlr_frame_dispatch_def
      Let_def split: if_splits option.splits registry_event.splits output_event.splits session_event.splits
        ext_frame_event.splits wlr_frame_event.splits WEnum.splits)

lemma foldl_dispatch_ready:
  "ex_frame_ready (st_ext (foldl dispatch s evs)) \<Longrightarrow>
   ex_frame_ready (st_ext s) \<or> (\<exists>obj. ExtFrameEvent obj FrameReady \<in> set evs)"
  by (induction evs arbitrary: s) (auto dest: dispatch_ready)

lemma wlr_copy_cases:
  assumes "wlr_copy E n state reqs b format w h stride t = Some (res, s, rq, m)"
  shows "(\<exists>e. res = CapErr e) \<or>
    (res = finish_frame E b format w h stride (wr_y_invert (st_wlr s)) t \<and> wr_ready (st_wlr s))"
  using assms by (auto simp: wlr_copy_def Let_def split: option.splits prod.splits sum.splits if_splits)

lemma ext_capture_cases:
  assumes "ext_capture E n state output = Some (res, s, rq, m)"
  obtains (refused) e where "res = CapErr e"
  | (copied) s1 m1 format b stride reqs where
      "wait_until (ce_ticks E) n (state\<lparr>st_ext := ExtState_reset\<rparr>) (ce_clock E 2 + CONSTRAINT_TIMEOUT)
         ''capture constraints'' (\<lambda>s. ex_constraints_done (st_ext s) \<or> ex_stopped (st_ext s)) = Some (Ok (), s1, m1)"
      "\<not> ex_stopped (st_ext s1)" "pick_shm_format (ex_shm_formats (st_ext s1)) = Ok format"
      "checked_mul_u32 (ex_buffer_width (st_ext s1)) 4 = Some stride"
      "ShmBuffer_create (ce_create_io E) (ex_buffer_width (st_ext s1)) (ex_buffer_height (st_ext s1)) stride format = Ok b"
      "ext_copy E m1 s1 reqs b format (ex_buffer_width (st_ext s1)) (ex_buffer_height (st_ext s1)) stride
         = Some (res, s, rq, m)"
  using assms by (auto simp: ext_capture_def Let_def split: option.splits prod.splits sum.splits if_splits)

lemma wlr_capture_cases:
  assumes "wlr_capture E n state output t = Some (res, s, rq, m)"
  obtains (refused) e where "res = CapErr e"
  | (copied) s1 m1 format b reqs where
      "ShmBuffer_create (ce_create_io E) (wr_buffer_width (st_wlr s1)) (wr_buffer_height (st_wlr s1))
         (wr_buffer_stride (st_wlr s1)) format = Ok b"
      "wlr_copy E m1 s1 reqs b format (wr_buffer_width (st_wlr s1)) (wr_buffer_height (st_wlr s1))
         (wr_buffer_stride (st_wlr s1)) t = Some (res, s, rq, m)"
  using assms
  by (auto simp: wlr_capture_def Let_def split: option.splits prod.splits sum.splits if_splits)

lemma finish_frame_wf:
  assumes "ShmBuffer_create io width height stride format = Ok b"
  shows "finish_frame E b format width height stride invert t \<noteq> CapPanic"
    and "finish_frame E b format width height stride invert t = CapOk cf \<Longrightarrow> Frame_wf (cf_frame cf)"
  using finish_frame_safe [OF assms refl] by blast+

lemma ext_capture_safe:
  assumes "ext_capture E n state output = Some (res, s, rq, m)"
  shows "res \<noteq> CapPanic \<and> (\<forall>cf. res = CapOk cf \<longrightarrow> Frame_wf (cf_frame cf))"
  using assms
proof (cases rule: ext_capture_cases)
  case copied
  from ext_copy_cases [OF copied(6)] finish_frame_wf [OF copied(5)] show ?thesis by auto
qed simp

lemma wlr_capture_safe:
  assumes "wlr_capture E n state output t = Some (res, s, rq, m)"
  shows "res \<noteq> CapPanic \<and> (\<forall>cf. res = CapOk cf \<longrightarrow> Frame_wf (cf_frame cf))"
  using assms
proof (cases rule: wlr_capture_cases)
  case copied
  from wlr_copy_cases [OF copied(2)] finish_frame_wf [OF copied(1)] show ?thesis by auto
qed simp

text \<open>A clock that the loop sees pass every moment.\<close>

definition clock_advances :: "(nat \<Rightarrow> tick) \<Rightarrow> bool" where
  "clock_advances env \<longleftrightarrow> (\<forall>n t. \<exists>k. t \<le> tk_now (env (n + k)))"

lemma wait_until_returns:
  assumes "clock_advances env"
  shows "\<exists>r s m. wait_until env n state deadline what ready = Some (r, s, m)"
proof -
  obtain k where "deadline \<le> tk_now (env (n + k))" using assms by (auto simp: clock_advances_def)
  from wait_until_returns_at [where env = env, OF this] show ?thesis by auto
qed

lemma ext_copy_returns:
  assumes "clock_advances (ce_ticks E)"
  shows "\<exists>r. ext_copy E n state reqs b format w h stride = Some r"
proof -
  obtain r s m where "wait_until (ce_ticks E) n state (ce_clock E 5 + FRAME_TIMEOUT) ''frame copy''
             (\<lambda>s. ex_frame_ready (st_ext s) \<or> ex_failure (st_ext s) \<noteq> None \<or> ex_stopped (st_ext s)) = Some (r, s, m)"
    using wait_until_returns [OF assms] by blast
  then show ?thesis by (cases r) (auto simp: ext_copy_def Let_def split: option.splits)
qed

lemma wlr_copy_returns:
  assumes "clock_advances (ce_ticks E)"
  shows "\<exists>r. wlr_copy E n state reqs b format w h stride t = Some r"
proof -
  obtain r s m where "wait_until (ce_ticks E) n state (ce_clock E 5 + FRAME_TIMEOUT) ''screencopy frame''
             (\<lambda>s. wr_ready (st_wlr s) \<or> wr_failed (st_wlr s)) = Some (r, s, m)"
    using wait_until_returns [OF assms] by blast
  then show ?thesis by (cases r) (auto simp: wlr_copy_def Let_def)
qed

lemma ext_capture_returns:
  assumes "clock_advances (ce_ticks E)"
  shows "\<exists>r. ext_capture E n state output = Some r"
proof -
  obtain r s m where "wait_until (ce_ticks E) n (state\<lparr>st_ext := ExtState_reset\<rparr>) (ce_clock E 2 + CONSTRAINT_TIMEOUT)
         ''capture constraints'' (\<lambda>s. ex_constraints_done (st_ext s) \<or> ex_stopped (st_ext s)) = Some (r, s, m)"
    using wait_until_returns [OF assms] by blast
  then show ?thesis using ext_copy_returns [OF assms]
    by (cases r) (auto simp: ext_capture_def Let_def split: option.split sum.split)
qed

lemma wlr_capture_returns:
  assumes "clock_advances (ce_ticks E)"
  shows "\<exists>r. wlr_capture E n state output t = Some r"
proof (cases "st_wlr_mgr state")
  case (Some mgr)
  obtain r s m where "wait_until (ce_ticks E) n (state\<lparr>st_wlr := WlrState_reset\<rparr>) (ce_clock E 2 + CONSTRAINT_TIMEOUT)
         ''screencopy buffer description'' (wlr_described (3 \<le> snd mgr)) = Some (r, s, m)"
    using wait_until_returns [OF assms] by blast
  then show ?thesis using Some wlr_copy_returns [OF assms]
    by (cases r) (auto simp: wlr_capture_def Let_def split: option.split sum.split)
qed (simp add: wlr_capture_def)

section \<open>Properties\<close>

text \<open>A compositor for the examples: its events per loop iteration, then silence while the clock runs on.\<close>

definition sample_tick :: "wl_event list \<Rightarrow> nat \<Rightarrow> tick" where
  "sample_tick evs now =
     \<lparr>tk_events = evs, tk_dispatch_err = None, tk_now = now, tk_flush_err = None, tk_guard = True,
      tk_now_poll = now, tk_poll = PollOk 1, tk_read_err = None\<rparr>"

definition sample_compositor :: "wl_event list list \<Rightarrow> bytes \<Rightarrow> cap_env" where
  "sample_compositor batches written =
     \<lparr>ce_ticks = (\<lambda>n. sample_tick (if n < length batches then batches ! n else []) (n * 10 ^ 9)),
      ce_clock = (\<lambda>_. 0), ce_create_io = (\<lambda>_. None), ce_read_io = (\<lambda>_. None), ce_written = written\<rparr>"

definition sample_state :: State where
  "sample_state = State_new\<lparr>st_shm := Some (1, 1), st_ext_source_mgr := Some (2, 1), st_ext_copy_mgr := Some (3, 1),
                            st_wlr_mgr := Some (4, 3)\<rparr>"

definition sample_constraints :: "wl_event list" where
  "sample_constraints = [SessionEvent 1 (BufferSize 2 1), SessionEvent 1 (ShmFormat (WValue Xrgb8888)), SessionEvent 1 SessionDone]"

lemmas capture_defs = sample_compositor_def sample_tick_def sample_state_def sample_constraints_def State_new_def
  ExtState_reset_def WlrState_reset_def session_dispatch_def ext_frame_dispatch_def wlr_frame_dispatch_def

lemma sample_compositor_advances: "clock_advances (ce_ticks (sample_compositor batches written))"
  unfolding clock_advances_def
proof (intro allI)
  fix n t :: nat
  have "t * 1 \<le> (n + t) * 10 ^ 9" by (intro mult_le_mono) simp_all
  then show "\<exists>k. t \<le> tk_now (ce_ticks (sample_compositor batches written) (n + k))"
    by (intro exI [of _ t]) (simp add: sample_compositor_def sample_tick_def)
qed

text \<open>One iteration of the loop: it stops when the condition holds, and goes on after a quiet one.\<close>

lemma wait_until_ready:
  assumes "tk_dispatch_err (env n) = None" and "foldl dispatch state (tk_events (env n)) = s" and "ready s"
  shows "wait_until env n state deadline what ready = Some (Ok (), s, Suc n)"
  using assms by (subst wait_until.simps) simp

lemma sample_wait:
  assumes "n < length batches" and "foldl dispatch state (batches ! n) = s" and "ready s"
  shows "wait_until (ce_ticks (sample_compositor batches written)) n state deadline what ready = Some (Ok (), s, Suc n)"
  using assms by (intro wait_until_ready) (simp_all add: sample_compositor_def sample_tick_def)

lemma sample_compositor_simps [simp]:
  "ce_clock (sample_compositor batches written) i = 0" "ce_create_io (sample_compositor batches written) = (\<lambda>_. None)"
  "ce_read_io (sample_compositor batches written) = (\<lambda>_. None)" "ce_written (sample_compositor batches written) = written"
  by (simp_all add: sample_compositor_def)

lemma sample_timings: "capture_timings (sample_compositor batches written) =
    \<lparr>ct_constraints = 0, ct_frame_wait = 0, ct_shm_read = 0, ct_decode = 0, ct_transform = 0, ct_total = 0\<rparr>"
  by (simp add: capture_timings_def elapsed_def)

definition sample_buffer :: ShmBuffer where
  "sample_buffer = \<lparr>sb_file = replicate 8 0, sb_pool_size = 8, sb_width = 2, sb_height = 1, sb_stride = 8, sb_format = Xrgb8888\<rparr>"

definition sample_ext :: ExtState where
  "sample_ext = ExtState_reset\<lparr>ex_buffer_width := 2, ex_buffer_height := 1, ex_shm_formats := [Xrgb8888], ex_constraints_done := True\<rparr>"

lemma sample_create: "ShmBuffer_create (\<lambda>_. None) 2 1 8 Xrgb8888 = Ok sample_buffer"
  by (simp add: ShmBuffer_create_def i32_max_def u64_max_def sample_buffer_def)

lemma sample_ext_start:
  "ext_capture (sample_compositor (sample_constraints # batches) written) 0 sample_state output =
   ext_copy (sample_compositor (sample_constraints # batches) written) 1 (sample_state\<lparr>st_ext := sample_ext\<rparr>)
     [CreateSource output, CreateSession] sample_buffer Xrgb8888 2 1 8"
proof -
  have fmt: "pick_shm_format [Xrgb8888] = Ok Xrgb8888" by (simp add: pick_shm_format_def preferred_formats_def)
  have stride: "checked_mul_u32 2 4 = Some 8" by (simp add: checked_mul_u32_def u32_max_def)
  let ?s0 = "sample_state\<lparr>st_ext := ExtState_reset\<rparr>" and ?s1 = "sample_state\<lparr>st_ext := sample_ext\<rparr>"
  have "foldl dispatch ?s0 sample_constraints = ?s1"
    by (simp add: sample_constraints_def sample_ext_def session_dispatch_def ExtState_reset_def)
  then have "wait_until (ce_ticks (sample_compositor (sample_constraints # batches) written)) 0 ?s0 d what
       (\<lambda>s. ex_constraints_done (st_ext s) \<or> ex_stopped (st_ext s)) = Some (Ok (), ?s1, 1)" for d what
    using sample_wait [of 0 "sample_constraints # batches" ?s0 ?s1] by (simp add: sample_ext_def)
  then show ?thesis
    by (simp add: ext_capture_def Let_def fmt stride sample_create, simp add: sample_state_def sample_ext_def ExtState_reset_def fmt stride sample_create)
qed

lemma sample_ext_finish:
  assumes "foldl dispatch (sample_state\<lparr>st_ext := sample_ext\<rparr>) evs
             = sample_state\<lparr>st_ext := sample_ext\<lparr>ex_transform := tr, ex_frame_ready := True\<rparr>\<rparr>"
    and "finish_frame (sample_compositor [sample_constraints, evs] written) sample_buffer Xrgb8888 2 1 8 False
           (case tr of Some t \<Rightarrow> t | None \<Rightarrow> Normal) = res"
  shows "ext_capture (sample_compositor [sample_constraints, evs] written) 0 sample_state output =
     Some (res, sample_state\<lparr>st_ext := sample_ext\<lparr>ex_transform := tr, ex_frame_ready := True\<rparr>\<rparr>,
       [CreateSource output, CreateSession, CreatePool 8, CreateBuffer 2 1 8 Xrgb8888, CreateFrame, AttachBuffer,
        DamageBuffer 2 1, CaptureFrame, DestroyFrame, DestroySession, DestroySource, DestroyBuffer, DestroyPool], 2)"
proof -
  let ?s = "sample_state\<lparr>st_ext := sample_ext\<lparr>ex_transform := tr, ex_frame_ready := True\<rparr>\<rparr>"
  have "wait_until (ce_ticks (sample_compositor [sample_constraints, evs] written)) 1 (sample_state\<lparr>st_ext := sample_ext\<rparr>) d what
      (\<lambda>s. ex_frame_ready (st_ext s) \<or> ex_failure (st_ext s) \<noteq> None \<or> ex_stopped (st_ext s)) = Some (Ok (), ?s, 2)" for d what
    using sample_wait [of 1 "[sample_constraints, evs]" _ ?s] assms(1) by (simp add: numeral_2_eq_2)
  then show ?thesis using assms(2)
    by (simp add: sample_ext_start ext_copy_def Let_def create_requests_def ShmBuffer_drop_def)
       (simp add: sample_ext_def ExtState_reset_def sample_buffer_def ShmBuffer_drop_def)
qed

definition sample_turned :: "wl_event list" where
  "sample_turned = [ExtFrameEvent 2 (FrameTransform (WValue T180)), ExtFrameEvent 2 FrameReady]"

definition sample_captured :: "bytes \<Rightarrow> CapturedFrame" where
  "sample_captured px = \<lparr>cf_frame = \<lparr>fr_width = 2, fr_height = 1, fr_rgba = px\<rparr>,
     cf_timings = \<lparr>ct_constraints = 0, ct_frame_wait = 0, ct_shm_read = 0, ct_decode = 0, ct_transform = 0, ct_total = 0\<rparr>\<rparr>"

lemma sample_finish_frame:
  assumes "read_pixels (\<lambda>_. None) (sample_buffer\<lparr>sb_file := written\<rparr>) 8 1 = Ok data"
    and "decode Xrgb8888 2 1 8 data = Ok rgba" and "untransform rgba 2 1 t = Some (px, 2, 1)"
  shows "finish_frame (sample_compositor batches written) sample_buffer Xrgb8888 2 1 8 False t = CapOk (sample_captured px)"
  using assms by (simp add: finish_frame_def sample_timings sample_captured_def Frame_new_def)

lemma sample_ext_capture:
  "ext_capture (sample_compositor [sample_constraints, sample_turned] [1, 2, 3, 4, 5, 6, 7, 8]) 0 sample_state (9, 4)
   = Some (CapOk (sample_captured [7, 6, 5, 255, 3, 2, 1, 255]),
       sample_state\<lparr>st_ext := sample_ext\<lparr>ex_transform := Some T180, ex_frame_ready := True\<rparr>\<rparr>,
       [CreateSource (9, 4), CreateSession, CreatePool 8, CreateBuffer 2 1 8 Xrgb8888, CreateFrame, AttachBuffer,
        DamageBuffer 2 1, CaptureFrame, DestroyFrame, DestroySession, DestroySource, DestroyBuffer, DestroyPool], 2)"
proof (rule sample_ext_finish)
  show "foldl dispatch (sample_state\<lparr>st_ext := sample_ext\<rparr>) sample_turned
      = sample_state\<lparr>st_ext := sample_ext\<lparr>ex_transform := Some T180, ex_frame_ready := True\<rparr>\<rparr>"
    by (simp add: sample_turned_def ext_frame_dispatch_def)
  have "decode Xrgb8888 2 1 8 [1, 2, 3, 4, 5, 6, 7, 8] = Ok [3, 2, 1, 255, 7, 6, 5, 255]"
    by (simp add: decode_def u64_max_def decode_row_def slice_def chunks.simps)
  moreover have "untransform [3, 2, 1, 255, 7, 6, 5, 255] 2 1 T180 = Some ([7, 6, 5, 255, 3, 2, 1, 255], 2, 1)" by code_simp
  ultimately show "finish_frame (sample_compositor [sample_constraints, sample_turned] [1, 2, 3, 4, 5, 6, 7, 8]) sample_buffer
      Xrgb8888 2 1 8 False (case Some T180 of Some t \<Rightarrow> t | None \<Rightarrow> Normal) = CapOk (sample_captured [7, 6, 5, 255, 3, 2, 1, 255])"
    by (intro sample_finish_frame [where data = "[1, 2, 3, 4, 5, 6, 7, 8]"]) (simp_all add: read_pixels_def)
qed

text \<open>
  C22 A capture never panics, and a frame it delivers is well formed: exactly four bytes per pixel of its
  stated size (what \<^verbatim>\<open>Frame::new\<close> only asserts in debug builds) and below \<open>2 ^ 31\<close> bytes.  This holds for both
  backends and for every compositor: whatever sizes, strides, formats, transforms and flags it announces,
  whatever bytes it leaves in the buffer and whichever system call fails.
\<close>

theorem capture_well_formed:
  assumes "capture_once backend E n state output t = Some (res, s, reqs, m)"
  shows "res \<noteq> CapPanic \<and> (\<forall>cf. res = CapOk cf \<longrightarrow> Frame_wf (cf_frame cf))"
  using assms ext_capture_safe wlr_capture_safe by (cases backend) (auto simp: capture_once_def)

theorem capture_well_formed_witness:
  "Frame_wf (cf_frame (sample_captured [7, 6, 5, 255, 3, 2, 1, 255]))"
proof -
  have "capture_once BackendExt (sample_compositor [sample_constraints, sample_turned] [1, 2, 3, 4, 5, 6, 7, 8]) 0 sample_state (9, 4) Normal
     = Some (CapOk (sample_captured [7, 6, 5, 255, 3, 2, 1, 255]),
       sample_state\<lparr>st_ext := sample_ext\<lparr>ex_transform := Some T180, ex_frame_ready := True\<rparr>\<rparr>,
       [CreateSource (9, 4), CreateSession, CreatePool 8, CreateBuffer 2 1 8 Xrgb8888, CreateFrame, AttachBuffer,
        DamageBuffer 2 1, CaptureFrame, DestroyFrame, DestroySession, DestroySource, DestroyBuffer, DestroyPool], 2)"
    by (simp add: capture_once_def sample_ext_capture)
  from capture_well_formed [OF this] show ?thesis by simp
qed

text \<open>
  C23 A capture always ends: with either backend, as long as the clock the event loop reads goes on, the
  deadlines are noticed and the capture returns a frame or an error, also when the compositor never
  answers or keeps sending unrelated events.
\<close>

theorem capture_returns:
  assumes "clock_advances (ce_ticks E)"
  shows "\<exists>res s reqs m. capture_once backend E n state output t = Some (res, s, reqs, m)"
  using ext_capture_returns [OF assms, of n state "output"] wlr_capture_returns [OF assms, of n state "output" t]
  by (cases backend) (auto simp: capture_once_def)

theorem capture_returns_witness:
  "\<exists>res s reqs m. capture_once BackendWlr (sample_compositor [] []) 0 sample_state (9, 4) Normal = Some (res, s, reqs, m)"
  by (rule capture_returns) (rule sample_compositor_advances)

text \<open>
  C24 A delivered ext frame is the upright image: the buffer the compositor filled, read with the size and the
  format settled when it announced its constraints, is exactly the delivered image under the transform
  the compositor reported (none if it reported none).  A frame is delivered only after the constraints were
  complete in a session not stopped, at least one further iteration of the event loop, and some ready event for a
  frame among the events dispatched since the capture began, with no failure reported.  The code does not ask that
  the ready event comes after the constraints, nor that it is for the frame it requested.
\<close>

theorem ext_capture_upright:
  assumes "ext_capture E n state output = Some (CapOk cf, s, reqs, m)"
  shows "\<exists>m1 s1 format stride.
     n < m1 \<and> m1 < m
     \<and> s1 = foldl dispatch (state\<lparr>st_ext := ExtState_reset\<rparr>) (concat (map (\<lambda>i. tk_events (ce_ticks E i)) [n..<m1]))
     \<and> s = foldl dispatch s1 (concat (map (\<lambda>i. tk_events (ce_ticks E i)) [m1..<m]))
     \<and> ex_constraints_done (st_ext s1) \<and> \<not> ex_stopped (st_ext s1)
     \<and> pick_shm_format (ex_shm_formats (st_ext s1)) = Ok format
     \<and> unat stride = unat (ex_buffer_width (st_ext s1)) * 4
     \<and> ex_frame_ready (st_ext s) \<and> ex_failure (st_ext s) = None
     \<and> (\<exists>k obj. n \<le> k \<and> k < m \<and> ExtFrameEvent obj FrameReady \<in> set (tk_events (ce_ticks E k)))
     \<and> is_transformed (case ex_transform (st_ext s) of Some t \<Rightarrow> t | None \<Rightarrow> Normal)
         (fr_rgba (cf_frame cf)) (unat (fr_width (cf_frame cf))) (unat (fr_height (cf_frame cf)))
         (buffer_image format (ex_buffer_width (st_ext s1)) (ex_buffer_height (st_ext s1)) stride False (ce_written E))"
  using assms
proof (cases rule: ext_capture_cases)
  case (copied s1 m1 format b stride rq)
  note post = wait_until_post [OF copied(1)]
  have res: "CapOk cf = finish_frame E b format (ex_buffer_width (st_ext s1)) (ex_buffer_height (st_ext s1)) stride False
          (case ex_transform (st_ext s) of Some t \<Rightarrow> t | None \<Rightarrow> Normal)"
    and ready: "ex_frame_ready (st_ext s)" "ex_failure (st_ext s) = None"
    and second: "m1 < m" "s = foldl dispatch s1 (concat (map (\<lambda>i. tk_events (ce_ticks E i)) [m1..<m]))"
    using ext_copy_cases [OF copied(6)] by auto
  have first: "n < m1" "s1 = foldl dispatch (state\<lparr>st_ext := ExtState_reset\<rparr>) (concat (map (\<lambda>i. tk_events (ce_ticks E i)) [n..<m1]))"
    using post by (auto simp: wait_post_def)
  have "\<not> ex_frame_ready (st_ext (state\<lparr>st_ext := ExtState_reset\<rparr>))" by (simp add: ExtState_reset_def)
  moreover have "s = foldl dispatch (state\<lparr>st_ext := ExtState_reset\<rparr>) (concat (map (\<lambda>i. tk_events (ce_ticks E i)) ([n..<m1] @ [m1..<m])))"
    using first(2) second(2) by simp
  moreover have "[n..<m1] @ [m1..<m] = [n..<m]" using first(1) second(1) upt_add_eq_append [of n m1 "m - m1"] by simp
  ultimately have event: "\<exists>k obj. n \<le> k \<and> k < m \<and> ExtFrameEvent obj FrameReady \<in> set (tk_events (ce_ticks E k))"
    using foldl_dispatch_ready ready(1) by fastforce
  from finish_frame_safe(2) [OF copied(5) res [symmetric] refl] show ?thesis
    using first second ready event copied(2,3) post checked_mul_u32_Some [OF copied(4)]
    by (intro exI [of _ m1] exI [of _ s1] exI [of _ format] exI [of _ stride]) (auto simp: wait_post_def)
qed simp

theorem ext_capture_upright_witness:
  "\<exists>m1 s1 format stride.
     0 < m1 \<and> m1 < 2 \<and> s1 = foldl dispatch (sample_state\<lparr>st_ext := ExtState_reset\<rparr>)
         (concat (map (\<lambda>i. tk_events (ce_ticks (sample_compositor [sample_constraints, sample_turned] [1, 2, 3, 4, 5, 6, 7, 8]) i)) [0..<m1]))
     \<and> ex_constraints_done (st_ext s1) \<and> pick_shm_format (ex_shm_formats (st_ext s1)) = Ok format
     \<and> unat stride = unat (ex_buffer_width (st_ext s1)) * 4
     \<and> is_transformed T180 [7, 6, 5, 255, 3, 2, 1, 255] 2 1
         (buffer_image format (ex_buffer_width (st_ext s1)) (ex_buffer_height (st_ext s1)) stride False [1, 2, 3, 4, 5, 6, 7, 8])"
  using ext_capture_upright [OF sample_ext_capture] by (simp add: sample_captured_def) blast

section \<open>Where the capture sequences fall short\<close>

text \<open>Events are not matched to the object of the current capture.  The engine keeps its connection after a capture
  that timed out, so the ready event of the abandoned frame (any object \<open>old\<close>) can reach the next capture,
  which then delivers the still untouched buffer as a black frame.\<close>

theorem stale_ready_delivers_blank:
  "\<exists>s reqs. ext_capture (sample_compositor [sample_constraints, [ExtFrameEvent old FrameReady]] (sb_file sample_buffer))
      0 sample_state out = Some (CapOk (sample_captured [0, 0, 0, 255, 0, 0, 0, 255]), s, reqs, 2)"
proof -
  have fin: "finish_frame (sample_compositor [sample_constraints, [ExtFrameEvent old FrameReady]] (sb_file sample_buffer)) sample_buffer
      Xrgb8888 2 1 8 False (case None of Some t \<Rightarrow> t | None \<Rightarrow> Normal) = CapOk (sample_captured [0, 0, 0, 255, 0, 0, 0, 255])"
  proof (rule sample_finish_frame [where data = "[0, 0, 0, 0, 0, 0, 0, 0]" and rgba = "[0, 0, 0, 255, 0, 0, 0, 255]"])
    show "read_pixels (\<lambda>_. None) (sample_buffer\<lparr>sb_file := sb_file sample_buffer\<rparr>) 8 1 = Ok [0, 0, 0, 0, 0, 0, 0, 0]"
    proof -
      have "replicate 8 (0 :: u8) = [0, 0, 0, 0, 0, 0, 0, 0]" by (simp add: numeral_eq_Suc)
      then show ?thesis by (simp add: read_pixels_def sample_buffer_def)
    qed
    show "decode Xrgb8888 2 1 8 [0, 0, 0, 0, 0, 0, 0, 0] = Ok [0, 0, 0, 255, 0, 0, 0, 255]"
      by (simp add: decode_def u64_max_def decode_row_def slice_def chunks.simps)
    show "untransform [0, 0, 0, 255, 0, 0, 0, 255] 2 1 (case None of Some t \<Rightarrow> t | None \<Rightarrow> Normal)
        = Some ([0, 0, 0, 255, 0, 0, 0, 255], 2, 1)" by code_simp
  qed
  have ev: "foldl dispatch (sample_state\<lparr>st_ext := sample_ext\<rparr>) [ExtFrameEvent old FrameReady]
      = sample_state\<lparr>st_ext := sample_ext\<lparr>ex_transform := None, ex_frame_ready := True\<rparr>\<rparr>"
    by (simp add: ext_frame_dispatch_def sample_ext_def ExtState_reset_def)
  from sample_ext_finish [OF ev fin] show ?thesis by blast
qed

text \<open>A capture that fails before its copy is done leaves the session and the source behind: only the success
  path and the reported failures destroy them, although proxies are not destroyed when dropped.\<close>

theorem failed_capture_leaks_session:
  assumes "st_ext_source_mgr state \<noteq> None" and "st_ext_copy_mgr state \<noteq> None" and "st_shm state \<noteq> None"
    and "wait_until (ce_ticks E) n (state\<lparr>st_ext := ExtState_reset\<rparr>) (ce_clock E 2 + CONSTRAINT_TIMEOUT) ''capture constraints''
           (\<lambda>s. ex_constraints_done (st_ext s) \<or> ex_stopped (st_ext s)) = Some (Err e, s, m)"
  shows "ext_capture E n state out = Some (CapErr e, s, [CreateSource out, CreateSession], m)"
  using assms by (auto simp: ext_capture_def Let_def)

text \<open>The screencopy wait is over as soon as a dmabuf description arrives, also when the shared-memory one
  follows in the next batch: a capture the compositor supports is refused.\<close>

theorem dmabuf_first_refused:
  "\<exists>s. wlr_capture (sample_compositor [[WlrFrameEvent f WlrLinuxDmabuf],
          [WlrFrameEvent f (WlrBuffer (WValue Xrgb8888) 2 1 8), WlrFrameEvent f WlrBufferDone], [WlrFrameEvent f WlrReady]] written)
      0 sample_state out t
     = Some (CapErr ''the compositor only offers dmabuf screencopy buffers (unsupported in M1.1)'', s, [CaptureOutput out], 1)"
    (is "\<exists>s. wlr_capture (sample_compositor ?bs written) _ _ _ _ = _")
proof -
  let ?s0 = "sample_state\<lparr>st_wlr := WlrState_reset\<rparr>"
  let ?s1 = "sample_state\<lparr>st_wlr := WlrState_reset\<lparr>wr_dmabuf_only := True\<rparr>\<rparr>"
  have "wait_until (ce_ticks (sample_compositor ?bs written)) 0 ?s0 d what (wlr_described b) = Some (Ok (), ?s1, 1)" for d what b
    using sample_wait [of 0 ?bs ?s0 ?s1] by (simp add: wlr_frame_dispatch_def wlr_described_def)
  then show ?thesis
    by (simp add: wlr_capture_def Let_def sample_state_def State_new_def) (simp add: WlrState_reset_def)
qed

end
