(* ===== verification/Transport.thy ===== *)
theory Transport
  imports Sample_Crypto
begin

unbundle bit_operations_syntax

text \<open>
  Model of \<^verbatim>\<open>host/crates/emersia-daemon/src/transport/mod.rs\<close>: the frame header and record layout,
  the sliding replay window, fragmentation and reassembly of frames, and the sealing and opening of
  data packets.  The lemmas show that headers and records survive a round trip, that the replay
  window refines a specification on unwrapped sequence numbers in which nothing is accepted twice,
  that the fragments of a frame reassemble to its payload in any order, and that opening a packet
  changes the window only when the packet was authentic.
\<close>

section \<open>Constants, errors and the frame header\<close>

definition HANDSHAKE_INIT :: u8 where "HANDSHAKE_INIT = 0x01"
definition HANDSHAKE_RESPONSE :: u8 where "HANDSHAKE_RESPONSE = 0x02"
definition HANDSHAKE_CONFIRM :: u8 where "HANDSHAKE_CONFIRM = 0x03"
definition DATA :: u8 where "DATA = 0x10"

definition FRAME_HEADER_LEN :: nat where "FRAME_HEADER_LEN = 24"
definition RECORD_MTU :: nat where "RECORD_MTU = 1200"
definition VIDEO_CLOCK_HZ :: nat where "VIDEO_CLOCK_HZ = 90000"

lemmas packet_types = HANDSHAKE_INIT_def HANDSHAKE_RESPONSE_def HANDSHAKE_CONFIRM_def DATA_def

datatype TransportError =
    PayloadTooLarge nat
  | MalformedRecord
  | Dropped string

fun TransportError_display :: "TransportError \<Rightarrow> string" where
  "TransportError_display (PayloadTooLarge n) = ''frame payload of '' @ show_nat n @ '' bytes is too large''"
| "TransportError_display MalformedRecord = ''malformed frame record''"
| "TransportError_display (Dropped why) = ''packet dropped: '' @ why"

record FrameHeader =
  fh_version :: u8
  fh_keyframe :: bool
  fh_payload_type :: u8
  fh_sequence :: u32
  fh_frame_sequence :: u32
  fh_timestamp :: u32
  fh_payload_len :: u16
  fh_frag_index :: u16
  fh_frag_count :: u16

definition FrameHeader_to_bytes :: "FrameHeader \<Rightarrow> bytes" where
  "FrameHeader_to_bytes h =
     [fh_version h, if fh_keyframe h then 1 else 0, fh_payload_type h, 0]
     @ be32 (fh_sequence h) @ be32 (fh_frame_sequence h) @ be32 (fh_timestamp h)
     @ be16 (fh_payload_len h) @ be16 (fh_frag_index h) @ be16 (fh_frag_count h) @ [0, 0]"

definition FrameHeader_from_bytes :: "bytes \<Rightarrow> FrameHeader option" where
  "FrameHeader_from_bytes bs =
     (if length bs < FRAME_HEADER_LEN then None
      else if bs ! 0 \<noteq> 1 then None
      else
        let payload_len = from_be (slice bs 16 18);
            frag_index = from_be (slice bs 18 20);
            frag_count = from_be (slice bs 20 22)
        in if frag_count = 0 \<or> frag_index \<ge> frag_count then None
           else Some \<lparr>fh_version = bs ! 0, fh_keyframe = (bs ! 1 AND 1 \<noteq> 0), fh_payload_type = bs ! 2,
                      fh_sequence = from_be (slice bs 4 8), fh_frame_sequence = from_be (slice bs 8 12),
                      fh_timestamp = from_be (slice bs 12 16), fh_payload_len = payload_len,
                      fh_frag_index = frag_index, fh_frag_count = frag_count\<rparr>)"

text \<open>The headers the parser accepts.\<close>

definition wf_header :: "FrameHeader \<Rightarrow> bool" where
  "wf_header h \<longleftrightarrow> fh_version h = 1 \<and> fh_frag_index h < fh_frag_count h"

lemma length_FrameHeader_to_bytes [simp]: "length (FrameHeader_to_bytes h) = FRAME_HEADER_LEN"
  by (simp add: FrameHeader_to_bytes_def FRAME_HEADER_LEN_def)

lemma header_slices:
  assumes "bs = FrameHeader_to_bytes h @ rest"
  shows "bs ! 0 = fh_version h" "bs ! Suc 0 = (if fh_keyframe h then 1 else 0)"
    "bs ! 2 = fh_payload_type h"
    "slice bs 4 8 = be32 (fh_sequence h)" "slice bs 8 12 = be32 (fh_frame_sequence h)"
    "slice bs 12 16 = be32 (fh_timestamp h)" "slice bs 16 18 = be16 (fh_payload_len h)"
    "slice bs 18 20 = be16 (fh_frag_index h)" "slice bs 20 22 = be16 (fh_frag_count h)"
  by (simp_all add: assms FrameHeader_to_bytes_def slice_def be_simps)

lemma from_bytes_to_bytes_append:
  "wf_header h \<Longrightarrow> FrameHeader_from_bytes (FrameHeader_to_bytes h @ rest) = Some h"
  by (cases h) (auto simp: FrameHeader_from_bytes_def header_slices [OF refl] wf_header_def Let_def
      word_less_def word_le_def)

lemma from_bytes_wf: "FrameHeader_from_bytes bs = Some h \<Longrightarrow> wf_header h"
  by (auto simp: FrameHeader_from_bytes_def wf_header_def Let_def not_le split: if_splits)

interpretation header_codec: wire_codec wf_header FrameHeader_to_bytes FrameHeader_from_bytes
  using from_bytes_to_bytes_append [where rest = "[]"] by unfold_locales simp

section \<open>Records\<close>

definition build_record ::
  "u32 \<Rightarrow> u32 \<Rightarrow> u32 \<Rightarrow> bool \<Rightarrow> u8 \<Rightarrow> bytes \<Rightarrow> u16 \<Rightarrow> u16 \<Rightarrow> TransportError + bytes" where
  "build_record sequence frame_sequence timestamp keyframe payload_type payload frag_index frag_count =
     (case u16_try_from (length payload) of
        None \<Rightarrow> Err (PayloadTooLarge (length payload))
      | Some len \<Rightarrow>
          Ok (FrameHeader_to_bytes
                \<lparr>fh_version = 1, fh_keyframe = keyframe, fh_payload_type = payload_type,
                 fh_sequence = sequence, fh_frame_sequence = frame_sequence, fh_timestamp = timestamp,
                 fh_payload_len = len, fh_frag_index = frag_index, fh_frag_count = frag_count\<rparr>
              @ payload))"

definition parse_record :: "bytes \<Rightarrow> TransportError + (FrameHeader \<times> bytes)" where
  "parse_record rec =
     (case FrameHeader_from_bytes rec of
        None \<Rightarrow> Err MalformedRecord
      | Some header \<Rightarrow>
          let start = FRAME_HEADER_LEN; stop = start + unat (fh_payload_len header)
          in case get_range rec start stop of
               None \<Rightarrow> Err MalformedRecord
             | Some payload \<Rightarrow> Ok (header, payload))"

abbreviation record_header :: "u32 \<Rightarrow> u32 \<Rightarrow> u32 \<Rightarrow> bool \<Rightarrow> u8 \<Rightarrow> bytes \<Rightarrow> u16 \<Rightarrow> u16 \<Rightarrow> FrameHeader" where
  "record_header q fq ts key pt payload i n \<equiv>
     \<lparr>fh_version = 1, fh_keyframe = key, fh_payload_type = pt, fh_sequence = q,
      fh_frame_sequence = fq, fh_timestamp = ts, fh_payload_len = of_nat (length payload),
      fh_frag_index = i, fh_frag_count = n\<rparr>"

lemma build_record_eq:
  "build_record q fq ts key pt payload i n =
     (if length payload \<le> u16_max
      then Ok (FrameHeader_to_bytes (record_header q fq ts key pt payload i n) @ payload)
      else Err (PayloadTooLarge (length payload)))"
  by (simp add: build_record_def u16_try_from_def)

lemma parse_record_build_record:
  "build_record q fq ts key pt payload i n = Ok rec \<Longrightarrow> i < n \<Longrightarrow>
   parse_record rec = Ok (record_header q fq ts key pt payload i n, payload)"
  by (auto simp: build_record_eq parse_record_def from_bytes_to_bytes_append wf_header_def get_range_def
      slice_append2 split: if_splits)

lemma parse_record_Ok:
  assumes "parse_record rec = Ok (h, payload)"
  shows "wf_header h \<and> length payload = unat (fh_payload_len h)
         \<and> FRAME_HEADER_LEN + length payload \<le> length rec"
  using assms from_bytes_wf
  by (auto simp: parse_record_def get_range_def Let_def split: option.splits if_splits)

section \<open>The replay window\<close>

record ReplayWindow =
  highest :: "u32 option"
  bitmap :: u64

definition ReplayWindow_WIDTH :: u32 where "ReplayWindow_WIDTH = 64"

definition ReplayWindow_default :: ReplayWindow where
  "ReplayWindow_default = \<lparr>highest = None, bitmap = 0\<rparr>"

definition ReplayWindow_check :: "ReplayWindow \<Rightarrow> u32 \<Rightarrow> bool" where
  "ReplayWindow_check self seq =
     (case highest self of
        None \<Rightarrow> True
      | Some hi \<Rightarrow>
          let forward = seq - hi
          in if forward \<noteq> 0 \<and> forward < 0x80000000 then True
             else if forward = 0 then False
             else let behind = hi - seq
                  in if behind \<ge> ReplayWindow_WIDTH then False
                     else bitmap self AND push_bit (unat behind) 1 = 0)"

definition ReplayWindow_commit :: "ReplayWindow \<Rightarrow> u32 \<Rightarrow> bool \<times> ReplayWindow" where
  "ReplayWindow_commit self seq =
     (if \<not> ReplayWindow_check self seq then (False, self)
      else case highest self of
        None \<Rightarrow> (True, \<lparr>highest = Some seq, bitmap = 1\<rparr>)
      | Some hi \<Rightarrow>
          let forward = seq - hi
          in if forward \<noteq> 0 \<and> forward < 0x80000000 then
               (True, \<lparr>highest = Some seq,
                       bitmap = (if forward \<ge> ReplayWindow_WIDTH then 1
                                 else push_bit (unat forward) (bitmap self) OR 1)\<rparr>)
             else
               let behind = hi - seq
               in (True, self\<lparr>bitmap := bitmap self OR push_bit (unat behind) 1\<rparr>))"

text \<open>
  The specification works on unwrapped sequence numbers, integers whose residue modulo \<open>2 ^ 32\<close> is
  on the wire: the largest accepted number, and the set of every number accepted so far.
\<close>

record replay_spec =
  spec_top :: "int option"
  spec_seen :: "int set"

definition unwrap_seq :: "int \<Rightarrow> u32 \<Rightarrow> int" where
  "unwrap_seq hi seq = hi + sint (seq - word_of_int hi)"

definition spec_number :: "replay_spec \<Rightarrow> u32 \<Rightarrow> int" where
  "spec_number s seq = (case spec_top s of None \<Rightarrow> uint seq | Some hi \<Rightarrow> unwrap_seq hi seq)"

definition spec_fresh :: "replay_spec \<Rightarrow> int \<Rightarrow> bool" where
  "spec_fresh s e =
     (case spec_top s of
        None \<Rightarrow> True
      | Some hi \<Rightarrow> hi < e \<or> (hi - 64 < e \<and> e \<notin> spec_seen s))"

definition spec_commit :: "replay_spec \<Rightarrow> u32 \<Rightarrow> bool \<times> replay_spec" where
  "spec_commit s seq =
     (let e = spec_number s seq
      in if spec_fresh s e
         then (True, \<lparr>spec_top = Some (case spec_top s of None \<Rightarrow> e | Some hi \<Rightarrow> max hi e),
                      spec_seen = insert e (spec_seen s)\<rparr>)
         else (False, s))"

definition window_rel :: "ReplayWindow \<Rightarrow> replay_spec \<Rightarrow> bool" where
  "window_rel w s \<longleftrightarrow>
     (case spec_top s of
        None \<Rightarrow> highest w = None \<and> spec_seen s = {}
      | Some hi \<Rightarrow>
          highest w = Some (word_of_int hi)
          \<and> hi \<in> spec_seen s \<and> (\<forall>e \<in> spec_seen s. e \<le> hi)
          \<and> (\<forall>b < 64. bit (bitmap w) b \<longleftrightarrow> hi - int b \<in> spec_seen s))"

lemma window_rel_default: "window_rel ReplayWindow_default \<lparr>spec_top = None, spec_seen = {}\<rparr>"
  by (simp add: window_rel_def ReplayWindow_default_def)

lemma word_of_int_unwrap [simp]: "word_of_int (unwrap_seq hi seq) = seq"
  by (simp add: unwrap_seq_def)

lemma sint_u32: "sint (d :: u32) = (if uint d < 2147483648 then uint d else uint d - 4294967296)"
proof -
  have "sint d = (uint d + 2147483648) mod 4294967296 - 2147483648"
    using int_word_sint [where 'a = 32, of "uint d"] by simp
  moreover have "0 \<le> uint d" "uint d < 4294967296"
    using uint_bounded [of d] by simp_all
  moreover have "\<not> uint d < 2147483648 \<Longrightarrow> (uint d + 2147483648) mod 4294967296 = uint d - 2147483648"
    using mod_add_self2 [of "uint d - 2147483648" 4294967296] \<open>uint d < 4294967296\<close> by (simp add: add.commute)
  ultimately show ?thesis by auto
qed

lemma uint_minus_u32: "(d :: u32) \<noteq> 0 \<Longrightarrow> uint (- d) = 4294967296 - uint d"
proof -
  assume "d \<noteq> 0"
  then have "uint d \<noteq> 0" by (simp add: uint_0_iff)
  moreover have "0 \<le> uint d" "uint d < 4294967296"
    using uint_bounded [of d] by simp_all
  ultimately show ?thesis
    by (simp add: uint_word_ariths zmod_zminus1_eq_if)
qed

text \<open>The two serial-number differences of the code, read as signed distances.\<close>

lemma forward_iff: "(d :: u32) \<noteq> 0 \<and> d < 0x80000000 \<longleftrightarrow> 0 < sint d"
  using uint_bounded [of d] by (auto simp: sint_u32 word_less_def uint_0_iff [symmetric] intro: le_neq_trans)

lemma unat_behind: "sint (d :: u32) < 0 \<Longrightarrow> int (unat (- d)) = - sint d"
  using uint_minus_u32 [of d] uint_bounded [of d] by (cases "d = 0") (auto simp: sint_u32 split: if_splits)

lemma window_rel_None: "window_rel w s \<Longrightarrow> highest w = None \<longleftrightarrow> spec_top s = None"
  by (auto simp: window_rel_def split: option.splits)

lemma bitmap_test: "(b AND push_bit n 1 = (0 :: u64)) \<longleftrightarrow> \<not> bit b n" if "n < 64"
proof
  assume "b AND push_bit n 1 = 0"
  then have "\<not> bit (b AND push_bit n 1) n" by simp
  with that show "\<not> bit b n" by (simp add: bit_simps)
next
  assume "\<not> bit b n"
  then show "b AND push_bit n 1 = 0" by (intro bit_word_eqI) (auto simp: bit_simps)
qed

lemma check_refines:
  assumes "window_rel w s"
  shows "ReplayWindow_check w q = spec_fresh s (spec_number s q)"
proof (cases "spec_top s")
  case None
  with assms show ?thesis
    by (simp add: window_rel_def ReplayWindow_check_def spec_fresh_def)
next
  case (Some hi)
  define d where "d = q - word_of_int hi"
  have h: "highest w = Some (word_of_int hi)" and hi: "hi \<in> spec_seen s"
    and bits: "\<And>b. b < 64 \<Longrightarrow> bit (bitmap w) b \<longleftrightarrow> hi - int b \<in> spec_seen s"
    using assms Some by (auto simp: window_rel_def)
  have b: "word_of_int hi - q = - d" by (simp add: d_def)
  have num: "spec_number s q = hi + sint d"
    by (simp add: spec_number_def Some unwrap_seq_def d_def)
  have "sint d = 0 \<Longrightarrow> d = 0" using sint_u32 [of d] uint_bounded [of d] by (auto simp: uint_0_iff split: if_splits)
  then consider "0 < sint d" | "d = 0" | "sint d < 0" by linarith
  then show ?thesis
  proof cases
    case 1
    then show ?thesis
      using forward_iff [of d] by (simp add: ReplayWindow_check_def h spec_fresh_def Some num flip: d_def)
  next
    case 2
    with hi show ?thesis
      by (simp add: ReplayWindow_check_def h spec_fresh_def Some num flip: d_def)
  next
    case 3
    then have "\<not> (d \<noteq> 0 \<and> d < 0x80000000)" "d \<noteq> 0" using forward_iff [of d] by auto
    moreover have "hi + sint d = hi - int (unat (- d))" using unat_behind [OF 3] by simp
    moreover have "sint d > -64 \<longleftrightarrow> unat (- d) < 64" using unat_behind [OF 3] by linarith
    moreover have "64 \<le> - d \<longleftrightarrow> \<not> unat (- d) < 64" by (simp add: word_le_nat_alt not_less)
    ultimately show ?thesis
      using 3 bits [of "unat (- d)"] bitmap_test [of "unat (- d)" "bitmap w"]
      by (simp add: ReplayWindow_check_def h spec_fresh_def Some num b ReplayWindow_WIDTH_def Let_def
          flip: d_def)
  qed
qed

text \<open>The bitmap after moving the window forward, and after marking a number behind its head.\<close>

lemma bitmap_forward:
  fixes S :: "int set" and bm :: u64
  assumes "\<And>b. b < 64 \<Longrightarrow> bit bm b \<longleftrightarrow> hi - int b \<in> S" and "\<And>e. e \<in> S \<Longrightarrow> e \<le> hi"
    and "0 < k" and "b < 64"
  shows "bit (if 64 \<le> k then 1 else push_bit k bm OR 1) b \<longleftrightarrow> hi + int k - int b \<in> insert (hi + int k) S"
proof -
  have "hi + int k - int b \<in> S \<longleftrightarrow> k \<le> b \<and> bit bm (b - k)"
  proof (cases "k \<le> b")
    case True
    with assms(1) [of "b - k"] assms(4) show ?thesis by (simp add: of_nat_diff algebra_simps)
  next
    case False
    with assms(2) [of "hi + int k - int b"] show ?thesis by auto
  qed
  with assms(3,4) show ?thesis by (auto simp: bit_simps)
qed

lemma bitmap_behind:
  fixes S :: "int set" and bm :: u64
  assumes "\<And>b. b < 64 \<Longrightarrow> bit bm b \<longleftrightarrow> hi - int b \<in> S" and "k < 64" and "b < 64"
  shows "bit (bm OR push_bit k 1) b \<longleftrightarrow> hi - int b \<in> insert (hi - int k) S"
  using assms by (auto simp: bit_simps)

lemma commit_refines_first:
  assumes "window_rel w s" and "spec_top s = None"
  shows "fst (ReplayWindow_commit w q) = fst (spec_commit s q)
         \<and> window_rel (snd (ReplayWindow_commit w q)) (snd (spec_commit s q))"
proof -
  have "ReplayWindow_commit w q = (True, \<lparr>highest = Some q, bitmap = 1\<rparr>)"
    using assms by (simp add: window_rel_def ReplayWindow_commit_def ReplayWindow_check_def)
  moreover have "spec_commit s q = (True, \<lparr>spec_top = Some (uint q), spec_seen = {uint q}\<rparr>)"
    using assms by (simp add: window_rel_def spec_commit_def spec_fresh_def spec_number_def Let_def)
  ultimately show ?thesis by (auto simp: window_rel_def bit_simps)
qed

lemma commit_refines:
  assumes rel: "window_rel w s"
  shows "fst (ReplayWindow_commit w q) = fst (spec_commit s q)
         \<and> window_rel (snd (ReplayWindow_commit w q)) (snd (spec_commit s q))"
proof (cases "spec_top s")
  case None
  with rel show ?thesis by (rule commit_refines_first)
next
  case (Some hi)
  define d where "d = q - word_of_int hi"
  have h: "highest w = Some (word_of_int hi)"
    and le: "\<And>e. e \<in> spec_seen s \<Longrightarrow> e \<le> hi" and hi: "hi \<in> spec_seen s"
    and bits: "\<And>b. b < 64 \<Longrightarrow> bit (bitmap w) b \<longleftrightarrow> hi - int b \<in> spec_seen s"
    using rel Some by (auto simp: window_rel_def)
  have b: "word_of_int hi - q = - d" by (simp add: d_def)
  have num: "spec_number s q = hi + sint d" and q: "word_of_int hi + d = q"
    by (simp_all add: spec_number_def Some unwrap_seq_def d_def)
  note check = check_refines [OF rel, of q, unfolded num]
  show ?thesis
  proof (cases "0 < sint d")
    case True
    then have d: "sint d = int (unat d)"
      using uint_bounded [of d] by (auto simp: sint_u32 split: if_splits)
    have "ReplayWindow_commit w q = (True, \<lparr>highest = Some q, bitmap = (if 64 \<le> unat d then 1
        else push_bit (unat d) (bitmap w) OR 1)\<rparr>)"
      using True forward_iff [of d] check
      by (simp add: ReplayWindow_commit_def h spec_fresh_def Some ReplayWindow_WIDTH_def word_le_nat_alt
          flip: d_def)
    moreover have "spec_commit s q = (True, \<lparr>spec_top = Some (hi + sint d),
        spec_seen = insert (hi + sint d) (spec_seen s)\<rparr>)"
      using True by (simp add: spec_commit_def num spec_fresh_def Some Let_def)
    moreover have "0 < unat d" using True d by linarith
    moreover from this have "bit (if 64 \<le> unat d then 1 else push_bit (unat d) (bitmap w) OR 1) b
        \<longleftrightarrow> hi + sint d - int b \<in> insert (hi + sint d) (spec_seen s)" if "b < 64" for b
      unfolding d using that by (intro bitmap_forward bits le)
    moreover have "\<forall>e \<in> insert (hi + sint d) (spec_seen s). e \<le> hi + sint d"
      using le True by force
    ultimately show ?thesis by (simp add: window_rel_def q)
  next
    case False
    show ?thesis
    proof (cases "ReplayWindow_check w q")
      case True
      with check False have fresh: "spec_fresh s (hi + sint d)" and "hi + sint d \<notin> spec_seen s"
        and near: "- 64 < sint d" by (auto simp: spec_fresh_def Some)
      with hi False have neg: "sint d < 0" by (cases "sint d = 0") auto
      have k: "hi + sint d = hi - int (unat (- d))" "unat (- d) < 64"
        using unat_behind [OF neg] near by linarith+
      have "ReplayWindow_commit w q = (True, w\<lparr>bitmap := bitmap w OR push_bit (unat (- d)) 1\<rparr>)"
        using True False forward_iff [of d] by (auto simp: ReplayWindow_commit_def h b Let_def simp flip: d_def)
      moreover have "spec_commit s q = (True, \<lparr>spec_top = Some hi,
          spec_seen = insert (hi + sint d) (spec_seen s)\<rparr>)"
        using fresh neg by (simp add: spec_commit_def num Some Let_def)
      moreover have "\<forall>e \<in> insert (hi + sint d) (spec_seen s). e \<le> hi"
        using le neg by force
      moreover have "bit (bitmap w OR push_bit (unat (- d)) 1) b
          \<longleftrightarrow> hi - int b \<in> insert (hi + sint d) (spec_seen s)" if "b < 64" for b
        unfolding k(1) using that k(2) by (intro bitmap_behind bits)
      ultimately show ?thesis using hi by (simp add: window_rel_def h)
    next
      case False
      with rel check show ?thesis by (simp add: ReplayWindow_commit_def spec_commit_def num)
    qed
  qed
qed

text \<open>A run of commits, and how far the head of the window moves during it.\<close>

definition commit_all :: "ReplayWindow \<Rightarrow> u32 list \<Rightarrow> ReplayWindow" where
  "commit_all w qs = foldl (\<lambda>w q. snd (ReplayWindow_commit w q)) w qs"

fun window_travel :: "ReplayWindow \<Rightarrow> u32 list \<Rightarrow> nat" where
  "window_travel w [] = 0"
| "window_travel w (q # qs) =
     (let w' = snd (ReplayWindow_commit w q)
      in (case (highest w, highest w') of (Some a, Some b) \<Rightarrow> unat (b - a) | _ \<Rightarrow> 0) + window_travel w' qs)"

lemma commit_all_simps [simp]:
  "commit_all w [] = w" "commit_all w (q # qs) = commit_all (snd (ReplayWindow_commit w q)) qs"
  by (simp_all add: commit_all_def)

lemma commit_all_append: "commit_all w (ps @ qs) = commit_all (commit_all w ps) qs"
  by (simp add: commit_all_def)

lemma commit_all_refines:
  "window_rel w s \<Longrightarrow> window_rel (commit_all w qs) (foldl (\<lambda>s q. snd (spec_commit s q)) s qs)"
proof (induction qs arbitrary: w s)
  case (Cons q qs)
  from Cons.IH [OF conjunct2 [OF commit_refines [OF Cons.prems, of q]]] show ?case by simp
qed simp

lemma reachable_window: "\<exists>s. window_rel (commit_all ReplayWindow_default ps) s"
  using commit_all_refines [OF window_rel_default] by blast

lemma spec_commit_step:
  assumes "spec_top s = Some a" and "e \<in> spec_seen s"
  shows "\<exists>b. spec_top (snd (spec_commit s q)) = Some b \<and> e \<in> spec_seen (snd (spec_commit s q))
           \<and> a \<le> b \<and> b - a < 2 ^ 31"
proof -
  have "spec_number s q - a < 2 ^ 31"
    using assms(1) sint_lt [of "q - word_of_int a"] by (simp add: spec_number_def unwrap_seq_def)
  with assms show ?thesis by (auto simp: spec_commit_def Let_def max_def)
qed

text \<open>A number once seen stays seen, and the head moves exactly by the travel.\<close>

lemma travel_spec:
  assumes "window_rel w s" and "spec_top s = Some a" and "e \<in> spec_seen s"
  shows "\<exists>s'. window_rel (commit_all w qs) s' \<and> spec_top s' = Some (a + int (window_travel w qs))
           \<and> e \<in> spec_seen s'"
  using assms
proof (induction qs arbitrary: w s a)
  case Nil
  then show ?case by auto
next
  case (Cons q qs)
  let ?w = "snd (ReplayWindow_commit w q)" and ?s = "snd (spec_commit s q)"
  from spec_commit_step [OF Cons.prems(2,3)] obtain b where b: "spec_top ?s = Some b"
    "e \<in> spec_seen ?s" "a \<le> b" "b - a < 2 ^ 31" by blast
  have rel: "window_rel ?w ?s" using commit_refines [OF Cons.prems(1)] by blast
  have "highest w = Some (word_of_int a)" "highest ?w = Some (word_of_int b)"
    using Cons.prems(1,2) rel b(1) by (auto simp: window_rel_def)
  moreover have "(word_of_int b :: u32) - word_of_int a = word_of_int (b - a)" by simp
  moreover have "int (unat (word_of_int (b - a) :: u32)) = b - a"
    unfolding uint_nat [symmetric] uint_word_of_int using b(3,4) by (intro mod_pos_pos_trivial) simp_all
  ultimately have "int (window_travel w (q # qs)) = b - a + int (window_travel ?w qs)"
    by (simp add: Let_def)
  with Cons.IH [OF rel b(1,2)] show ?case by (auto simp: algebra_simps)
qed

lemma seen_not_fresh:
  assumes "window_rel w s" and "spec_top s = Some h" and "e \<in> spec_seen s"
    and "h - e < 2 ^ 31" and "word_of_int e = q"
  shows "\<not> ReplayWindow_check w q"
proof -
  have le: "e \<le> h" using assms(1-3) by (auto simp: window_rel_def)
  have "q - word_of_int h = word_of_int (e - h)" using assms(5) by simp
  moreover have "sint (word_of_int (e - h) :: u32) = e - h"
    unfolding sint_sbintrunc' using le assms(4) by (simp add: signed_take_bit_int_eq_self)
  ultimately have "spec_number s q = e"
    unfolding spec_number_def assms(2) unwrap_seq_def by simp
  with check_refines [OF assms(1), of q] le assms(2,3) show ?thesis by (simp add: spec_fresh_def)
qed

lemma commit_marks:
  assumes "window_rel w s" and "ReplayWindow_check w q"
  shows "\<exists>s' h e. window_rel (snd (ReplayWindow_commit w q)) s' \<and> spec_top s' = Some h
           \<and> e \<in> spec_seen s' \<and> word_of_int e = q \<and> h - e < 64"
proof -
  let ?e = "spec_number s q"
  have fresh: "spec_fresh s ?e" using check_refines assms by blast
  then have "snd (spec_commit s q) = \<lparr>spec_top = Some (case spec_top s of None \<Rightarrow> ?e | Some t \<Rightarrow> max t ?e),
      spec_seen = insert ?e (spec_seen s)\<rparr>" by (simp add: spec_commit_def Let_def)
  moreover have "word_of_int ?e = q" by (simp add: spec_number_def split: option.splits)
  moreover have "(case spec_top s of None \<Rightarrow> ?e | Some t \<Rightarrow> max t ?e) - ?e < 64"
    using fresh by (auto simp: spec_fresh_def split: option.splits)
  ultimately show ?thesis using commit_refines [OF assms(1), of q]
    by (intro exI [of _ "snd (spec_commit s q)"]) auto
qed

lemma no_replay:
  assumes "window_rel w s" and "ReplayWindow_check w q"
    and "window_travel (snd (ReplayWindow_commit w q)) qs + 64 \<le> 2 ^ 31"
  shows "\<not> ReplayWindow_check (commit_all (snd (ReplayWindow_commit w q)) qs) q"
proof -
  from commit_marks [OF assms(1,2)] obtain s' h e where
    1: "window_rel (snd (ReplayWindow_commit w q)) s'" "spec_top s' = Some h" "e \<in> spec_seen s'"
    and e: "word_of_int e = q" "h - e < 64" by blast
  from travel_spec [OF 1] obtain t where
    "window_rel (commit_all (snd (ReplayWindow_commit w q)) qs) t"
    "spec_top t = Some (h + int (window_travel (snd (ReplayWindow_commit w q)) qs))"
    "e \<in> spec_seen t" by blast
  then show ?thesis by (rule seen_not_fresh) (use e assms(3) in simp_all)
qed

text \<open>The windows the program can be in.\<close>

definition window_reach :: "ReplayWindow \<Rightarrow> bool" where
  "window_reach w \<longleftrightarrow> (\<exists>ps. w = commit_all ReplayWindow_default ps)"

lemma window_reach_default [simp]: "window_reach ReplayWindow_default"
  unfolding window_reach_def by (rule exI [of _ "[]"]) simp

lemma window_reach_commit: "window_reach w \<Longrightarrow> window_reach (snd (ReplayWindow_commit w q))"
  unfolding window_reach_def using commit_all_append [of _ _ "[q]"] by (metis commit_all_simps)

lemma window_reach_rel: "window_reach w \<Longrightarrow> \<exists>s. window_rel w s"
  using reachable_window by (auto simp: window_reach_def)

interpretation replay: replay_filter ReplayWindow_check ReplayWindow_commit window_reach
proof unfold_locales
  fix w q
  show "fst (ReplayWindow_commit w q) = ReplayWindow_check w q"
    by (auto simp: ReplayWindow_commit_def Let_def split: option.splits)
  show "\<not> ReplayWindow_check w q \<Longrightarrow> snd (ReplayWindow_commit w q) = w"
    by (simp add: ReplayWindow_commit_def)
  show "window_reach w \<Longrightarrow> ReplayWindow_check w q \<Longrightarrow>
        \<not> ReplayWindow_check (snd (ReplayWindow_commit w q)) q"
    using no_replay [of w _ q "[]"] window_reach_rel by fastforce
  show "window_reach w \<Longrightarrow> window_reach (snd (ReplayWindow_commit w q))"
    by (rule window_reach_commit)
qed

section \<open>Fragmentation and reassembly\<close>

definition payload_chunks :: "bytes \<Rightarrow> bytes list" where
  "payload_chunks payload =
     (let budget = RECORD_MTU - FRAME_HEADER_LEN
      in if length payload \<le> budget then [payload] else chunks budget payload)"

lemma concat_payload_chunks [simp]: "concat (payload_chunks payload) = payload"
  by (simp add: payload_chunks_def Let_def RECORD_MTU_def FRAME_HEADER_LEN_def)

lemma payload_chunk_length: "c \<in> set (payload_chunks payload) \<Longrightarrow> length c \<le> RECORD_MTU - FRAME_HEADER_LEN"
  by (auto simp: payload_chunks_def Let_def dest: length_chunk_le split: if_splits)

lemma payload_chunks_not_Nil [simp]: "payload_chunks payload \<noteq> []"
  by (auto simp: payload_chunks_def Let_def chunks.simps RECORD_MTU_def FRAME_HEADER_LEN_def)

record PendingFrame =
  pf_frame_sequence :: u32
  pf_frag_count :: u16
  pf_fragments :: "bytes option list"
  pf_received :: nat

record Reassembler =
  ra_current :: "PendingFrame option"

definition Reassembler_default :: Reassembler where
  "Reassembler_default = \<lparr>ra_current = None\<rparr>"

text \<open>
  The frame under assembly when a fragment of \<open>header\<close> arrives, and the placing of that fragment.
  The outer \<open>None\<close> is the panic of indexing \<^verbatim>\<open>current.fragments\<close> out of range; otherwise the result is
  the finished frame, if any, and what stays pending.
\<close>

definition pending_for :: "Reassembler \<Rightarrow> FrameHeader \<Rightarrow> PendingFrame" where
  "pending_for self header =
     (let fresh = \<lparr>pf_frame_sequence = fh_frame_sequence header, pf_frag_count = fh_frag_count header,
                   pf_fragments = replicate (unat (fh_frag_count header)) None, pf_received = 0\<rparr>
      in case ra_current self of
           None \<Rightarrow> fresh
         | Some c \<Rightarrow> if pf_frame_sequence c \<noteq> fh_frame_sequence header then fresh else c)"

definition place_fragment ::
  "PendingFrame \<Rightarrow> nat \<Rightarrow> bytes \<Rightarrow> (bytes option \<times> PendingFrame option) option" where
  "place_fragment current index payload =
     (if length (pf_fragments current) \<le> index then None
      else if pf_fragments current ! index \<noteq> None then Some (None, Some current)
      else
        let current = current\<lparr>pf_fragments := (pf_fragments current)[index := Some payload],
                              pf_received := pf_received current + 1\<rparr>
        in if pf_received current < unat (pf_frag_count current) then Some (None, Some current)
           else Some (Some (concat (map (\<lambda>f. case f of None \<Rightarrow> [] | Some b \<Rightarrow> b) (pf_fragments current))), None))"

definition Reassembler_push ::
  "Reassembler \<Rightarrow> FrameHeader \<Rightarrow> bytes \<Rightarrow> (bytes option \<times> Reassembler) option" where
  "Reassembler_push self header payload =
     (if fh_frag_count header = 0 \<or> fh_frag_index header \<ge> fh_frag_count header then Some (None, self)
      else if fh_frag_count header = 1 then Some (Some payload, self\<lparr>ra_current := None\<rparr>)
      else if (case ra_current self of
                 None \<Rightarrow> False
               | Some c \<Rightarrow> pf_frame_sequence c = fh_frame_sequence header
                           \<and> pf_frag_count c \<noteq> fh_frag_count header)
      then Some (None, self)
      else case place_fragment (pending_for self header) (unat (fh_frag_index header)) payload of
             None \<Rightarrow> None
           | Some (frame, current) \<Rightarrow> Some (frame, self\<lparr>ra_current := current\<rparr>))"

definition wf_pending :: "PendingFrame \<Rightarrow> bool" where
  "wf_pending p \<longleftrightarrow>
     length (pf_fragments p) = unat (pf_frag_count p)
     \<and> pf_received p = length (filter (\<lambda>f. f \<noteq> None) (pf_fragments p))
     \<and> pf_received p < unat (pf_frag_count p)"

definition wf_reassembler :: "Reassembler \<Rightarrow> bool" where
  "wf_reassembler r \<longleftrightarrow> (case ra_current r of None \<Rightarrow> True | Some p \<Rightarrow> wf_pending p)"

lemma wf_reassembler_default [simp]: "wf_reassembler Reassembler_default"
  by (simp add: wf_reassembler_def Reassembler_default_def)

lemma length_filter_update:
  "i < length xs \<Longrightarrow> \<not> P (xs ! i) \<Longrightarrow> P y \<Longrightarrow> length (filter P (xs[i := y])) = Suc (length (filter P xs))"
  by (induction xs arbitrary: i) (auto split: nat.splits)

lemma wf_pending_for:
  assumes "wf_reassembler r" and "fh_frag_count h \<noteq> 0"
  shows "wf_pending (pending_for r h)"
proof -
  have "0 < unat (fh_frag_count h)" using assms(2) by (simp add: unat_gt_0)
  then have "wf_pending \<lparr>pf_frame_sequence = q, pf_frag_count = fh_frag_count h,
      pf_fragments = replicate (unat (fh_frag_count h)) None, pf_received = 0\<rparr>" for q
    by (simp add: wf_pending_def)
  with assms(1) show ?thesis
    by (auto simp: pending_for_def wf_reassembler_def Let_def split: option.splits)
qed

lemma place_fragment_ok:
  assumes "wf_pending c" and "i < unat (pf_frag_count c)"
  shows "\<exists>out c'. place_fragment c i p = Some (out, c') \<and> (\<forall>d. c' = Some d \<longrightarrow> wf_pending d)"
proof (cases "pf_fragments c ! i = None")
  case True
  with assms have len: "length (filter (\<lambda>f. f \<noteq> None) ((pf_fragments c)[i := Some p])) = Suc (pf_received c)"
    using length_filter_update [of i "pf_fragments c" "\<lambda>f. f \<noteq> None" "Some p"] by (simp add: wf_pending_def)
  have "wf_pending (c\<lparr>pf_fragments := (pf_fragments c)[i := Some p], pf_received := pf_received c + 1\<rparr>)"
    if "pf_received c + 1 < unat (pf_frag_count c)"
    using that assms len by (simp add: wf_pending_def)
  with True assms show ?thesis by (auto simp: place_fragment_def wf_pending_def Let_def)
next
  case False
  with assms show ?thesis by (auto simp: place_fragment_def wf_pending_def)
qed

text \<open>Indexing never panics, and the counter always is the number of fragments held.\<close>

lemma Reassembler_push_ok:
  assumes "wf_reassembler r"
  shows "\<exists>out r'. Reassembler_push r h p = Some (out, r') \<and> wf_reassembler r'"
proof (cases "fh_frag_count h = 0 \<or> fh_frag_index h \<ge> fh_frag_count h \<or> fh_frag_count h = 1 \<or>
    (\<exists>c. ra_current r = Some c \<and> pf_frame_sequence c = fh_frame_sequence h \<and> pf_frag_count c \<noteq> fh_frag_count h)")
  case True
  then show ?thesis using assms
    by (auto simp: Reassembler_push_def wf_reassembler_def)
next
  case False
  then have "pf_frag_count (pending_for r h) = fh_frag_count h"
    by (auto simp: pending_for_def Let_def split: option.splits)
  with False have "unat (fh_frag_index h) < unat (pf_frag_count (pending_for r h))"
    by (simp add: word_le_nat_alt)
  with place_fragment_ok [OF wf_pending_for [OF assms]] False obtain out c' where
    "place_fragment (pending_for r h) (unat (fh_frag_index h)) p = Some (out, c')"
    "\<forall>d. c' = Some d \<longrightarrow> wf_pending d" by metis
  with False show ?thesis
    by (auto simp: Reassembler_push_def wf_reassembler_def split: option.splits)
qed

interpretation reassembly: invariant_machine
  "\<lambda>r (h, p). case Reassembler_push r h p of Some (_, r') \<Rightarrow> r' | None \<Rightarrow> r" wf_reassembler
proof unfold_locales
  fix r and e :: "FrameHeader \<times> bytes"
  assume "wf_reassembler r"
  with Reassembler_push_ok [of r "fst e" "snd e"]
  show "wf_reassembler (case e of (h, p) \<Rightarrow> case Reassembler_push r h p of Some (_, r') \<Rightarrow> r' | None \<Rightarrow> r)"
    by (auto split: prod.splits)
qed

text \<open>Feeding a sequence of records, collecting the frames that come out.\<close>

fun reassemble_all :: "Reassembler \<Rightarrow> (FrameHeader \<times> bytes) list \<Rightarrow> (bytes list \<times> Reassembler) option" where
  "reassemble_all r [] = Some ([], r)"
| "reassemble_all r ((h, p) # rest) =
     (case Reassembler_push r h p of
        None \<Rightarrow> None
      | Some (out, r') \<Rightarrow>
         (case reassemble_all r' rest of
            None \<Rightarrow> None
          | Some (frames, r'') \<Rightarrow> Some ((case out of None \<Rightarrow> [] | Some f \<Rightarrow> [f]) @ frames, r'')))"

text \<open>The header and payload of fragment \<open>i\<close> of a frame split into \<open>cs\<close>.\<close>

definition fragment :: "(nat \<Rightarrow> u32) \<Rightarrow> u32 \<Rightarrow> u32 \<Rightarrow> bool \<Rightarrow> u8 \<Rightarrow> bytes list \<Rightarrow> nat \<Rightarrow> FrameHeader \<times> bytes" where
  "fragment qs fq ts key pt cs i =
     (record_header (qs i) fq ts key pt (cs ! i) (of_nat i) (of_nat (length cs)), cs ! i)"

lemma fragment_snd [simp]: "snd (fragment qs fq ts key pt cs i) = cs ! i"
  by (simp add: fragment_def)

lemma reassemble_all_Cons:
  "reassemble_all r (x # rest) =
     (case Reassembler_push r (fst x) (snd x) of
        None \<Rightarrow> None
      | Some (out, r') \<Rightarrow>
         (case reassemble_all r' rest of
            None \<Rightarrow> None
          | Some (frames, r'') \<Rightarrow> Some ((case out of None \<Rightarrow> [] | Some f \<Rightarrow> [f]) @ frames, r'')))"
  by (cases x) simp

definition partial_frame :: "u32 \<Rightarrow> bytes list \<Rightarrow> nat set \<Rightarrow> PendingFrame" where
  "partial_frame fq cs S =
     \<lparr>pf_frame_sequence = fq, pf_frag_count = of_nat (length cs),
      pf_fragments = map (\<lambda>i. if i \<in> S then Some (cs ! i) else None) [0..<length cs], pf_received = card S\<rparr>"

lemma concat_full_fragments:
  "concat (map (\<lambda>f. case f of None \<Rightarrow> [] | Some b \<Rightarrow> b)
     (map (\<lambda>i. if i \<in> {..<length cs} then Some (cs ! i) else None) [0..<length cs])) = concat cs"
proof -
  have "map (\<lambda>f. case f of None \<Rightarrow> [] | Some b \<Rightarrow> b)
      (map (\<lambda>i. if i \<in> {..<length cs} then Some (cs ! i) else None) [0..<length cs]) = cs"
    by (rule nth_equalityI) auto
  then show ?thesis by simp
qed

lemma partial_frame_fields:
  "pf_frame_sequence (partial_frame fq cs S) = fq"
  "pf_frag_count (partial_frame fq cs S) = of_nat (length cs)"
  by (simp_all add: partial_frame_def)

lemma partial_frame_update:
  assumes "i < length cs" and "i \<notin> S" and "finite S"
  shows "(partial_frame fq cs S)\<lparr>pf_fragments := (pf_fragments (partial_frame fq cs S))[i := Some (cs ! i)],
           pf_received := pf_received (partial_frame fq cs S) + 1\<rparr> = partial_frame fq cs (insert i S)"
proof -
  have "(map (\<lambda>j. if j \<in> S then Some (cs ! j) else None) [0..<length cs])[i := Some (cs ! i)]
      = map (\<lambda>j. if j \<in> insert i S then Some (cs ! j) else None) [0..<length cs]"
    using assms(1) by (intro nth_equalityI) (auto simp: nth_list_update)
  with assms show ?thesis by (simp add: partial_frame_def)
qed

lemma partial_frame_full:
  "concat (map (\<lambda>f. case f of None \<Rightarrow> [] | Some b \<Rightarrow> b) (pf_fragments (partial_frame fq cs {..<length cs})))
     = concat cs"
  unfolding partial_frame_def PendingFrame.simps by (rule concat_full_fragments)

lemma place_partial:
  assumes "S \<subseteq> {..<length cs}" and "i < length cs" and "length cs \<le> u16_max"
  shows "place_fragment (partial_frame fq cs S) i (cs ! i) =
     (if i \<in> S then Some (None, Some (partial_frame fq cs S))
      else if insert i S \<noteq> {..<length cs} then Some (None, Some (partial_frame fq cs (insert i S)))
      else Some (Some (concat cs), None))"
proof (cases "i \<in> S")
  case True
  with assms show ?thesis by (simp add: place_fragment_def partial_frame_def)
next
  case False
  have fin: "finite S" using assms(1) finite_subset by blast
  have "card (insert i S) < length cs \<longleftrightarrow> insert i S \<noteq> {..<length cs}"
  proof
    assume "insert i S \<noteq> {..<length cs}"
    with assms(1,2) have "insert i S \<subset> {..<length cs}" by auto
    then show "card (insert i S) < length cs" using psubset_card_mono [of "{..<length cs}"] by simp
  next
    assume "card (insert i S) < length cs"
    then show "insert i S \<noteq> {..<length cs}" by (metis card_lessThan less_irrefl)
  qed
  moreover have "pf_received (partial_frame fq cs (insert i S)) = card (insert i S)"
    "unat (pf_frag_count (partial_frame fq cs (insert i S))) = length cs"
    "length (pf_fragments (partial_frame fq cs S)) = length cs"
    "pf_fragments (partial_frame fq cs S) ! i = None"
    using assms(2,3) False by (simp_all add: partial_frame_def)
  ultimately show ?thesis
    using assms(2) False partial_frame_full [of fq cs]
    unfolding place_fragment_def partial_frame_update [OF assms(2) False fin] Let_def
    by (cases "insert i S = {..<length cs}") (simp_all del: card_insert_disjoint)
qed

lemma push_fragment:
  assumes "2 \<le> length cs" and "length cs \<le> u16_max" and "i < length cs" and "S \<subseteq> {..<length cs}"
    and "ra_current r = Some (partial_frame fq cs S)
         \<or> (S = {} \<and> (\<forall>c. ra_current r = Some c \<longrightarrow> pf_frame_sequence c \<noteq> fq))"
  shows "Reassembler_push r (fst (fragment qs fq ts key pt cs i)) (cs ! i) =
     (if i \<in> S then Some (None, r\<lparr>ra_current := Some (partial_frame fq cs S)\<rparr>)
      else if insert i S \<noteq> {..<length cs}
      then Some (None, r\<lparr>ra_current := Some (partial_frame fq cs (insert i S))\<rparr>)
      else Some (Some (concat cs), r\<lparr>ra_current := None\<rparr>))"
proof -
  let ?h = "fst (fragment qs fq ts key pt cs i)"
  have n: "unat (fh_frag_count ?h) = length cs" "unat (fh_frag_index ?h) = i"
    using assms(2,3) by (simp_all add: fragment_def unat_of_nat u16_max_def)
  have pend: "pending_for r ?h = partial_frame fq cs S"
    using assms(5) n(1)
    by (auto simp: pending_for_def partial_frame_def fragment_def map_replicate_const Let_def split: option.splits)
  have "fh_frag_count ?h \<noteq> 0" "fh_frag_count ?h \<noteq> 1" "\<not> fh_frag_index ?h \<ge> fh_frag_count ?h"
    using n assms(1,3) by (auto simp: word_le_nat_alt simp del: n)
  moreover have "\<not> (case ra_current r of None \<Rightarrow> False | Some c \<Rightarrow>
      pf_frame_sequence c = fh_frame_sequence ?h \<and> pf_frag_count c \<noteq> fh_frag_count ?h)"
    using assms(5) partial_frame_fields [of fq cs S] by (auto simp: fragment_def split: option.splits)
  ultimately show ?thesis
    using place_partial [OF assms(4,3,2), of fq] by (simp add: Reassembler_push_def n(2) pend)
qed

text \<open>
  Fragments of one frame, in any order and with repetitions: nothing comes out before every fragment
  has arrived.
\<close>

lemma reassemble_partial:
  assumes "2 \<le> length cs" and "length cs \<le> u16_max" and "S \<subseteq> {..<length cs}"
    and "ra_current r = Some (partial_frame fq cs S)
         \<or> (S = {} \<and> (\<forall>c. ra_current r = Some c \<longrightarrow> pf_frame_sequence c \<noteq> fq))"
    and "set idx \<subseteq> {..<length cs}" and "S \<union> set idx \<noteq> {..<length cs}"
  shows "\<exists>r'. reassemble_all r (map (fragment qs fq ts key pt cs) idx) = Some ([], r')
      \<and> (ra_current r' = Some (partial_frame fq cs (S \<union> set idx))
         \<or> (S \<union> set idx = {} \<and> (\<forall>c. ra_current r' = Some c \<longrightarrow> pf_frame_sequence c \<noteq> fq)))"
  using assms(3-)
proof (induction idx arbitrary: r S)
  case Nil
  then show ?case by simp
next
  case (Cons i idx)
  let ?r = "r\<lparr>ra_current := Some (partial_frame fq cs (insert i S))\<rparr>"
  have "insert i S \<noteq> {..<length cs}" and "i < length cs" using Cons.prems by auto
  then have "Reassembler_push r (fst (fragment qs fq ts key pt cs i)) (cs ! i) = Some (None, ?r)"
    using push_fragment [OF assms(1,2) _ Cons.prems(1,2)] by (auto simp: insert_absorb)
  then have step: "reassemble_all r (map (fragment qs fq ts key pt cs) (i # idx))
      = reassemble_all ?r (map (fragment qs fq ts key pt cs) idx)"
    by (simp add: reassemble_all_Cons fragment_snd split: option.splits)
  obtain r' where "reassemble_all ?r (map (fragment qs fq ts key pt cs) idx) = Some ([], r')"
    "ra_current r' = Some (partial_frame fq cs (insert i S \<union> set idx))"
    using Cons.IH [of "insert i S" ?r] Cons.prems by auto
  then show ?case unfolding step by simp
qed

lemma reassemble_all_append:
  "reassemble_all r (xs @ ys) =
     (case reassemble_all r xs of
        None \<Rightarrow> None
      | Some (fs, r') \<Rightarrow>
         (case reassemble_all r' ys of None \<Rightarrow> None | Some (gs, r'') \<Rightarrow> Some (fs @ gs, r'')))"
  by (induction r xs rule: reassemble_all.induct) (auto split: option.splits prod.splits)

lemma reassemble_complete:
  assumes "2 \<le> length cs" and "length cs \<le> u16_max"
    and "\<forall>c. ra_current r = Some c \<longrightarrow> pf_frame_sequence c \<noteq> fq"
    and "set idx \<subseteq> {..<length cs}" and "i \<notin> set idx" and "insert i (set idx) = {..<length cs}"
  shows "\<exists>r'. reassemble_all r (map (fragment qs fq ts key pt cs) (idx @ [i])) = Some ([concat cs], r')
           \<and> ra_current r' = None"
proof -
  have ne: "set idx \<noteq> {..<length cs}" and i: "i < length cs" using assms(5,6) by auto
  from reassemble_partial [OF assms(1,2) empty_subsetI disjI2 [OF conjI [OF refl assms(3)]] assms(4)] ne
  obtain r' where
    part: "reassemble_all r (map (fragment qs fq ts key pt cs) idx) = Some ([], r')"
    and r': "ra_current r' = Some (partial_frame fq cs (set idx))
         \<or> (set idx = {} \<and> (\<forall>c. ra_current r' = Some c \<longrightarrow> pf_frame_sequence c \<noteq> fq))"
    by (metis Un_empty_left)
  have "Reassembler_push r' (fst (fragment qs fq ts key pt cs i)) (cs ! i)
      = Some (Some (concat cs), r'\<lparr>ra_current := None\<rparr>)"
    using push_fragment [OF assms(1,2) i assms(4) r'] assms(5,6) by simp
  then have "reassemble_all r' [fragment qs fq ts key pt cs i] = Some ([concat cs], r'\<lparr>ra_current := None\<rparr>)"
    by (simp add: reassemble_all_Cons fragment_snd)
  with part show ?thesis by (simp add: reassemble_all_append)
qed

section \<open>Data packets\<close>

definition seal_packet ::
  "crypto_ext \<Rightarrow> Session \<Rightarrow> Direction \<Rightarrow> u32 \<Rightarrow> bytes option \<Rightarrow> bytes \<Rightarrow> TransportError + bytes" where
  "seal_packet X session direction sequence rnd rec =
     (case crypto_seal X session direction (ucast sequence) rnd rec of
        Inl _ \<Rightarrow> Err MalformedRecord
      | Inr sealed \<Rightarrow> Ok ([DATA] @ be32 sequence @ sealed))"

definition open_packet ::
  "crypto_ext \<Rightarrow> Session \<Rightarrow> Direction \<Rightarrow> ReplayWindow \<Rightarrow> bytes
     \<Rightarrow> (TransportError + (FrameHeader \<times> bytes)) \<times> ReplayWindow" where
  "open_packet X session direction window packet =
     (if packet = [] \<or> hd packet \<noteq> DATA then (Err (Dropped ''not a data packet''), window)
      else let sealed = drop 1 packet
           in if length sealed < 4 then (Err (Dropped ''packet too short''), window)
              else
                let sequence = from_be (take 4 sealed)
                in if \<not> ReplayWindow_check window sequence
                   then (Err (Dropped ''replayed or too old''), window)
                   else case crypto_open X session direction (ucast sequence) (drop 4 sealed) of
                     Inl _ \<Rightarrow> (Err (Dropped ''authentication failed''), window)
                   | Inr plaintext \<Rightarrow>
                      (case parse_record plaintext of
                         Inl e \<Rightarrow> (Err e, window)
                       | Inr (header, payload) \<Rightarrow>
                           if fh_sequence header \<noteq> sequence then (Err MalformedRecord, window)
                           else let (accepted, window') = ReplayWindow_commit window sequence
                                in if \<not> accepted then (Err (Dropped ''replayed or too old''), window')
                                   else (Ok (header, payload), window')))"

text \<open>A packet that is refused leaves the replay window as it was.\<close>

lemma open_packet_error_window:
  "open_packet X s d w pkt = (Err e, w') \<Longrightarrow> w' = w"
  using replay.commit_stale
  by (auto simp: open_packet_def Let_def ReplayWindow_commit_def split: if_splits sum.splits prod.splits option.splits)

text \<open>What an accepted packet is.\<close>

lemma open_packet_Ok:
  assumes "open_packet X s d w pkt = (Ok (h, payload), w')"
  shows "\<exists>rec sealed. pkt = [DATA] @ be32 (fh_sequence h) @ sealed
      \<and> crypto_open X s d (ucast (fh_sequence h)) sealed = Ok rec \<and> parse_record rec = Ok (h, payload)
      \<and> ReplayWindow_check w (fh_sequence h) \<and> w' = snd (ReplayWindow_commit w (fh_sequence h))"
proof -
  let ?sealed = "drop 1 pkt" and ?q = "from_be (take 4 (drop 1 pkt)) :: u32"
  have pkt: "pkt \<noteq> []" "hd pkt = DATA" "\<not> length ?sealed < 4"
    using assms by (auto simp: open_packet_def Let_def split: if_splits)
  have "be32 ?q = take 4 ?sealed" using pkt(3) by simp
  with pkt have shape: "pkt = [DATA] @ be32 ?q @ drop 4 ?sealed"
    by (cases pkt) auto
  show ?thesis using assms pkt shape
    by (auto simp: open_packet_def Let_def split: if_splits sum.splits prod.splits)
qed

lemma open_packet_seal_packet:
  assumes "aead_correct X" and "seal_packet X s d (fh_sequence h) rnd rec = Ok pkt"
    and "parse_record rec = Ok (h, payload)" and "ReplayWindow_check w (fh_sequence h)"
  shows "open_packet X s d w pkt = (Ok (h, payload), snd (ReplayWindow_commit w (fh_sequence h)))"
proof -
  from assms(2) obtain sealed where sealed: "crypto_seal X s d (ucast (fh_sequence h)) rnd rec = Ok sealed"
    and pkt: "pkt = [DATA] @ be32 (fh_sequence h) @ sealed"
    by (auto simp: seal_packet_def split: sum.splits)
  have "crypto_open X s d (ucast (fh_sequence h)) sealed = Ok rec"
    using crypto_open_seal [OF assms(1) sealed] .
  moreover have "fst (ReplayWindow_commit w (fh_sequence h))" using replay.commit_fresh assms(4) by blast
  ultimately show ?thesis using assms(3,4)
    by (cases "ReplayWindow_commit w (fh_sequence h)") (simp add: open_packet_def pkt)
qed

text \<open>Sizes on the wire: a data packet is 33 bytes longer than its record.\<close>

lemma seal_packet_length:
  "aead_len X \<Longrightarrow> seal_packet X s d q rnd rec = Ok pkt \<Longrightarrow> length pkt = length rec + 33"
  using length_crypto_seal_eq
  by (fastforce simp: seal_packet_def NONCE_LEN_def split: sum.splits)

lemma seal_packet_total:
  assumes "aead_total X" and "wf_session s" and "length rec \<le> 2 * u16_max"
  shows "\<exists>pkt. seal_packet X s d q (Some r) rec = Ok pkt"
  using crypto_seal_total [OF assms, of d "ucast q" r] by (auto simp: seal_packet_def)

section \<open>Properties\<close>

text \<open>
  C9 The replay window refines the specification on unwrapped sequence numbers: a commit accepts
  exactly when the specification does, and the states stay related, so the 64-bit bitmap really is
  the set of numbers accepted in the last 64 positions, across the wrap-around of the wire number.
\<close>

theorem replay_window_refines:
  assumes "window_rel w s"
  shows "fst (ReplayWindow_commit w q) = fst (spec_commit s q)
         \<and> window_rel (snd (ReplayWindow_commit w q)) (snd (spec_commit s q))"
  using assms by (rule commit_refines)

theorem replay_window_refines_witness:
  "fst (ReplayWindow_commit ReplayWindow_default 7) = fst (spec_commit \<lparr>spec_top = None, spec_seen = {}\<rparr> 7)"
  using replay_window_refines [OF window_rel_default, of 7] by simp

text \<open>
  C5 No replay: after any history, once a sequence number has been accepted it is refused by every
  later check, whatever was committed in between, until the head of the window has moved on by more
  than \<open>2 ^ 31 - 64\<close> positions.
\<close>

theorem replay_window_no_repeat:
  assumes "w = commit_all ReplayWindow_default ps" and "ReplayWindow_check w q"
    and "window_travel (snd (ReplayWindow_commit w q)) qs + 64 \<le> 2 ^ 31"
  shows "\<not> ReplayWindow_check (commit_all (snd (ReplayWindow_commit w q)) qs) q"
  using no_replay assms reachable_window by metis

theorem replay_window_no_repeat_witness:
  "\<not> ReplayWindow_check (commit_all (snd (ReplayWindow_commit (commit_all ReplayWindow_default [5, 9]) 7)) [12, 8]) 7"
proof (rule replay_window_no_repeat [OF refl])
  show "ReplayWindow_check (commit_all ReplayWindow_default [5, 9]) 7" by code_simp
  have "window_travel (snd (ReplayWindow_commit (commit_all ReplayWindow_default [5, 9]) 7)) [12, 8] = 3"
    by code_simp
  then show "window_travel (snd (ReplayWindow_commit (commit_all ReplayWindow_default [5, 9]) 7)) [12, 8] + 64 \<le> 2 ^ 31"
    by simp
qed

text \<open>
  Record round trip: a record built from a payload and a valid fragment position parses back to
  exactly that header and payload, also with the header's big-endian fields.
\<close>

theorem record_roundtrip:
  assumes "build_record q fq ts key pt payload i n = Ok rec" and "i < n"
  shows "parse_record rec =
     Ok (\<lparr>fh_version = 1, fh_keyframe = key, fh_payload_type = pt, fh_sequence = q,
          fh_frame_sequence = fq, fh_timestamp = ts, fh_payload_len = of_nat (length payload),
          fh_frag_index = i, fh_frag_count = n\<rparr>, payload)"
  using assms by (rule parse_record_build_record)

theorem record_roundtrip_witness:
  "\<exists>rec. build_record 258 7 90000 True 1 [1, 2, 3] 0 2 = Ok rec \<and>
   parse_record rec = Ok (\<lparr>fh_version = 1, fh_keyframe = True, fh_payload_type = 1, fh_sequence = 258,
          fh_frame_sequence = 7, fh_timestamp = 90000, fh_payload_len = of_nat (length [1, 2, 3 :: u8]),
          fh_frag_index = 0, fh_frag_count = 2\<rparr>, [1, 2, 3])"
  using record_roundtrip [of 258 7 90000 True 1 "[1, 2, 3]" 0 2]
  by (simp add: build_record_eq u16_max_def)

text \<open>
  C8 Reassembly in any order: when the fragments of a payload arrive in an arbitrary order, with
  arbitrary repetitions before the last missing one, the reassembler yields nothing until the last
  missing fragment and then exactly the payload, and holds nothing afterwards.
\<close>

theorem reassembly_any_order:
  assumes "2 \<le> length (payload_chunks payload)" and "length (payload_chunks payload) \<le> u16_max"
    and "\<forall>c. ra_current r = Some c \<longrightarrow> pf_frame_sequence c \<noteq> fq"
    and "set idx \<subseteq> {..<length (payload_chunks payload)}" and "i \<notin> set idx"
    and "insert i (set idx) = {..<length (payload_chunks payload)}"
  shows "\<exists>r'. reassemble_all r (map (fragment qs fq ts key pt (payload_chunks payload)) (idx @ [i]))
             = Some ([payload], r') \<and> ra_current r' = None"
  using reassemble_complete [OF assms] by simp

theorem reassembly_any_order_witness:
  "\<exists>r'. reassemble_all Reassembler_default
      (map (fragment (\<lambda>i. of_nat i) 3 0 False 1 (payload_chunks (replicate 3000 7))) ([2, 0, 2] @ [1]))
    = Some ([replicate 3000 7], r') \<and> ra_current r' = None"
proof -
  have "length (payload_chunks (replicate 3000 (7 :: u8))) = 3"
    by (simp add: payload_chunks_def RECORD_MTU_def FRAME_HEADER_LEN_def length_chunks)
  then show ?thesis
    by (intro reassembly_any_order) (auto simp: u16_max_def Reassembler_default_def)
qed

text \<open>
  The reassembler never indexes out of range and keeps its invariant (as many slots as the frame has
  fragments, a counter equal to the filled slots, and never a complete frame left pending).
\<close>

theorem reassembler_no_panic:
  assumes "wf_reassembler r"
  shows "\<exists>out r'. Reassembler_push r h p = Some (out, r') \<and> wf_reassembler r'"
  using assms by (rule Reassembler_push_ok)

theorem reassembler_no_panic_witness:
  "\<exists>out r'. Reassembler_push Reassembler_default
     (record_header 1 1 0 True 1 [9] 4 3) [9] = Some (out, r') \<and> wf_reassembler r'"
  by (rule reassembler_no_panic) simp

text \<open>
  Packet round trip: a packet sealed for a session opens under it, for a receiver whose window
  still takes the sequence number, to the header and payload of the record; the number is then spent.
\<close>

theorem packet_roundtrip:
  assumes "aead_correct X" and "build_record q fq ts key pt payload i n = Ok rec" and "i < n"
    and "seal_packet X s d q rnd rec = Ok pkt" and "ReplayWindow_check w q"
  shows "open_packet X s d w pkt = (Ok (record_header q fq ts key pt payload i n, payload),
           snd (ReplayWindow_commit w q))"
  using open_packet_seal_packet [OF assms(1), of s d "record_header q fq ts key pt payload i n" rnd rec pkt payload w]
    parse_record_build_record [OF assms(2,3)] assms(4,5) by simp

theorem packet_roundtrip_witness:
  "\<exists>rec pkt w'. build_record 4 3 0 True 1 [5, 6] 0 1 = Ok rec
     \<and> seal_packet sample_crypto sample_session HostToDevice 4 (Some []) rec = Ok pkt
     \<and> open_packet sample_crypto sample_session HostToDevice ReplayWindow_default pkt
         = (Ok (record_header 4 3 0 True 1 [5, 6] 0 1, [5, 6]), w')"
proof -
  obtain rec where rec: "build_record 4 3 0 True 1 [5, 6] 0 1 = Ok rec"
    by (simp add: build_record_eq u16_max_def)
  obtain pkt where "seal_packet sample_crypto sample_session HostToDevice 4 (Some []) rec = Ok pkt"
    by (simp add: seal_packet_def crypto_seal_def sample_crypto_def sample_session_def NONCE_LEN_def)
  with rec packet_roundtrip [OF sample_laws(1) rec] show ?thesis
    by (fastforce simp: ReplayWindow_check_def ReplayWindow_default_def)
qed

text \<open>
  C10 Authenticity: an accepted packet carries the AEAD encryption, under the session key of that
  direction and with the clear sequence number as associated data, of a record with the returned
  header and payload; its number was fresh, and the window moved by exactly that number.
\<close>

theorem open_packet_authentic:
  assumes "aead_inverse X" and "open_packet X s d w pkt = (Ok (h, payload), w')"
  shows "\<exists>rec n c. pkt = [DATA] @ be32 (fh_sequence h) @ n @ c \<and> length n = NONCE_LEN
      \<and> aead_encrypt X (sk_key (keys_for s d)) n (build_aad d (ucast (fh_sequence h))) rec = Some c
      \<and> parse_record rec = Ok (h, payload)
      \<and> ReplayWindow_check w (fh_sequence h) \<and> w' = snd (ReplayWindow_commit w (fh_sequence h))"
  using open_packet_Ok [OF assms(2)] crypto_open_genuine [OF assms(1)] by metis

theorem open_packet_authentic_witness:
  "\<exists>rec n c. [DATA, 0, 0, 0, 4] @ replicate 12 0
        @ [1, 0, 1, 0, 0, 0, 0, 4, 0, 0, 0, 3, 0, 0, 0, 0, 0, 0, 0, 0, 0, 1, 0, 0] @ replicate 16 46
      = [DATA] @ be32 4 @ n @ c \<and> length n = NONCE_LEN
      \<and> aead_encrypt sample_crypto (replicate 32 1) n (build_aad HostToDevice 4) rec = Some c
      \<and> parse_record rec = Ok (record_header 4 3 0 False 1 [] 0 1, [])"
proof -
  have "open_packet sample_crypto sample_session HostToDevice ReplayWindow_default
      ([DATA, 0, 0, 0, 4] @ replicate 12 0
        @ [1, 0, 1, 0, 0, 0, 0, 4, 0, 0, 0, 3, 0, 0, 0, 0, 0, 0, 0, 0, 0, 1, 0, 0] @ replicate 16 46)
      = (Ok (record_header 4 3 0 False 1 [] 0 1, []), \<lparr>highest = Some 4, bitmap = 1\<rparr>)"
    by code_simp
  from open_packet_authentic [OF sample_laws(2) this] show ?thesis
    by (simp add: sample_session_def) blast
qed

text \<open>
  A packet that is refused, for whatever reason, leaves the replay window unchanged: unauthenticated
  traffic cannot advance it.
\<close>

theorem open_packet_refused_keeps_window:
  assumes "open_packet X s d w pkt = (Err e, w')"
  shows "w' = w"
  using assms by (rule open_packet_error_window)

theorem open_packet_refused_keeps_window_witness:
  "snd (open_packet sample_crypto sample_session HostToDevice ReplayWindow_default (0x10 # replicate 40 9))
     = ReplayWindow_default"
proof -
  let ?r = "open_packet sample_crypto sample_session HostToDevice ReplayWindow_default (0x10 # replicate 40 9)"
  have "fst ?r = Err (Dropped ''authentication failed'')" by code_simp
  then have "?r = (Err (Dropped ''authentication failed''), snd ?r)" by (metis prod.collapse)
  then show ?thesis by (rule open_packet_refused_keeps_window)
qed

end
