(* ===== verification/Handshake.thy ===== *)
theory Handshake
  imports Transport
begin

text \<open>
  Model of \<^verbatim>\<open>host/crates/emersia-daemon/src/transport/handshake.rs\<close>: the three-message forward-secret
  handshake.  A function that can panic (\<^verbatim>\<open>expect\<close>, \<^verbatim>\<open>assert_eq!\<close>) returns an \<open>option\<close> whose \<open>None\<close> is the
  panic.  The lemmas show that an honest run cannot panic, agrees on one session and is confirmed,
  that the host only answers an init sealed under a key that needs its own static secret, and that
  messages out of order are refused.
\<close>

section \<open>Key schedule\<close>

definition CONTEXT :: bytes where "CONTEXT = as_bytes ''emersia/handshake-v1''"
definition DEVICE_ID_LEN :: nat where "DEVICE_ID_LEN = 8"
definition label_k1 :: bytes where "label_k1 = as_bytes ''k1''"
definition label_k2 :: bytes where "label_k2 = as_bytes ''k2''"

definition strip_type :: "bytes \<Rightarrow> u8 \<Rightarrow> bytes option" where
  "strip_type packet ty = (case packet of [] \<Rightarrow> None | b # rest \<Rightarrow> if b = ty then Some rest else None)"

definition master_key :: "crypto_ext \<Rightarrow> bytes list \<Rightarrow> bytes \<Rightarrow> bytes \<Rightarrow> bytes option" where
  "master_key X ikm_parts slt label =
     (let ikm = concat ikm_parts; info = CONTEXT @ label in hkdf_sha256 X slt ikm info 32)"

definition key_session :: "crypto_ext \<Rightarrow> bytes \<Rightarrow> bytes \<Rightarrow> bytes \<Rightarrow> Session option" where
  "key_session X master slt label =
     (case from_key_material X master slt (CONTEXT @ label) of Inl _ \<Rightarrow> None | Inr s \<Rightarrow> Some s)"

lemma strip_type_Cons [simp]: "strip_type (ty # rest) ty = Some rest"
  by (simp add: strip_type_def)

lemma strip_type_Some: "strip_type packet ty = Some rest \<longleftrightarrow> packet = ty # rest"
  by (auto simp: strip_type_def split: list.splits if_splits)

lemma master_key_total: "hkdf_ok X \<Longrightarrow> \<exists>k. master_key X parts slt label = Some k \<and> length k = 32"
  by (simp add: master_key_def hkdf_ok_def)

lemma key_session_total: "hkdf_ok X \<Longrightarrow> \<exists>s. key_session X master slt label = Some s \<and> wf_session s"
  using from_key_material_wf [of X master slt "CONTEXT @ label"] by (auto simp: key_session_def)

section \<open>Client\<close>

datatype HandshakeError = BadInit | BadResponse | BadConfirm | OutOfOrder | NotTheHost

fun HandshakeError_display :: "HandshakeError \<Rightarrow> string" where
  "HandshakeError_display BadInit = ''malformed or unauthenticated handshake init''"
| "HandshakeError_display BadResponse = ''malformed handshake response''"
| "HandshakeError_display BadConfirm = ''handshake confirmation failed''"
| "HandshakeError_display OutOfOrder = ''handshake message out of order''"
| "HandshakeError_display NotTheHost = ''peer does not hold the pinned host key''"

datatype Step = StepInit | StepResponse | StepDone

record HandshakeClient =
  hc_device_id :: bytes
  hc_static_identity :: DeviceIdentity
  hc_host_static :: bytes
  hc_ephemeral :: DeviceIdentity
  hc_step :: Step

definition HandshakeClient_new ::
  "bytes option \<Rightarrow> bytes \<Rightarrow> DeviceIdentity \<Rightarrow> bytes \<Rightarrow> HandshakeClient option" where
  "HandshakeClient_new rnd device_id identity host_static =
     (case DeviceIdentity_generate rnd of
        Inl _ \<Rightarrow> None
      | Inr eph \<Rightarrow> Some \<lparr>hc_device_id = device_id, hc_static_identity = identity,
                          hc_host_static = host_static, hc_ephemeral = eph, hc_step = StepInit\<rparr>)"

definition init_body :: "crypto_ext \<Rightarrow> HandshakeClient \<Rightarrow> bytes" where
  "init_body X self =
     hc_device_id self @ public_key_bytes X (hc_static_identity self)
     @ public_key_bytes X (hc_ephemeral self)"

definition init_keys :: "crypto_ext \<Rightarrow> HandshakeClient \<Rightarrow> (bytes \<times> bytes \<times> bytes) option" where
  "init_keys X self =
     (case agree X (hc_static_identity self) (hc_host_static self) of
        None \<Rightarrow> None
      | Some dh_ds_hs \<Rightarrow>
         (case agree X (hc_ephemeral self) (hc_host_static self) of
            None \<Rightarrow> None
          | Some dh_de_hs \<Rightarrow> Some (dh_ds_hs, dh_de_hs, transcript X [init_body X self])))"

definition HandshakeClient_init ::
  "crypto_ext \<Rightarrow> bytes option \<Rightarrow> HandshakeClient \<Rightarrow> (bytes \<times> HandshakeClient) option" where
  "HandshakeClient_init X rnd self =
     (if hc_step self \<noteq> StepInit then None
      else let self = self\<lparr>hc_step := StepResponse\<rparr>
           in case init_keys X self of
                None \<Rightarrow> None
              | Some (dh_ds_hs, dh_de_hs, slt) \<Rightarrow>
                 (case master_key X [dh_ds_hs, dh_de_hs] slt label_k1 of
                    None \<Rightarrow> None
                  | Some k1 \<Rightarrow>
                     (case key_session X k1 slt label_k1 of
                        None \<Rightarrow> None
                      | Some k1_session \<Rightarrow>
                         (case crypto_seal X k1_session DeviceToHost 1 rnd (hc_device_id self) of
                            Inl _ \<Rightarrow> None
                          | Inr tag \<Rightarrow> Some ([HANDSHAKE_INIT] @ init_body X self @ tag, self)))))"

definition client_session ::
  "crypto_ext \<Rightarrow> HandshakeClient \<Rightarrow> bytes \<Rightarrow> bytes \<Rightarrow> bytes \<Rightarrow> (HandshakeError + Session) option" where
  "client_session X self host_eph salt1 k1 =
     (case agree X (hc_ephemeral self) host_eph of
        None \<Rightarrow> Some (Err BadResponse)
      | Some dh_de_he \<Rightarrow>
          let salt2 = transcript X [salt1, host_eph]
          in case master_key X [dh_de_he, k1] salt2 label_k2 of
               None \<Rightarrow> None
             | Some k2 \<Rightarrow> Some (map_err (\<lambda>_. BadResponse) (from_key_material X k2 salt2 CONTEXT)))"

definition HandshakeClient_finish ::
  "crypto_ext \<Rightarrow> HandshakeClient \<Rightarrow> bytes \<Rightarrow> ((HandshakeError + Session) \<times> HandshakeClient) option" where
  "HandshakeClient_finish X self response =
     (if hc_step self \<noteq> StepResponse then Some (Err OutOfOrder, self)
      else
        let self = self\<lparr>hc_step := StepDone\<rparr>
        in case strip_type response HANDSHAKE_RESPONSE of
             None \<Rightarrow> Some (Err BadResponse, self)
           | Some packet \<Rightarrow>
               if length packet < 32 then Some (Err BadResponse, self)
               else
                 let host_eph = take 32 packet; tag = drop 32 packet
                 in case init_keys X self of
                      None \<Rightarrow> Some (Err NotTheHost, self)
                    | Some (dh_ds_hs, dh_de_hs, salt1) \<Rightarrow>
                       (case master_key X [dh_ds_hs, dh_de_hs] salt1 label_k1 of
                          None \<Rightarrow> None
                        | Some k1 \<Rightarrow>
                           (case key_session X k1 salt1 label_k1 of
                              None \<Rightarrow> None
                            | Some k1_session \<Rightarrow>
                               (case crypto_open X k1_session HostToDevice 1 tag of
                                  Inl _ \<Rightarrow> Some (Err NotTheHost, self)
                                | Inr opened \<Rightarrow>
                                    if opened \<noteq> hc_device_id self then Some (Err NotTheHost, self)
                                    else map_option (\<lambda>r. (r, self)) (client_session X self host_eph salt1 k1)))))"

definition HandshakeClient_confirm :: "crypto_ext \<Rightarrow> bytes option \<Rightarrow> Session \<Rightarrow> bytes option" where
  "HandshakeClient_confirm X rnd session =
     (case crypto_seal X session DeviceToHost 1 rnd [] of
        Inl _ \<Rightarrow> None
      | Inr tag \<Rightarrow> Some ([HANDSHAKE_CONFIRM] @ tag))"

section \<open>Server\<close>

record InitOutcome =
  io_response :: bytes
  io_device_id :: bytes
  io_session :: Session

record HandshakeServer =
  hs_host_identity :: DeviceIdentity
  hs_step :: Step
  hs_device_id :: bytes

definition HandshakeServer_new :: "DeviceIdentity \<Rightarrow> HandshakeServer" where
  "HandshakeServer_new host_identity =
     \<lparr>hs_host_identity = host_identity, hs_step = StepInit, hs_device_id = replicate DEVICE_ID_LEN 0\<rparr>"

text \<open>The host's half of the response: its ephemeral key, the session and the sealed proof.\<close>

definition host_response ::
  "crypto_ext \<Rightarrow> bytes option \<Rightarrow> bytes option \<Rightarrow> bytes \<Rightarrow> bytes \<Rightarrow> bytes \<Rightarrow> bytes \<Rightarrow> Session
     \<Rightarrow> (HandshakeError + InitOutcome) option" where
  "host_response X eph_rnd nonce_rnd device_id device_eph salt1 k1 k1_session =
     (case DeviceIdentity_generate eph_rnd of
        Inl _ \<Rightarrow> None
      | Inr ephemeral \<Rightarrow>
         (case agree X ephemeral device_eph of
            None \<Rightarrow> Some (Err BadInit)
          | Some dh_de_he \<Rightarrow>
              let host_eph = public_key_bytes X ephemeral; salt2 = transcript X [salt1, host_eph]
              in case master_key X [dh_de_he, k1] salt2 label_k2 of
                   None \<Rightarrow> None
                 | Some k2 \<Rightarrow>
                    (case from_key_material X k2 salt2 CONTEXT of
                       Inl _ \<Rightarrow> Some (Err BadInit)
                     | Inr session \<Rightarrow>
                        (case crypto_seal X k1_session HostToDevice 1 nonce_rnd device_id of
                           Inl _ \<Rightarrow> Some (Err BadInit)
                         | Inr sealed \<Rightarrow>
                             Some (Ok \<lparr>io_response = [HANDSHAKE_RESPONSE] @ host_eph @ sealed,
                                       io_device_id = device_id, io_session = session\<rparr>)))))"

definition accept_init ::
  "crypto_ext \<Rightarrow> bytes option \<Rightarrow> bytes option \<Rightarrow> HandshakeServer \<Rightarrow> bytes
     \<Rightarrow> ((HandshakeError + InitOutcome) \<times> HandshakeServer) option" where
  "accept_init X eph_rnd nonce_rnd self packet =
     (if hs_step self \<noteq> StepInit then Some (Err OutOfOrder, self)
      else case strip_type packet HANDSHAKE_INIT of
        None \<Rightarrow> Some (Err BadInit, self)
      | Some body \<Rightarrow>
          if length body < DEVICE_ID_LEN + 64 then Some (Err BadInit, self)
          else
            let header_len = DEVICE_ID_LEN + 64;
                device_id = take DEVICE_ID_LEN body;
                device_static = slice body DEVICE_ID_LEN (DEVICE_ID_LEN + 32);
                device_eph = slice body (DEVICE_ID_LEN + 32) header_len;
                tag = drop header_len body
            in case agree X (hs_host_identity self) device_static of
                 None \<Rightarrow> Some (Err BadInit, self)
               | Some dh_ds_hs \<Rightarrow>
                  (case agree X (hs_host_identity self) device_eph of
                     None \<Rightarrow> Some (Err BadInit, self)
                   | Some dh_de_hs \<Rightarrow>
                       let salt1 = transcript X [take header_len body]
                       in case master_key X [dh_ds_hs, dh_de_hs] salt1 label_k1 of
                            None \<Rightarrow> None
                          | Some k1 \<Rightarrow>
                             (case key_session X k1 salt1 label_k1 of
                                None \<Rightarrow> None
                              | Some k1_session \<Rightarrow>
                                 (case crypto_open X k1_session DeviceToHost 1 tag of
                                    Inl _ \<Rightarrow> Some (Err BadInit, self)
                                  | Inr opened \<Rightarrow>
                                      if opened \<noteq> device_id then Some (Err BadInit, self)
                                      else case host_response X eph_rnd nonce_rnd device_id device_eph
                                                  salt1 k1 k1_session of
                                             None \<Rightarrow> None
                                           | Some (Inl e) \<Rightarrow> Some (Err e, self)
                                           | Some (Inr out) \<Rightarrow>
                                               Some (Ok out, self\<lparr>hs_step := StepResponse,
                                                                  hs_device_id := device_id\<rparr>)))))"

definition verify_confirm :: "crypto_ext \<Rightarrow> Session \<Rightarrow> bytes \<Rightarrow> HandshakeError + unit" where
  "verify_confirm X session packet =
     (case strip_type packet HANDSHAKE_CONFIRM of
        None \<Rightarrow> Err BadConfirm
      | Some tag \<Rightarrow>
         (case crypto_open X session DeviceToHost 1 tag of
            Inl _ \<Rightarrow> Err BadConfirm
          | Inr _ \<Rightarrow> Ok ()))"

section \<open>An honest run\<close>

text \<open>What the handshake relies on of the primitives.\<close>

definition crypto_laws :: "crypto_ext \<Rightarrow> bool" where
  "crypto_laws X \<longleftrightarrow> aead_correct X \<and> aead_total X \<and> dh_commutes X \<and> public_len X \<and> hkdf_ok X"

lemma public_key_bytes_length: "public_len X \<Longrightarrow> length (public_key_bytes X i) = 32"
  by (simp add: public_key_bytes_def public_from_secret_def public_len_def)

text \<open>The first key, as both sides compute it.\<close>

definition k1_schedule :: "crypto_ext \<Rightarrow> bytes \<Rightarrow> bytes \<Rightarrow> bytes \<Rightarrow> (bytes \<times> Session) option" where
  "k1_schedule X a b slt =
     (case master_key X [a, b] slt label_k1 of
        None \<Rightarrow> None
      | Some k1 \<Rightarrow> map_option (Pair k1) (key_session X k1 slt label_k1))"

lemma k1_schedule_total:
  assumes "hkdf_ok X"
  obtains k1 s where "k1_schedule X a b slt = Some (k1, s)" "wf_session s"
proof -
  from assms obtain k1 where "master_key X [a, b] slt label_k1 = Some k1"
    using master_key_total by blast
  moreover from assms obtain s where "key_session X k1 slt label_k1 = Some s" "wf_session s"
    using key_session_total by blast
  ultimately show ?thesis using that by (simp add: k1_schedule_def)
qed

lemma k1_schedule_Some:
  "k1_schedule X a b slt = Some (k1, s) \<longleftrightarrow>
   master_key X [a, b] slt label_k1 = Some k1 \<and> key_session X k1 slt label_k1 = Some s"
  by (auto simp: k1_schedule_def split: option.splits)

lemma init_honest:
  assumes "hc_step c = StepInit" and "init_keys X c = Some (a, b, slt)"
    and "k1_schedule X a b slt = Some (k1, s)"
    and "crypto_seal X s DeviceToHost 1 rnd (hc_device_id c) = Ok tag"
  shows "HandshakeClient_init X rnd c
           = Some ([HANDSHAKE_INIT] @ init_body X c @ tag, c\<lparr>hc_step := StepResponse\<rparr>)"
proof -
  have "init_keys X (c\<lparr>hc_step := StepResponse\<rparr>) = init_keys X c"
    "init_body X (c\<lparr>hc_step := StepResponse\<rparr>) = init_body X c"
    by (simp_all add: init_keys_def init_body_def cong: option.case_cong)
  with assms show ?thesis
    by (simp add: HandshakeClient_init_def k1_schedule_Some)
qed

lemma accept_honest:
  assumes "hs_step srv = StepInit" and "body = device_id @ pds @ pde"
    and "length device_id = DEVICE_ID_LEN" "length pds = 32" "length pde = 32"
    and "agree X (hs_host_identity srv) pds = Some a" and "agree X (hs_host_identity srv) pde = Some b"
    and "k1_schedule X a b (transcript X [body]) = Some (k1, s)"
    and "crypto_open X s DeviceToHost 1 tag = Ok device_id"
    and "host_response X er nr device_id pde (transcript X [body]) k1 s = Some (Ok out)"
  shows "accept_init X er nr srv ([HANDSHAKE_INIT] @ body @ tag)
           = Some (Ok out, srv\<lparr>hs_step := StepResponse, hs_device_id := device_id\<rparr>)"
proof -
  let ?b = "body @ tag"
  have "take DEVICE_ID_LEN ?b = device_id" "slice ?b DEVICE_ID_LEN (DEVICE_ID_LEN + 32) = pds"
    "slice ?b (DEVICE_ID_LEN + 32) (DEVICE_ID_LEN + 64) = pde" "drop (DEVICE_ID_LEN + 64) ?b = tag"
    "take (DEVICE_ID_LEN + 64) ?b = body" "\<not> length ?b < DEVICE_ID_LEN + 64"
    using assms(2-5) by (simp_all add: slice_def DEVICE_ID_LEN_def)
  with assms(1,6-) show ?thesis
    by (simp add: accept_init_def k1_schedule_Some Let_def)
qed

lemma host_response_honest:
  assumes "hkdf_ok X" and "aead_total X" and "wf_session s" and "length device_id = DEVICE_ID_LEN"
    and "DeviceIdentity_generate er = Ok he" and "agree X he pde = Some d"
  shows "\<exists>k2 session sealed.
     master_key X [d, k1] (transcript X [salt1, public_key_bytes X he]) label_k2 = Some k2
     \<and> from_key_material X k2 (transcript X [salt1, public_key_bytes X he]) CONTEXT = Ok session
     \<and> wf_session session \<and> crypto_seal X s HostToDevice 1 (Some nr) device_id = Ok sealed
     \<and> host_response X er (Some nr) device_id pde salt1 k1 s
         = Some (Ok \<lparr>io_response = [HANDSHAKE_RESPONSE] @ public_key_bytes X he @ sealed,
                     io_device_id = device_id, io_session = session\<rparr>)"
proof -
  let ?salt2 = "transcript X [salt1, public_key_bytes X he]"
  obtain k2 where k2: "master_key X [d, k1] ?salt2 label_k2 = Some k2"
    using master_key_total [OF assms(1)] by blast
  obtain session where session: "from_key_material X k2 ?salt2 CONTEXT = Ok session" "wf_session session"
    using from_key_material_wf [OF assms(1)] by blast
  have "length device_id \<le> 2 * u16_max" using assms(4) by (simp add: DEVICE_ID_LEN_def u16_max_def)
  then obtain sealed where "crypto_seal X s HostToDevice 1 (Some nr) device_id = Ok sealed"
    using crypto_seal_total [OF assms(2,3)] by blast
  with k2 session assms(5,6) show ?thesis by (simp add: host_response_def)
qed

lemma finish_honest:
  assumes "hc_step c = StepResponse" and "init_keys X c = Some (a, b, slt)"
    and "k1_schedule X a b slt = Some (k1, s)" and "length host_eph = 32"
    and "crypto_open X s HostToDevice 1 sealed = Ok (hc_device_id c)"
    and "agree X (hc_ephemeral c) host_eph = Some d"
    and "master_key X [d, k1] (transcript X [slt, host_eph]) label_k2 = Some k2"
    and "from_key_material X k2 (transcript X [slt, host_eph]) CONTEXT = Ok session"
  shows "HandshakeClient_finish X c ([HANDSHAKE_RESPONSE] @ host_eph @ sealed)
           = Some (Ok session, c\<lparr>hc_step := StepDone\<rparr>)"
proof -
  have "init_keys X (c\<lparr>hc_step := StepDone\<rparr>) = init_keys X c"
    by (simp add: init_keys_def init_body_def cong: option.case_cong)
  with assms show ?thesis
    by (simp add: HandshakeClient_finish_def k1_schedule_Some client_session_def)
qed

lemma confirm_honest:
  assumes "aead_correct X" and "aead_total X" and "wf_session session"
  shows "\<exists>conf. HandshakeClient_confirm X (Some r) session = Some conf
           \<and> hd conf = HANDSHAKE_CONFIRM \<and> conf \<noteq> [] \<and> verify_confirm X session conf = Ok ()"
proof -
  obtain tag where tag: "crypto_seal X session DeviceToHost 1 (Some r) [] = Ok tag"
    using crypto_seal_total [OF assms(2,3), of "[]"] by (metis le0 list.size(3))
  with crypto_open_seal [OF assms(1) this] show ?thesis
    by (simp add: HandshakeClient_confirm_def verify_confirm_def)
qed

lemma init_shape:
  assumes "aead_len X" and "HandshakeClient_init X rnd c = Some (pkt, c')"
  shows "\<exists>tag. pkt = HANDSHAKE_INIT # init_body X c @ tag \<and> length tag = NONCE_LEN + length (hc_device_id c) + 16"
  using assms length_crypto_seal_eq [OF assms(1)]
  by (auto simp: HandshakeClient_init_def init_body_def Let_def split: if_splits option.splits sum.splits)

lemma handshake_honest_run:
  assumes laws: "crypto_laws X" and c: "hc_step c = StepInit" "length (hc_device_id c) = DEVICE_ID_LEN"
    and pinned: "hc_host_static c = public_key_bytes X host"
    and a: "agree X (hc_static_identity c) (public_key_bytes X host) = Some a"
    and b: "agree X (hc_ephemeral c) (public_key_bytes X host) = Some b"
    and he: "DeviceIdentity_generate er = Ok he"
    and d: "agree X (hc_ephemeral c) (public_key_bytes X he) = Some d"
  shows "\<exists>pkt out srv conf.
     HandshakeClient_init X (Some r1) c = Some (pkt, c\<lparr>hc_step := StepResponse\<rparr>)
     \<and> accept_init X er (Some r2) (HandshakeServer_new host) pkt = Some (Ok out, srv)
     \<and> io_device_id out = hc_device_id c
     \<and> HandshakeClient_finish X (c\<lparr>hc_step := StepResponse\<rparr>) (io_response out)
         = Some (Ok (io_session out), c\<lparr>hc_step := StepDone\<rparr>)
     \<and> HandshakeClient_confirm X (Some r3) (io_session out) = Some conf
     \<and> verify_confirm X (io_session out) conf = Ok ()"
proof -
  note laws' = laws [unfolded crypto_laws_def]
  let ?body = "init_body X c" and ?c1 = "c\<lparr>hc_step := StepResponse\<rparr>"
  let ?slt = "transcript X [?body]"
  have keys: "init_keys X c = Some (a, b, ?slt)" using a b pinned by (simp add: init_keys_def)
  have keys1: "init_keys X ?c1 = Some (a, b, ?slt)"
    using a b pinned by (simp add: init_keys_def init_body_def)
  obtain k1 s where k1: "k1_schedule X a b ?slt = Some (k1, s)" and s: "wf_session s"
    using k1_schedule_total laws' by metis
  have "length (hc_device_id c) \<le> 2 * u16_max" using c by (simp add: DEVICE_ID_LEN_def u16_max_def)
  then obtain tag where tag: "crypto_seal X s DeviceToHost 1 (Some r1) (hc_device_id c) = Ok tag"
    using crypto_seal_total s laws' by metis
  have d': "agree X he (public_key_bytes X (hc_ephemeral c)) = Some d"
    using d agree_symmetric laws' by metis
  from host_response_honest [OF _ _ s c(2) he d', of k1 ?slt r2] laws' obtain k2 session sealed where
    k2: "master_key X [d, k1] (transcript X [?slt, public_key_bytes X he]) label_k2 = Some k2"
    and sess: "from_key_material X k2 (transcript X [?slt, public_key_bytes X he]) CONTEXT = Ok session"
    and wf: "wf_session session"
    and sealed: "crypto_seal X s HostToDevice 1 (Some r2) (hc_device_id c) = Ok sealed"
    and resp: "host_response X er (Some r2) (hc_device_id c) (public_key_bytes X (hc_ephemeral c)) ?slt k1 s
       = Some (Ok \<lparr>io_response = [HANDSHAKE_RESPONSE] @ public_key_bytes X he @ sealed,
                   io_device_id = hc_device_id c, io_session = session\<rparr>)" by blast
  note plen = public_key_bytes_length [of X] laws'
  have accept: "accept_init X er (Some r2) (HandshakeServer_new host) ([HANDSHAKE_INIT] @ ?body @ tag)
      = Some (Ok \<lparr>io_response = [HANDSHAKE_RESPONSE] @ public_key_bytes X he @ sealed,
                  io_device_id = hc_device_id c, io_session = session\<rparr>,
              (HandshakeServer_new host)\<lparr>hs_step := StepResponse, hs_device_id := hc_device_id c\<rparr>)"
  proof (rule accept_honest)
    show "?body = hc_device_id c @ public_key_bytes X (hc_static_identity c) @ public_key_bytes X (hc_ephemeral c)"
      by (simp add: init_body_def)
    show "agree X (hs_host_identity (HandshakeServer_new host)) (public_key_bytes X (hc_static_identity c)) = Some a"
      "agree X (hs_host_identity (HandshakeServer_new host)) (public_key_bytes X (hc_ephemeral c)) = Some b"
      using a b agree_symmetric laws' by (metis HandshakeServer.select_convs(1) HandshakeServer_new_def)+
    show "crypto_open X s DeviceToHost 1 tag = Ok (hc_device_id c)"
      using crypto_open_seal tag laws' by blast
  qed (use c k1 resp plen in \<open>simp_all add: HandshakeServer_new_def\<close>)
  have finish: "HandshakeClient_finish X ?c1 ([HANDSHAKE_RESPONSE] @ public_key_bytes X he @ sealed)
      = Some (Ok session, ?c1\<lparr>hc_step := StepDone\<rparr>)"
    by (rule finish_honest [OF _ keys1 k1 _ _ _ k2 sess])
      (use crypto_open_seal sealed laws' d plen in auto)
  from confirm_honest [OF _ _ wf] laws' obtain conf where
    "HandshakeClient_confirm X (Some r3) session = Some conf" "verify_confirm X session conf = Ok ()" by blast
  with init_honest [OF c(1) keys k1 tag] accept finish show ?thesis by auto
qed

section \<open>What an accepted message proves\<close>

text \<open>
  An init the host answers carries an encryption of its device id, under the key both sides derive
  from the host's static secret and the two keys in the message.
\<close>

lemma accept_init_genuine:
  assumes "aead_inverse X" and "accept_init X er nr srv packet = Some (Ok out, srv')"
  shows "\<exists>device_id pds pde n c a b k1 s.
     packet = [HANDSHAKE_INIT] @ device_id @ pds @ pde @ n @ c
     \<and> length device_id = DEVICE_ID_LEN \<and> length pds = 32 \<and> length pde = 32 \<and> length n = NONCE_LEN
     \<and> agree X (hs_host_identity srv) pds = Some a \<and> agree X (hs_host_identity srv) pde = Some b
     \<and> k1_schedule X a b (transcript X [device_id @ pds @ pde]) = Some (k1, s)
     \<and> aead_encrypt X (sk_key (device_to_host s)) n (build_aad DeviceToHost 1) device_id = Some c
     \<and> io_device_id out = device_id"
proof -
  from assms(2) obtain body where body: "packet = HANDSHAKE_INIT # body" "\<not> length body < DEVICE_ID_LEN + 64"
    by (auto simp: accept_init_def strip_type_Some split: if_splits option.splits)
  let ?id = "take DEVICE_ID_LEN body" and ?s = "slice body DEVICE_ID_LEN (DEVICE_ID_LEN + 32)"
    and ?e = "slice body (DEVICE_ID_LEN + 32) (DEVICE_ID_LEN + 64)"
  from assms(2) body obtain a b k1 s where
    1: "agree X (hs_host_identity srv) ?s = Some a" "agree X (hs_host_identity srv) ?e = Some b"
       "k1_schedule X a b (transcript X [take (DEVICE_ID_LEN + 64) body]) = Some (k1, s)"
       "crypto_open X s DeviceToHost 1 (drop (DEVICE_ID_LEN + 64) body) = Ok ?id"
       "host_response X er nr ?id ?e (transcript X [take (DEVICE_ID_LEN + 64) body]) k1 s = Some (Ok out)"
    by (auto simp: accept_init_def Let_def k1_schedule_Some
        split: if_splits option.splits sum.splits)
  have hdr: "take (DEVICE_ID_LEN + 64) body = ?id @ ?s @ ?e"
    using slice_concat [of DEVICE_ID_LEN "DEVICE_ID_LEN + 32" "DEVICE_ID_LEN + 64" body]
    by (simp add: slice_def take_add)
  from crypto_open_genuine [OF assms(1) 1(4)] obtain n c where
    n: "drop (DEVICE_ID_LEN + 64) body = n @ c" "length n = NONCE_LEN"
       "aead_encrypt X (sk_key (device_to_host s)) n (build_aad DeviceToHost 1) ?id = Some c" by auto
  have "body = ?id @ ?s @ ?e @ n @ c"
    using hdr n(1) by (metis append.assoc append_take_drop_id)
  moreover have "io_device_id out = ?id"
    using 1(5) by (auto simp: host_response_def Let_def split: option.splits sum.splits)
  moreover have "length ?id = DEVICE_ID_LEN" "length ?s = 32" "length ?e = 32"
    using body(2) by simp_all
  ultimately show ?thesis
    using body(1) 1(1,2) 1(3) [unfolded hdr] n(2,3) by (metis append_Cons append_Nil)
qed

text \<open>The device only accepts a response sealed for its id under the first key.\<close>

lemma finish_genuine:
  assumes "aead_inverse X" and "HandshakeClient_finish X c response = Some (Ok session, c')"
  shows "\<exists>host_eph n ct a b slt k1 s.
     response = [HANDSHAKE_RESPONSE] @ host_eph @ n @ ct \<and> length host_eph = 32 \<and> length n = NONCE_LEN
     \<and> init_keys X c = Some (a, b, slt) \<and> k1_schedule X a b slt = Some (k1, s)
     \<and> aead_encrypt X (sk_key (host_to_device s)) n (build_aad HostToDevice 1) (hc_device_id c) = Some ct
     \<and> hc_step c = StepResponse \<and> hc_step c' = StepDone"
proof -
  let ?c = "c\<lparr>hc_step := StepDone\<rparr>"
  from assms(2) obtain p where p: "response = HANDSHAKE_RESPONSE # p" "\<not> length p < 32"
    and step: "hc_step c = StepResponse"
    by (auto simp: HandshakeClient_finish_def Let_def strip_type_Some split: if_splits option.splits)
  have keys: "init_keys X ?c = init_keys X c"
    by (simp add: init_keys_def init_body_def cong: option.case_cong)
  from assms(2) p step obtain a b slt k1 s where
    1: "init_keys X c = Some (a, b, slt)" "k1_schedule X a b slt = Some (k1, s)"
       "crypto_open X s HostToDevice 1 (drop 32 p) = Ok (hc_device_id c)" "c' = ?c"
    by (auto simp: HandshakeClient_finish_def Let_def keys k1_schedule_Some
        split: if_splits option.splits sum.splits)
  from crypto_open_genuine [OF assms(1) 1(3)] obtain n ct where
    "drop 32 p = n @ ct" "length n = NONCE_LEN"
    "aead_encrypt X (sk_key (host_to_device s)) n (build_aad HostToDevice 1) (hc_device_id c) = Some ct"
    by auto
  moreover from this have "response = [HANDSHAKE_RESPONSE] @ take 32 p @ n @ ct"
    using p(1) by (metis append_Cons append_Nil append_take_drop_id)
  moreover have "length (take 32 p) = 32" using p(2) by simp
  ultimately show ?thesis using 1 step by fastforce
qed

lemma verify_confirm_genuine:
  assumes "aead_inverse X" and "verify_confirm X session packet = Ok u"
  shows "\<exists>n c m. packet = [HANDSHAKE_CONFIRM] @ n @ c \<and> length n = NONCE_LEN
           \<and> aead_encrypt X (sk_key (device_to_host session)) n (build_aad DeviceToHost 1) m = Some c"
proof -
  from assms(2) obtain tag m where "packet = HANDSHAKE_CONFIRM # tag"
    and "crypto_open X session DeviceToHost 1 tag = Ok m"
    by (auto simp: verify_confirm_def strip_type_Some split: option.splits sum.splits)
  with crypto_open_genuine [OF assms(1), of session DeviceToHost 1 tag m] show ?thesis by auto
qed

text \<open>Each side runs its exchange once.\<close>

lemma accept_init_once:
  assumes "accept_init X er nr srv packet = Some (Ok out, srv')"
  shows "accept_init X er' nr' srv' packet' = Some (Err OutOfOrder, srv')"
proof -
  from assms have "hs_step srv' = StepResponse"
    by (auto simp: accept_init_def Let_def split: if_splits option.splits sum.splits)
  then show ?thesis by (simp add: accept_init_def)
qed

lemma finish_once:
  assumes "HandshakeClient_finish X c response = Some (r, c')" and "hc_step c = StepResponse"
  shows "HandshakeClient_finish X c' response' = Some (Err OutOfOrder, c')"
proof -
  from assms have "hc_step c' = StepDone"
    by (auto simp: HandshakeClient_finish_def Let_def split: if_splits option.splits sum.splits)
  then show ?thesis by (simp add: HandshakeClient_finish_def)
qed

section \<open>Properties\<close>

text \<open>
  C4 An honest handshake completes: with the pinned host key being the host's and no all-zero shared
  secret, the init of a fresh client is accepted, the response is accepted by the client, both ends
  hold the same session for the client's device id, and the confirm it sends verifies.  No step
  panics or is refused.
\<close>

theorem handshake_agreement:
  assumes "crypto_laws X" and "hc_step c = StepInit" and "length (hc_device_id c) = DEVICE_ID_LEN"
    and "hc_host_static c = public_key_bytes X host"
    and "agree X (hc_static_identity c) (public_key_bytes X host) \<noteq> None"
    and "agree X (hc_ephemeral c) (public_key_bytes X host) \<noteq> None"
    and "DeviceIdentity_generate er = Ok he"
    and "agree X (hc_ephemeral c) (public_key_bytes X he) \<noteq> None"
  shows "\<exists>pkt out srv conf.
     HandshakeClient_init X (Some r1) c = Some (pkt, c\<lparr>hc_step := StepResponse\<rparr>)
     \<and> accept_init X er (Some r2) (HandshakeServer_new host) pkt = Some (Ok out, srv)
     \<and> io_device_id out = hc_device_id c
     \<and> HandshakeClient_finish X (c\<lparr>hc_step := StepResponse\<rparr>) (io_response out)
         = Some (Ok (io_session out), c\<lparr>hc_step := StepDone\<rparr>)
     \<and> HandshakeClient_confirm X (Some r3) (io_session out) = Some conf
     \<and> verify_confirm X (io_session out) conf = Ok ()"
  using assms handshake_honest_run by blast

definition sample_client :: HandshakeClient where
  "sample_client = \<lparr>hc_device_id = [1, 2, 3, 4, 5, 6, 7, 8], hc_static_identity = \<lparr>secret = [3]\<rparr>,
     hc_host_static = pad32 [5], hc_ephemeral = \<lparr>secret = [7]\<rparr>, hc_step = StepInit\<rparr>"

theorem handshake_agreement_witness:
  "\<exists>pkt out srv conf.
     HandshakeClient_init sample_crypto (Some []) sample_client = Some (pkt, sample_client\<lparr>hc_step := StepResponse\<rparr>)
     \<and> accept_init sample_crypto (Some [9]) (Some []) (HandshakeServer_new \<lparr>secret = [5]\<rparr>) pkt = Some (Ok out, srv)
     \<and> io_device_id out = hc_device_id sample_client
     \<and> HandshakeClient_finish sample_crypto (sample_client\<lparr>hc_step := StepResponse\<rparr>) (io_response out)
         = Some (Ok (io_session out), sample_client\<lparr>hc_step := StepDone\<rparr>)
     \<and> HandshakeClient_confirm sample_crypto (Some []) (io_session out) = Some conf
     \<and> verify_confirm sample_crypto (io_session out) conf = Ok ()"
proof (rule handshake_agreement)
  show "crypto_laws sample_crypto" by (simp add: crypto_laws_def sample_laws)
  show "DeviceIdentity_generate (Some [9]) = Ok \<lparr>secret = pad32 [9]\<rparr>"
    by (simp add: DeviceIdentity_generate_def DeviceIdentity_from_private_bytes_def pad32_def)
qed code_simp+

text \<open>
  C12 The host answers only a genuine init: every accepted init contains an AEAD encryption of its own
  device id under the key derived from the host's static secret and the two public keys in that very
  message (the transcript salts the key), and the outcome carries that device id.
\<close>

theorem accept_init_authentic:
  assumes "aead_inverse X" and "accept_init X er nr srv packet = Some (Ok out, srv')"
  shows "\<exists>device_id pds pde n c a b k1 s.
     packet = [HANDSHAKE_INIT] @ device_id @ pds @ pde @ n @ c
     \<and> length device_id = DEVICE_ID_LEN \<and> length pds = 32 \<and> length pde = 32 \<and> length n = NONCE_LEN
     \<and> agree X (hs_host_identity srv) pds = Some a \<and> agree X (hs_host_identity srv) pde = Some b
     \<and> k1_schedule X a b (transcript X [device_id @ pds @ pde]) = Some (k1, s)
     \<and> aead_encrypt X (sk_key (device_to_host s)) n (build_aad DeviceToHost 1) device_id = Some c
     \<and> io_device_id out = device_id"
  using assms by (rule accept_init_genuine)

definition sample_init :: bytes where
  "sample_init = fst (the (HandshakeClient_init sample_crypto (Some []) sample_client))"

definition sample_outcome :: InitOutcome where
  "sample_outcome = (case the (accept_init sample_crypto (Some [9]) (Some []) (HandshakeServer_new \<lparr>secret = [5]\<rparr>) sample_init)
     of (Inr out, _) \<Rightarrow> out)"

lemma sample_run:
  shows sample_init: "HandshakeClient_init sample_crypto (Some []) sample_client = Some (sample_init, sample_client\<lparr>hc_step := StepResponse\<rparr>)"
    and sample_accept: "\<exists>srv. accept_init sample_crypto (Some [9]) (Some []) (HandshakeServer_new \<lparr>secret = [5]\<rparr>) sample_init
          = Some (Ok sample_outcome, srv)"
    and sample_outcome_id: "io_device_id sample_outcome = [1, 2, 3, 4, 5, 6, 7, 8]"
    and sample_finish: "HandshakeClient_finish sample_crypto (sample_client\<lparr>hc_step := StepResponse\<rparr>) (io_response sample_outcome)
          = Some (Ok (io_session sample_outcome), sample_client\<lparr>hc_step := StepDone\<rparr>)"
    and sample_confirms: "\<exists>conf. HandshakeClient_confirm sample_crypto (Some []) (io_session sample_outcome) = Some conf
          \<and> verify_confirm sample_crypto (io_session sample_outcome) conf = Ok ()"
proof -
  have laws: "crypto_laws sample_crypto" by (simp add: crypto_laws_def sample_laws)
  have client: "hc_step sample_client = StepInit" "length (hc_device_id sample_client) = DEVICE_ID_LEN"
      "hc_host_static sample_client = public_key_bytes sample_crypto \<lparr>secret = [5]\<rparr>"
      "agree sample_crypto (hc_static_identity sample_client) (public_key_bytes sample_crypto \<lparr>secret = [5]\<rparr>) \<noteq> None"
      "agree sample_crypto (hc_ephemeral sample_client) (public_key_bytes sample_crypto \<lparr>secret = [5]\<rparr>) \<noteq> None"
      "agree sample_crypto (hc_ephemeral sample_client) (public_key_bytes sample_crypto \<lparr>secret = pad32 [9]\<rparr>) \<noteq> None"
    by code_simp+
  have he: "DeviceIdentity_generate (Some [9]) = Ok \<lparr>secret = pad32 [9]\<rparr>"
    by (simp add: DeviceIdentity_generate_def DeviceIdentity_from_private_bytes_def pad32_def)
  obtain pkt out srv conf where run:
      "HandshakeClient_init sample_crypto (Some []) sample_client = Some (pkt, sample_client\<lparr>hc_step := StepResponse\<rparr>)"
      "accept_init sample_crypto (Some [9]) (Some []) (HandshakeServer_new \<lparr>secret = [5]\<rparr>) pkt = Some (Ok out, srv)"
      "io_device_id out = hc_device_id sample_client"
      "HandshakeClient_finish sample_crypto (sample_client\<lparr>hc_step := StepResponse\<rparr>) (io_response out)
         = Some (Ok (io_session out), sample_client\<lparr>hc_step := StepDone\<rparr>)"
      "HandshakeClient_confirm sample_crypto (Some []) (io_session out) = Some conf"
      "verify_confirm sample_crypto (io_session out) conf = Ok ()"
    using handshake_honest_run [OF laws client(1-3) _ _ he, of _ _ _ "[]" "[]" "[]"] client(4-6) by blast
  have "sample_init = pkt" "sample_outcome = out" using run(1,2) by (simp_all add: sample_init_def sample_outcome_def)
  with run show "HandshakeClient_init sample_crypto (Some []) sample_client = Some (sample_init, sample_client\<lparr>hc_step := StepResponse\<rparr>)"
    "\<exists>srv. accept_init sample_crypto (Some [9]) (Some []) (HandshakeServer_new \<lparr>secret = [5]\<rparr>) sample_init = Some (Ok sample_outcome, srv)"
    "io_device_id sample_outcome = [1, 2, 3, 4, 5, 6, 7, 8]"
    "HandshakeClient_finish sample_crypto (sample_client\<lparr>hc_step := StepResponse\<rparr>) (io_response sample_outcome)
       = Some (Ok (io_session sample_outcome), sample_client\<lparr>hc_step := StepDone\<rparr>)"
    "\<exists>conf. HandshakeClient_confirm sample_crypto (Some []) (io_session sample_outcome) = Some conf
       \<and> verify_confirm sample_crypto (io_session sample_outcome) conf = Ok ()"
    by (auto simp: sample_client_def)
qed

lemma sample_init_shape:
  "\<exists>rest. sample_init = HANDSHAKE_INIT # [1, 2, 3, 4, 5, 6, 7, 8] @ pad32 [3] @ pad32 [7] @ rest \<and> length rest = NONCE_LEN + 24"
proof -
  have "init_body sample_crypto sample_client = [1, 2, 3, 4, 5, 6, 7, 8] @ pad32 [3] @ pad32 [7]"
    by (simp add: init_body_def sample_client_def public_key_bytes_def public_from_secret_def sample_crypto_def)
  then show ?thesis using init_shape [OF sample_laws(4) sample_init] by (auto simp: sample_client_def)
qed

theorem accept_init_authentic_witness:
  "\<exists>device_id pds pde n c. sample_init = [HANDSHAKE_INIT] @ device_id @ pds @ pde @ n @ c
     \<and> length device_id = DEVICE_ID_LEN \<and> io_device_id sample_outcome = device_id"
  using accept_init_authentic [OF sample_laws(2)] sample_accept by blast

text \<open>
  C13 The device accepts only the pinned host: a response the client takes carries an encryption of the
  client's device id under the first key, which needs the pinned static key's secret, in the host's
  direction; the client then is done and will not accept another response.
\<close>

theorem finish_authentic:
  assumes "aead_inverse X" and "HandshakeClient_finish X c response = Some (Ok session, c')"
  shows "(\<exists>host_eph n ct a b slt k1 s.
       response = [HANDSHAKE_RESPONSE] @ host_eph @ n @ ct \<and> length host_eph = 32 \<and> length n = NONCE_LEN
       \<and> init_keys X c = Some (a, b, slt) \<and> k1_schedule X a b slt = Some (k1, s)
       \<and> aead_encrypt X (sk_key (host_to_device s)) n (build_aad HostToDevice 1) (hc_device_id c) = Some ct)
     \<and> HandshakeClient_finish X c' response' = Some (Err OutOfOrder, c')"
proof -
  have "hc_step c = StepResponse" using finish_genuine [OF assms] by blast
  with finish_once [OF assms(2)] finish_genuine [OF assms] show ?thesis by blast
qed

theorem finish_authentic_witness:
  "HandshakeClient_finish sample_crypto (sample_client\<lparr>hc_step := StepDone\<rparr>) (io_response sample_outcome)
     = Some (Err OutOfOrder, sample_client\<lparr>hc_step := StepDone\<rparr>)"
  using finish_authentic [OF sample_laws(2) sample_finish] by blast

end
