(* ===== verification/Udp.thy ===== *)
theory Udp
  imports Handshake
begin

text \<open>
  Model of \<^verbatim>\<open>host/crates/emersia-daemon/src/transport/udp.rs\<close>: the host endpoint with its pending
  handshakes and confirmed peers, and the device endpoint.  The socket is not state of the model:
  a received datagram is an argument, a sent one is part of the result, and the outcome of each
  system call is an argument.  \<open>clk k\<close> is the \<open>k\<close>-th reading of \<^verbatim>\<open>Instant::now()\<close> in one call, in
  nanoseconds.  The authorizer is a predicate for the duration of one call.  An outer \<open>None\<close> is a
  panic (the random source failing inside \<^verbatim>\<open>accept_init\<close>).
\<close>

section \<open>State\<close>

definition MAX_DATAGRAM :: nat where "MAX_DATAGRAM = 65535"
definition DEFAULT_READ_TIMEOUT :: nat where "DEFAULT_READ_TIMEOUT = 250000000"
definition PENDING_HANDSHAKE_TTL :: nat where "PENDING_HANDSHAKE_TTL = 10000000000"
definition MAX_PENDING_HANDSHAKES :: nat where "MAX_PENDING_HANDSHAKES = 64"
definition MAX_PENDING_HANDSHAKES_PER_DEVICE :: nat where "MAX_PENDING_HANDSHAKES_PER_DEVICE = 4"

datatype socket_addr = SocketAddr "u8 list" u16

datatype HostOutcome = Silent | Reply bytes

record Peer =
  peer_addr :: socket_addr
  peer_session :: Session
  peer_window :: ReplayWindow

record Pending =
  pn_device_id :: bytes
  pn_device_static :: bytes
  pn_session :: Session
  pn_created_at :: nat

record HostEndpoint =
  host_identity :: DeviceIdentity
  pending :: "(socket_addr \<times> Pending) list"
  peers :: "(bytes \<times> Peer) list"
  next_sequence :: u32

type_synonym authorizer = "bytes \<Rightarrow> bytes \<Rightarrow> bool"

text \<open>\<open>io 0\<close> is the outcome of binding the socket, \<open>io 1\<close> of setting its read timeout.\<close>

definition HostEndpoint_bind :: "(nat \<Rightarrow> string option) \<Rightarrow> DeviceIdentity \<Rightarrow> string + HostEndpoint" where
  "HostEndpoint_bind io identity =
     (case io 0 of
        Some e \<Rightarrow> Err e
      | None \<Rightarrow> (case io 1 of
            Some e \<Rightarrow> Err e
          | None \<Rightarrow> Ok \<lparr>host_identity = identity, pending = [], peers = [], next_sequence = 0\<rparr>))"

section \<open>Handling one datagram\<close>

definition pending_live :: "nat \<Rightarrow> Pending \<Rightarrow> bool" where
  "pending_live now p \<longleftrightarrow> pn_created_at p \<le> now \<and> now - pn_created_at p < PENDING_HANDSHAKE_TTL"

definition prune_pending :: "nat \<Rightarrow> HostEndpoint \<Rightarrow> HostEndpoint" where
  "prune_pending now self = self\<lparr>pending := filter (\<lambda>(_, p). pending_live now p) (pending self)\<rparr>"

definition count_device :: "bytes \<Rightarrow> (socket_addr \<times> Pending) list \<Rightarrow> nat" where
  "count_device device_id ps = length (filter (\<lambda>(_, p). pn_device_id p = device_id) ps)"

definition handle_init ::
  "crypto_ext \<Rightarrow> bytes option \<Rightarrow> bytes option \<Rightarrow> nat \<Rightarrow> nat \<Rightarrow> HostEndpoint \<Rightarrow> bytes \<Rightarrow> socket_addr
     \<Rightarrow> authorizer \<Rightarrow> (HostOutcome \<times> HostEndpoint) option" where
  "handle_init X eph_rnd nonce_rnd now now' self packet from authorized =
     (let self = prune_pending now self
      in case strip_type packet HANDSHAKE_INIT of
           None \<Rightarrow> Some (Silent, self)
         | Some body \<Rightarrow>
             if length body < DEVICE_ID_LEN + 64 then Some (Silent, self)
             else
               let device_id = take DEVICE_ID_LEN body;
                   device_static = slice body DEVICE_ID_LEN (DEVICE_ID_LEN + 32)
               in if \<not> authorized device_id device_static then Some (Silent, self)
                  else if map_of (pending self) from = None
                          \<and> (length (pending self) \<ge> MAX_PENDING_HANDSHAKES
                             \<or> count_device device_id (pending self) \<ge> MAX_PENDING_HANDSHAKES_PER_DEVICE)
                  then Some (Silent, self)
                  else case accept_init X eph_rnd nonce_rnd (HandshakeServer_new (host_identity self)) packet of
                         None \<Rightarrow> None
                       | Some (Inl _, _) \<Rightarrow> Some (Silent, self)
                       | Some (Inr outcome, _) \<Rightarrow>
                           Some (Reply (io_response outcome),
                                 self\<lparr>pending := al_insert from
                                        \<lparr>pn_device_id = io_device_id outcome, pn_device_static = device_static,
                                         pn_session = io_session outcome, pn_created_at = now'\<rparr> (pending self)\<rparr>))"

definition handle_confirm ::
  "crypto_ext \<Rightarrow> nat \<Rightarrow> HostEndpoint \<Rightarrow> bytes \<Rightarrow> socket_addr \<Rightarrow> authorizer \<Rightarrow> HostOutcome \<times> HostEndpoint" where
  "handle_confirm X now self packet from authorized =
     (let self = prune_pending now self
      in case map_of (pending self) from of
           None \<Rightarrow> (Silent, self)
         | Some pend \<Rightarrow>
             if \<not> authorized (pn_device_id pend) (pn_device_static pend)
             then (Silent, self\<lparr>pending := al_remove from (pending self),
                                peers := al_remove (pn_device_id pend) (peers self)\<rparr>)
             else if \<not> is_ok (verify_confirm X (pn_session pend) packet)
             then (Silent, self\<lparr>pending := al_remove from (pending self)\<rparr>)
             else (Silent, self\<lparr>pending := al_remove from (pending self),
                                peers := al_insert (pn_device_id pend)
                                  \<lparr>peer_addr = from, peer_session = pn_session pend,
                                   peer_window = ReplayWindow_default\<rparr> (peers self)\<rparr>))"

text \<open>The first peer of the iteration order with the sender's address gets the packet.\<close>

definition handle_data :: "crypto_ext \<Rightarrow> HostEndpoint \<Rightarrow> bytes \<Rightarrow> socket_addr \<Rightarrow> HostEndpoint" where
  "handle_data X self packet from =
     (case find (\<lambda>(_, p). peer_addr p = from) (peers self) of
        None \<Rightarrow> self
      | Some (device_id, peer) \<Rightarrow>
          let (_, window) = open_packet X (peer_session peer) DeviceToHost (peer_window peer) packet
          in self\<lparr>peers := al_insert device_id (peer\<lparr>peer_window := window\<rparr>) (peers self)\<rparr>)"

definition handle_packet ::
  "crypto_ext \<Rightarrow> bytes option \<Rightarrow> bytes option \<Rightarrow> (nat \<Rightarrow> nat) \<Rightarrow> HostEndpoint \<Rightarrow> bytes \<Rightarrow> socket_addr
     \<Rightarrow> authorizer \<Rightarrow> (HostOutcome \<times> HostEndpoint) option" where
  "handle_packet X eph_rnd nonce_rnd clk self packet from authorized =
     (let self = prune_pending (clk 0) self
      in case packet of
           [] \<Rightarrow> Some (Silent, self)
         | ty # _ \<Rightarrow>
             if ty = HANDSHAKE_INIT then handle_init X eph_rnd nonce_rnd (clk 1) (clk 2) self packet from authorized
             else if ty = HANDSHAKE_CONFIRM then Some (handle_confirm X (clk 1) self packet from authorized)
             else if ty = DATA then Some (Silent, handle_data X self packet from)
             else Some (Silent, self))"

section \<open>The receive loop\<close>

datatype recv_result = Datagram bytes socket_addr | RecvRetry | RecvFailed string

text \<open>
  What one turn of the loop meets: clock readings, the datagram, random bytes, the send outcome.  The authorizer is
  an \<^verbatim>\<open>FnMut\<close>, which may answer differently from one datagram to the next: \<open>authorized k\<close> is what it answers for the \<open>k\<close>-th.
\<close>

record pump_io =
  pio_now :: nat
  pio_recv :: recv_result
  pio_clk :: "nat \<Rightarrow> nat"
  pio_eph :: "bytes option"
  pio_nonce :: "bytes option"
  pio_send :: "string option"

fun pump_loop ::
  "crypto_ext \<Rightarrow> nat \<Rightarrow> nat \<Rightarrow> (nat \<Rightarrow> pump_io) \<Rightarrow> HostEndpoint \<Rightarrow> (nat \<Rightarrow> authorizer)
     \<Rightarrow> ((string + nat) \<times> HostEndpoint \<times> (bytes \<times> socket_addr) list) option" where
  "pump_loop X processed 0 env self authorized = Some (Ok processed, self, [])"
| "pump_loop X processed (Suc left) env self authorized =
     (let io = env processed; self = prune_pending (pio_now io) self
      in case pio_recv io of
           RecvRetry \<Rightarrow> Some (Ok processed, self, [])
         | RecvFailed e \<Rightarrow> Some (Err e, self, [])
         | Datagram buf from \<Rightarrow>
            (case handle_packet X (pio_eph io) (pio_nonce io) (pio_clk io) self (take MAX_DATAGRAM buf) from (authorized processed) of
               None \<Rightarrow> None
             | Some (Silent, self) \<Rightarrow> pump_loop X (Suc processed) left env self authorized
             | Some (Reply bs, self) \<Rightarrow>
                (case pio_send io of
                   Some e \<Rightarrow> Some (Err e, self, [])
                 | None \<Rightarrow>
                    (case pump_loop X (Suc processed) left env self authorized of
                       None \<Rightarrow> None
                     | Some (r, self, sent) \<Rightarrow> Some (r, self, (bs, from) # sent)))))"

definition HostEndpoint_pump where
  "HostEndpoint_pump X mx env self authorized = pump_loop X 0 mx env self authorized"

definition peer_count :: "HostEndpoint \<Rightarrow> nat" where
  "peer_count self = length (peers self)"

definition peer_ids :: "HostEndpoint \<Rightarrow> bytes list" where
  "peer_ids self = map fst (peers self)"

definition disconnect :: "bytes \<Rightarrow> HostEndpoint \<Rightarrow> bool \<times> HostEndpoint" where
  "disconnect device_id self =
     (let peer_removed = map_of (peers self) device_id \<noteq> None;
          pending_before = length (pending self);
          self = self\<lparr>peers := al_remove device_id (peers self),
                      pending := filter (\<lambda>(_, p). pn_device_id p \<noteq> device_id) (pending self)\<rparr>
      in (peer_removed \<or> pending_before \<noteq> length (pending self), self))"

section \<open>Sending a frame\<close>

text \<open>\<open>rnd i\<close> and \<open>sent i\<close> are the nonce and the send outcome of fragment \<open>i\<close>.\<close>

fun send_fragments ::
  "crypto_ext \<Rightarrow> (nat \<Rightarrow> bytes option) \<Rightarrow> (nat \<Rightarrow> bool) \<Rightarrow> Session \<Rightarrow> u32 \<Rightarrow> u32 \<Rightarrow> bool \<Rightarrow> u8 \<Rightarrow> u16
     \<Rightarrow> nat \<Rightarrow> bytes list \<Rightarrow> u32 \<Rightarrow> (TransportError + unit) \<times> u32 \<times> bytes list" where
  "send_fragments X rnd sent session frame_sequence timestamp keyframe payload_type frag_count index [] sq =
     (Ok (), sq, [])"
| "send_fragments X rnd sent session frame_sequence timestamp keyframe payload_type frag_count index (chunk # rest) sq =
     (let record_sequence = sq; sq = sq + 1
      in case build_record record_sequence frame_sequence timestamp keyframe payload_type chunk
                (of_nat index) frag_count of
           Inl e \<Rightarrow> (Err e, sq, [])
         | Inr rec \<Rightarrow>
            (case seal_packet X session HostToDevice record_sequence (rnd index) rec of
               Inl e \<Rightarrow> (Err e, sq, [])
             | Inr packet \<Rightarrow>
                 if \<not> sent index then (Err (Dropped ''send failed''), sq, [])
                 else case send_fragments X rnd sent session frame_sequence timestamp keyframe payload_type
                             frag_count (Suc index) rest sq of
                        (r, sq, packets) \<Rightarrow> (r, sq, packet # packets)))"

definition send_frame ::
  "crypto_ext \<Rightarrow> (nat \<Rightarrow> bytes option) \<Rightarrow> (nat \<Rightarrow> bool) \<Rightarrow> HostEndpoint \<Rightarrow> bytes \<Rightarrow> u32 \<Rightarrow> bool \<Rightarrow> u8 \<Rightarrow> bytes
     \<Rightarrow> (TransportError + nat) \<times> HostEndpoint \<times> (bytes \<times> socket_addr) list" where
  "send_frame X rnd sent self device_id timestamp keyframe payload_type payload =
     (case map_of (peers self) device_id of
        None \<Rightarrow> (Err (Dropped ''no such peer''), self, [])
      | Some peer \<Rightarrow>
          let chunks = payload_chunks payload
          in case u16_try_from (length chunks) of
               None \<Rightarrow> (Err (PayloadTooLarge (length payload)), self, [])
             | Some frag_count \<Rightarrow>
                 let frame_sequence = next_sequence self
                 in case send_fragments X rnd sent (peer_session peer) frame_sequence timestamp keyframe
                           payload_type frag_count 0 chunks (frame_sequence + 1) of
                      (r, sq, packets) \<Rightarrow>
                        (case r of Inl e \<Rightarrow> Err e | Inr _ \<Rightarrow> Ok (length chunks),
                         self\<lparr>next_sequence := sq\<rparr>, map (\<lambda>p. (p, peer_addr peer)) packets))"

section \<open>The device endpoint\<close>

record ClientEndpoint =
  ce_handshake :: "HandshakeClient option"
  ce_session :: "Session option"
  ce_window :: ReplayWindow

text \<open>\<open>io\<close>: bind, address parse and connect; the outer \<open>None\<close> is the panic of \<^verbatim>\<open>HandshakeClient::new\<close>.\<close>

definition ClientEndpoint_new ::
  "(nat \<Rightarrow> string option) \<Rightarrow> bytes option \<Rightarrow> bytes \<Rightarrow> DeviceIdentity \<Rightarrow> bytes \<Rightarrow> (string + ClientEndpoint) option" where
  "ClientEndpoint_new io rnd device_id identity host_static =
     (case io 0 of
        Some e \<Rightarrow> Some (Err e)
      | None \<Rightarrow> (case io 1 of
          Some e \<Rightarrow> Some (Err e)
        | None \<Rightarrow> (case io 2 of
            Some e \<Rightarrow> Some (Err e)
          | None \<Rightarrow>
             (case HandshakeClient_new rnd device_id identity host_static of
                None \<Rightarrow> None
              | Some hc \<Rightarrow> Some (Ok \<lparr>ce_handshake = Some hc, ce_session = None,
                                     ce_window = ReplayWindow_default\<rparr>)))))"

text \<open>The result, the endpoint and the datagram sent, if any.\<close>

definition send_init ::
  "crypto_ext \<Rightarrow> bytes option \<Rightarrow> bool \<Rightarrow> ClientEndpoint
     \<Rightarrow> ((TransportError + unit) \<times> ClientEndpoint \<times> bytes option) option" where
  "send_init X rnd sent self =
     (case ce_handshake self of
        None \<Rightarrow> Some (Err (Dropped ''handshake already started''), self, None)
      | Some client \<Rightarrow>
         (case HandshakeClient_init X rnd client of
            None \<Rightarrow> None
          | Some (init, client) \<Rightarrow>
             let self = self\<lparr>ce_handshake := Some client\<rparr>
             in if sent then Some (Ok (), self, Some init)
                else Some (Err (Dropped ''send failed''), self, None)))"

definition recv_raw :: "bool \<Rightarrow> bytes option \<Rightarrow> TransportError + bytes" where
  "recv_raw timeout_ok datagram =
     (if \<not> timeout_ok then Err (Dropped ''timeout setup failed'')
      else case datagram of None \<Rightarrow> Err (Dropped ''no datagram'') | Some d \<Rightarrow> Ok (take MAX_DATAGRAM d))"

definition client_complete ::
  "crypto_ext \<Rightarrow> bytes option \<Rightarrow> bool \<Rightarrow> ClientEndpoint \<Rightarrow> bytes
     \<Rightarrow> ((TransportError + Session) \<times> ClientEndpoint \<times> bytes option) option" where
  "client_complete X rnd sent self response =
     (case ce_handshake self of
        None \<Rightarrow> Some (Err (Dropped ''handshake already complete''), self, None)
      | Some client \<Rightarrow>
         (case HandshakeClient_finish X client response of
            None \<Rightarrow> None
          | Some (Inl _, client) \<Rightarrow>
              Some (Err (Dropped ''handshake rejected''), self\<lparr>ce_handshake := Some client\<rparr>, None)
          | Some (Inr session, client) \<Rightarrow>
             (let self = self\<lparr>ce_handshake := Some client\<rparr>
              in case HandshakeClient_confirm X rnd session of
                   None \<Rightarrow> None
                 | Some conf \<Rightarrow>
                     if \<not> sent then Some (Err (Dropped ''send confirm failed''), self, None)
                     else Some (Ok session, self\<lparr>ce_session := Some session\<rparr>, Some conf))))"

definition recv_record ::
  "crypto_ext \<Rightarrow> bool \<Rightarrow> bytes option \<Rightarrow> ClientEndpoint \<Rightarrow> (TransportError + (FrameHeader \<times> bytes)) \<times> ClientEndpoint" where
  "recv_record X timeout_ok datagram self =
     (case ce_session self of
        None \<Rightarrow> (Err (Dropped ''no session''), self)
      | Some session \<Rightarrow>
          if \<not> timeout_ok then (Err (Dropped ''timeout setup failed''), self)
          else case datagram of
                 None \<Rightarrow> (Err (Dropped ''no record''), self)
               | Some d \<Rightarrow>
                  (case open_packet X session HostToDevice (ce_window self) (take MAX_DATAGRAM d) of
                     (r, window) \<Rightarrow> (r, self\<lparr>ce_window := window\<rparr>)))"

section \<open>Bounded, well-formed state\<close>

definition host_inv :: "HostEndpoint \<Rightarrow> bool" where
  "host_inv h \<longleftrightarrow> al_wf (pending h) \<and> al_wf (peers h) \<and> length (pending h) \<le> MAX_PENDING_HANDSHAKES"

lemma length_filter_bound: "length xs \<le> n \<Longrightarrow> length (filter P xs) \<le> n"
  by (rule le_trans [OF length_filter_le])

lemma length_al_remove_bound: "length m \<le> n \<Longrightarrow> length (al_remove k m) \<le> n"
  by (simp add: al_remove_def length_filter_bound)

lemma bind_inv: "HostEndpoint_bind io i = Ok h \<Longrightarrow> host_inv h"
  by (auto simp: HostEndpoint_bind_def host_inv_def split: option.splits)

lemma prune_simps [simp]:
  "peers (prune_pending now h) = peers h" "host_identity (prune_pending now h) = host_identity h"
  "next_sequence (prune_pending now h) = next_sequence h"
  by (simp_all add: prune_pending_def)

lemma pending_prune: "pending (prune_pending now h) = filter (\<lambda>(_, p). pending_live now p) (pending h)"
  by (simp add: prune_pending_def)

lemma set_pending_prune: "set (pending (prune_pending now h)) \<subseteq> set (pending h)"
  by (auto simp: pending_prune)

lemma prune_inv [simp]: "host_inv h \<Longrightarrow> host_inv (prune_pending now h)"
  by (simp add: host_inv_def pending_prune length_filter_bound)

lemma prune_lookup:
  "host_inv h \<Longrightarrow> map_of (pending (prune_pending now h)) a = Some p \<longleftrightarrow>
   map_of (pending h) a = Some p \<and> pending_live now p"
  by (auto simp: pending_prune map_of_filter_wf host_inv_def split: option.splits)

text \<open>The outcomes of \<^verbatim>\<open>handle_init\<close>: nothing but pruning, or one admitted handshake and its reply.\<close>

lemma handle_init_cases:
  assumes "handle_init X er nr now now' h packet from authorized = Some (out, h')"
  obtains (drop) "out = Silent" "h' = prune_pending now h"
  | (admit) body outcome srv where
      "packet = HANDSHAKE_INIT # body" "DEVICE_ID_LEN + 64 \<le> length body"
      "authorized (take DEVICE_ID_LEN body) (slice body DEVICE_ID_LEN (DEVICE_ID_LEN + 32))"
      "map_of (pending (prune_pending now h)) from = None \<Longrightarrow>
         length (pending (prune_pending now h)) < MAX_PENDING_HANDSHAKES
         \<and> count_device (take DEVICE_ID_LEN body) (pending (prune_pending now h)) < MAX_PENDING_HANDSHAKES_PER_DEVICE"
      "accept_init X er nr (HandshakeServer_new (host_identity h)) packet = Some (Ok outcome, srv)"
      "out = Reply (io_response outcome)"
      "h' = (prune_pending now h)\<lparr>pending := al_insert from
              \<lparr>pn_device_id = io_device_id outcome,
               pn_device_static = slice body DEVICE_ID_LEN (DEVICE_ID_LEN + 32),
               pn_session = io_session outcome, pn_created_at = now'\<rparr> (pending (prune_pending now h))\<rparr>"
proof (cases "out = Silent")
  case True
  with assms drop show ?thesis
    by (auto simp: handle_init_def Let_def split: option.splits if_splits sum.splits)
next
  case False
  with assms admit show ?thesis
    by (auto simp: handle_init_def Let_def strip_type_Some not_less not_le
        split: option.splits if_splits sum.splits)
qed

lemma handle_init_inv:
  assumes "host_inv h" and "handle_init X er nr now now' h packet from authorized = Some (out, h')"
  shows "host_inv h'"
  using assms(2)
proof (cases rule: handle_init_cases)
  case drop
  with assms(1) show ?thesis by simp
next
  case (admit body outcome srv)
  have "host_inv (prune_pending now h)" using assms(1) by simp
  with admit(4,7) show ?thesis
    by (auto simp: host_inv_def length_al_insert split: if_splits)
qed

text \<open>The outcomes of \<^verbatim>\<open>handle_confirm\<close>.\<close>

lemma handle_confirm_cases:
  assumes "handle_confirm X now h packet from authorized = (out, h')"
  obtains (none) "out = Silent" "h' = prune_pending now h"
      "map_of (pending (prune_pending now h)) from = None"
  | (denied) pend where "out = Silent" "map_of (pending (prune_pending now h)) from = Some pend"
      "\<not> authorized (pn_device_id pend) (pn_device_static pend)"
      "h' = (prune_pending now h)\<lparr>pending := al_remove from (pending (prune_pending now h)),
              peers := al_remove (pn_device_id pend) (peers h)\<rparr>"
  | (forged) pend where "out = Silent" "map_of (pending (prune_pending now h)) from = Some pend"
      "authorized (pn_device_id pend) (pn_device_static pend)"
      "\<not> is_ok (verify_confirm X (pn_session pend) packet)"
      "h' = (prune_pending now h)\<lparr>pending := al_remove from (pending (prune_pending now h))\<rparr>"
  | (confirmed) pend where "out = Silent" "map_of (pending (prune_pending now h)) from = Some pend"
      "authorized (pn_device_id pend) (pn_device_static pend)"
      "is_ok (verify_confirm X (pn_session pend) packet)"
      "h' = (prune_pending now h)\<lparr>pending := al_remove from (pending (prune_pending now h)),
              peers := al_insert (pn_device_id pend)
                \<lparr>peer_addr = from, peer_session = pn_session pend, peer_window = ReplayWindow_default\<rparr> (peers h)\<rparr>"
  using assms by (simp add: handle_confirm_def Let_def split: option.splits if_splits)

lemma handle_confirm_inv:
  assumes "host_inv h" and "handle_confirm X now h packet from authorized = (out, h')"
  shows "host_inv h'"
proof -
  have p: "host_inv (prune_pending now h)" using assms(1) by simp
  then have "length (al_remove from (pending (prune_pending now h))) \<le> MAX_PENDING_HANDSHAKES"
    by (simp add: host_inv_def length_al_remove_bound)
  with p show ?thesis using assms(2)
    by (elim handle_confirm_cases) (simp_all add: host_inv_def)
qed

lemma find_peer_lookup:
  assumes "al_wf m" and "find P m = Some (k, v)"
  shows "map_of m k = Some v"
  using assms by (auto simp: al_get_iff find_Some_iff)

lemma handle_data_cases:
  assumes "host_inv h"
  obtains "handle_data X h packet from = h"
  | device_id peer r w where "map_of (peers h) device_id = Some peer" "peer_addr peer = from"
      "open_packet X (peer_session peer) DeviceToHost (peer_window peer) packet = (r, w)"
      "handle_data X h packet from = h\<lparr>peers := al_insert device_id (peer\<lparr>peer_window := w\<rparr>) (peers h)\<rparr>"
proof (cases "find (\<lambda>(_, p). peer_addr p = from) (peers h)")
  case None
  with that(1) show ?thesis by (simp add: handle_data_def)
next
  case (Some dp)
  obtain d p where dp: "dp = (d, p)" by (cases dp)
  have "map_of (peers h) d = Some p" using assms Some dp find_peer_lookup by (auto simp: host_inv_def)
  moreover have "peer_addr p = from" using Some dp by (auto simp: find_Some_iff)
  moreover obtain r w where "open_packet X (peer_session p) DeviceToHost (peer_window p) packet = (r, w)"
    by (cases "open_packet X (peer_session p) DeviceToHost (peer_window p) packet")
  ultimately show ?thesis using that(2) Some dp by (simp add: handle_data_def)
qed

lemma handle_data_inv: "host_inv h \<Longrightarrow> host_inv (handle_data X h packet from)"
  by (rule handle_data_cases [of h X packet "from"]) (auto simp: host_inv_def)

lemma handle_packet_inv:
  assumes "host_inv h" and "handle_packet X er nr clk h packet from authorized = Some (out, h')"
  shows "host_inv h'"
proof -
  have p: "host_inv (prune_pending (clk 0) h)" using assms(1) by simp
  show ?thesis
    using assms(2) handle_init_inv [OF p] handle_confirm_inv [OF p] handle_data_inv [OF p] p
    by (auto simp: handle_packet_def Let_def split: list.splits if_splits prod.splits)
qed

lemma disconnect_inv: "host_inv h \<Longrightarrow> host_inv (snd (disconnect d h))"
  by (simp add: disconnect_def Let_def host_inv_def length_filter_bound)

section \<open>Runs of the endpoint\<close>

datatype host_event =
    HostPacket "bytes option" "bytes option" "nat \<Rightarrow> nat" bytes socket_addr authorizer
  | HostPrune nat
  | HostDisconnect bytes
  | HostSend "nat \<Rightarrow> bytes option" "nat \<Rightarrow> bool" bytes u32 bool u8 bytes

text \<open>A panic stops the thread; the state it leaves is the last one.\<close>

fun host_step :: "crypto_ext \<Rightarrow> HostEndpoint \<Rightarrow> host_event \<Rightarrow> HostEndpoint" where
  "host_step X h (HostPacket er nr clk packet from authorized) =
     (case handle_packet X er nr clk h packet from authorized of None \<Rightarrow> h | Some (_, h') \<Rightarrow> h')"
| "host_step X h (HostPrune now) = prune_pending now h"
| "host_step X h (HostDisconnect d) = snd (disconnect d h)"
| "host_step X h (HostSend rnd sent d ts key pt payload) = fst (snd (send_frame X rnd sent h d ts key pt payload))"

lemma send_frame_state:
  "\<exists>sq. fst (snd (send_frame X rnd sent h d ts key pt payload)) = h\<lparr>next_sequence := sq\<rparr>"
proof -
  have "\<exists>sq. h = h\<lparr>next_sequence := sq\<rparr>" by (rule exI [of _ "next_sequence h"]) simp
  then show ?thesis
    by (auto simp: send_frame_def Let_def split: option.splits prod.splits)
qed

lemma host_step_inv: "host_inv h \<Longrightarrow> host_inv (host_step X h e)"
proof (cases e)
  case (HostPacket er nr clk packet "from" authorized)
  assume "host_inv h"
  with HostPacket show ?thesis
    using handle_packet_inv [of h X er nr clk packet "from" authorized] by (auto split: option.splits prod.splits)
next
  case (HostSend rnd sent d ts key pt payload)
  assume "host_inv h"
  with HostSend show ?thesis
    using send_frame_state [of X rnd sent h d ts key pt payload] by (auto simp: host_inv_def)
qed (simp_all add: disconnect_inv)

interpretation host_run: invariant_machine "host_step X" host_inv for X
  by unfold_locales (rule host_step_inv)

section \<open>Default deny\<close>

lemma accept_init_device_id:
  assumes "accept_init X er nr srv (HANDSHAKE_INIT # body) = Some (Ok out, srv')"
  shows "io_device_id out = take DEVICE_ID_LEN body"
  using assms
  by (auto simp: accept_init_def host_response_def Let_def split: if_splits option.splits sum.splits)

text \<open>A device with neither a session nor a handshake in flight.\<close>

definition absent :: "bytes \<Rightarrow> HostEndpoint \<Rightarrow> bool" where
  "absent d h \<longleftrightarrow> map_of (peers h) d = None \<and> (\<forall>(a, p) \<in> set (pending h). pn_device_id p \<noteq> d)"

lemma absent_prune [simp]: "absent d h \<Longrightarrow> absent d (prune_pending now h)"
  unfolding absent_def using set_pending_prune by fastforce

lemma absent_disconnect: "absent d (snd (disconnect d h))"
  by (auto simp: absent_def disconnect_def Let_def)

lemma handle_init_absent:
  assumes "absent d h" and "\<And>s. \<not> authorized d s"
    and "handle_init X er nr now now' h packet from authorized = Some (out, h')"
  shows "absent d h'"
  using assms(3)
proof (cases rule: handle_init_cases)
  case drop
  with assms(1) show ?thesis by simp
next
  case (admit body outcome srv)
  have "io_device_id outcome \<noteq> d"
    using accept_init_device_id admit(1,3,5) assms(2) by metis
  with absent_prune [OF assms(1), of now] admit(7) show ?thesis
    using set_al_insert [of "from" _ "pending (prune_pending now h)"] by (fastforce simp: absent_def)
qed

lemma handle_confirm_absent:
  assumes "absent d h" and "handle_confirm X now h packet from authorized = (out, h')"
  shows "absent d h'"
proof -
  have p: "absent d (prune_pending now h)" using assms(1) by simp
  then have "absent d ((prune_pending now h)\<lparr>pending := al_remove from (pending (prune_pending now h))\<rparr>)"
    by (auto simp: absent_def al_remove_def)
  moreover have "map_of (pending (prune_pending now h)) from = Some pend \<Longrightarrow> pn_device_id pend \<noteq> d" for pend
    using p by (auto simp: absent_def dest: map_of_SomeD)
  ultimately show ?thesis using assms(2) p
    by (elim handle_confirm_cases) (auto simp: absent_def)
qed

lemma handle_data_absent: "host_inv h \<Longrightarrow> absent d h \<Longrightarrow> absent d (handle_data X h packet from)"
  by (rule handle_data_cases [of h X packet "from"]) (auto simp: absent_def)

lemma handle_packet_absent:
  assumes "host_inv h" and "absent d h" and "\<And>s. \<not> authorized d s"
    and "handle_packet X er nr clk h packet from authorized = Some (out, h')"
  shows "absent d h'"
proof -
  have p: "absent d (prune_pending (clk 0) h)" "host_inv (prune_pending (clk 0) h)"
    using assms(1,2) by simp_all
  show ?thesis
    using assms(4) handle_init_absent [OF p(1), of authorized] assms(3) handle_confirm_absent [OF p(1)]
      handle_data_absent [OF p(2,1)] p(1)
    by (auto simp: handle_packet_def Let_def split: list.splits if_splits prod.splits)
qed

text \<open>Events during which the device \<open>d\<close> is never authorized.\<close>

fun denies :: "bytes \<Rightarrow> host_event \<Rightarrow> bool" where
  "denies d (HostPacket _ _ _ _ _ authorized) \<longleftrightarrow> (\<forall>s. \<not> authorized d s)"
| "denies d _ \<longleftrightarrow> True"

lemma host_step_absent:
  assumes "host_inv h" and "absent d h" and "denies d e"
  shows "absent d (host_step X h e)"
proof (cases e)
  case (HostPacket er nr clk packet "from" authorized)
  with assms show ?thesis
    using handle_packet_absent [of h d authorized X er nr clk packet "from"] by (auto split: option.splits prod.splits)
next
  case (HostDisconnect d')
  with assms(2) show ?thesis by (auto simp: absent_def disconnect_def Let_def)
next
  case (HostSend rnd sent d' ts key pt payload)
  with assms(2) show ?thesis
    using send_frame_state [of X rnd sent h d' ts key pt payload] by (auto simp: absent_def)
qed (use assms in simp)

lemma run_absent:
  assumes "host_inv h" and "absent d h" and "\<forall>e \<in> set es. denies d e"
  shows "absent d (foldl (host_step X) h es)"
  using assms by (induction es arbitrary: h) (auto intro: host_step_inv host_step_absent)

text \<open>
  What the endpoint relies on in the trust store behind its authorizer: a device the store bars is denied.  A barred device
  that has neither a session nor a handshake gets none from any packet.
\<close>

locale trust_store =
  fixes auth :: "'db \<Rightarrow> authorizer"
    and barred :: "bytes \<Rightarrow> 'db \<Rightarrow> bool"
    and valid :: "'db \<Rightarrow> bool"
  assumes barred_denied: "valid db \<Longrightarrow> barred d db \<Longrightarrow> \<not> auth db d key"
begin

lemma packet_denied: "valid db \<Longrightarrow> barred d db \<Longrightarrow> denies d (HostPacket er nr clk packet from (auth db))"
  using barred_denied by simp

lemma packet_keeps_out:
  assumes "valid db" and "barred d db" and "host_inv h" and "absent d h"
  shows "absent d (host_step X h (HostPacket er nr clk packet from (auth db)))"
  using host_step_absent [OF assms(3,4) packet_denied [OF assms(1,2)]] .

end

text \<open>Where a reply comes from, and where a peer comes from.\<close>

lemma reply_provenance:
  assumes "handle_packet X er nr clk h packet from authorized = Some (Reply bs, h')"
  shows "\<exists>body outcome srv. packet = HANDSHAKE_INIT # body
     \<and> authorized (take DEVICE_ID_LEN body) (slice body DEVICE_ID_LEN (DEVICE_ID_LEN + 32))
     \<and> accept_init X er nr (HandshakeServer_new (host_identity h)) packet = Some (Ok outcome, srv)
     \<and> bs = io_response outcome"
proof -
  from assms have "handle_init X er nr (clk 1) (clk 2) (prune_pending (clk 0) h) packet from authorized
      = Some (Reply bs, h')"
    by (auto simp: handle_packet_def Let_def handle_confirm_def split: list.splits if_splits option.splits)
  then show ?thesis by (cases rule: handle_init_cases) auto
qed

lemma peer_provenance:
  assumes inv: "host_inv h" and h': "handle_packet X er nr clk h packet from authorized = Some (out, h')"
    and peer: "map_of (peers h') d = Some peer"
  shows "(\<exists>old. map_of (peers h) d = Some old \<and> peer_addr old = peer_addr peer \<and> peer_session old = peer_session peer)
     \<or> (\<exists>pend. map_of (pending h) from = Some pend \<and> pn_device_id pend = d
          \<and> pending_live (clk 0) pend \<and> pending_live (clk 1) pend
          \<and> authorized d (pn_device_static pend) \<and> verify_confirm X (pn_session pend) packet = Ok ()
          \<and> peer = \<lparr>peer_addr = from, peer_session = pn_session pend, peer_window = ReplayWindow_default\<rparr>)"
proof (cases "out = Silent \<and> handle_confirm X (clk 1) (prune_pending (clk 0) h) packet from authorized = (out, h')")
  case True
  have p: "host_inv (prune_pending (clk 0) h)" using inv by simp
  from True have "handle_confirm X (clk 1) (prune_pending (clk 0) h) packet from authorized = (out, h')" by simp
  then show ?thesis
  proof (cases rule: handle_confirm_cases)
    case (confirmed pend)
    then have "map_of (pending h) from = Some pend" "pending_live (clk 0) pend" "pending_live (clk 1) pend"
      using prune_lookup [OF p] prune_lookup [OF inv] by auto
    with confirmed peer show ?thesis by (auto elim!: is_okE split: if_splits)
  qed (use peer in \<open>auto split: if_splits\<close>)
next
  case False
  have "host_inv (prune_pending (clk 0) h)" using inv by simp
  then have "map_of (peers (handle_data X (prune_pending (clk 0) h) packet from)) d = Some peer \<Longrightarrow> ?thesis"
    by (rule handle_data_cases [of _ X packet "from"]) (auto split: if_splits)
  moreover have "handle_init X er nr (clk 1) (clk 2) (prune_pending (clk 0) h) packet from authorized = Some (out, h')
      \<Longrightarrow> ?thesis"
    by (erule handle_init_cases) (use peer in auto)
  ultimately show ?thesis using False h' peer
    by (auto simp: handle_packet_def Let_def handle_confirm_def split: list.splits if_splits option.splits)
qed

section \<open>A frame from the host to the device\<close>

text \<open>The device end of the stream: every datagram is received and fed to the reassembler.\<close>

fun receive_all ::
  "crypto_ext \<Rightarrow> ClientEndpoint \<Rightarrow> Reassembler \<Rightarrow> bytes list \<Rightarrow> (bytes list \<times> ClientEndpoint \<times> Reassembler) option" where
  "receive_all X c r [] = Some ([], c, r)"
| "receive_all X c r (d # ds) =
     (case recv_record X True (Some d) c of
        (Inl _, c) \<Rightarrow> receive_all X c r ds
      | (Inr (h, p), c) \<Rightarrow>
         (case Reassembler_push r h p of
            None \<Rightarrow> None
          | Some (out, r) \<Rightarrow>
             (case receive_all X c r ds of
                None \<Rightarrow> None
              | Some (frames, c, r) \<Rightarrow> Some ((case out of None \<Rightarrow> [] | Some f \<Rightarrow> [f]) @ frames, c, r))))"

text \<open>The fragments of a frame as \<^verbatim>\<open>send_frame\<close> seals them, from fragment \<open>index\<close> and sequence \<open>sq\<close> on.\<close>

definition sealed_as ::
  "crypto_ext \<Rightarrow> Session \<Rightarrow> u32 \<Rightarrow> u32 \<Rightarrow> bool \<Rightarrow> u8 \<Rightarrow> u16 \<Rightarrow> nat \<Rightarrow> u32 \<Rightarrow> bytes list \<Rightarrow> bytes list \<Rightarrow> bool" where
  "sealed_as X s fq ts key pt n index sq cs packets \<longleftrightarrow>
     length packets = length cs \<and>
     (\<forall>i < length cs. \<exists>rnd rec.
        build_record (sq + of_nat i) fq ts key pt (cs ! i) (of_nat (index + i)) n = Ok rec
        \<and> seal_packet X s HostToDevice (sq + of_nat i) rnd rec = Ok (packets ! i))"

lemma sealed_as_Cons:
  assumes "build_record sq fq ts key pt c (of_nat index) n = Ok rec"
    and "seal_packet X s HostToDevice sq rnd rec = Ok p"
    and "sealed_as X s fq ts key pt n (Suc index) (sq + 1) cs packets"
  shows "sealed_as X s fq ts key pt n index sq (c # cs) (p # packets)"
  unfolding sealed_as_def
proof (intro conjI allI impI)
  show "length (p # packets) = length (c # cs)" using assms(3) by (simp add: sealed_as_def)
next
  fix i
  assume i: "i < length (c # cs)"
  show "\<exists>rnd rec. build_record (sq + of_nat i) fq ts key pt ((c # cs) ! i) (of_nat (index + i)) n = Ok rec
      \<and> seal_packet X s HostToDevice (sq + of_nat i) rnd rec = Ok ((p # packets) ! i)"
  proof (cases i)
    case 0
    with assms(1,2) show ?thesis by auto
  next
    case (Suc j)
    with assms(3) i show ?thesis by (auto simp: sealed_as_def add.assoc)
  qed
qed

lemma send_fragments_ok:
  assumes "aead_total X" and "wf_session s" and "\<And>i. rnd i \<noteq> None" and "\<And>i. sent i"
    and "\<And>c. c \<in> set cs \<Longrightarrow> length c \<le> RECORD_MTU - FRAME_HEADER_LEN"
  shows "\<exists>packets. send_fragments X rnd sent s fq ts key pt n index cs sq = (Ok (), sq + of_nat (length cs), packets)
           \<and> sealed_as X s fq ts key pt n index sq cs packets"
  using assms(5)
proof (induction cs arbitrary: index sq)
  case Nil
  then show ?case by (simp add: sealed_as_def)
next
  case (Cons c cs)
  have c: "length c \<le> RECORD_MTU - FRAME_HEADER_LEN" using Cons.prems by simp
  then obtain rec where rec: "build_record sq fq ts key pt c (of_nat index) n = Ok rec"
    and "length rec = FRAME_HEADER_LEN + length c"
    by (simp add: build_record_eq u16_max_def RECORD_MTU_def FRAME_HEADER_LEN_def)
  with c have "length rec \<le> 2 * u16_max" by (simp add: u16_max_def RECORD_MTU_def FRAME_HEADER_LEN_def)
  with assms(3) obtain p where p: "seal_packet X s HostToDevice sq (rnd index) rec = Ok p"
    using seal_packet_total [OF assms(1,2)] by (metis option.exhaust)
  from Cons.IH [of "Suc index" "sq + 1"] Cons.prems obtain packets where
    "send_fragments X rnd sent s fq ts key pt n (Suc index) cs (sq + 1) = (Ok (), sq + 1 + of_nat (length cs), packets)"
    and tail: "sealed_as X s fq ts key pt n (Suc index) (sq + 1) cs packets" by auto
  with rec p assms(4) [of index] sealed_as_Cons [OF rec p tail] show ?case by (simp add: add.assoc)
qed

lemma sealed_as_tail:
  assumes "sealed_as X s fq ts key pt n index sq (c # cs) (p # packets)"
  shows "sealed_as X s fq ts key pt n (Suc index) (sq + 1) cs packets"
  unfolding sealed_as_def
proof (intro conjI allI impI)
  show "length packets = length cs" using assms by (simp add: sealed_as_def)
  fix i assume "i < length cs"
  then have "Suc i < length (c # cs)" by simp
  with assms have "\<exists>rnd rec. build_record (sq + of_nat (Suc i)) fq ts key pt ((c # cs) ! Suc i) (of_nat (index + Suc i)) n = Ok rec
      \<and> seal_packet X s HostToDevice (sq + of_nat (Suc i)) rnd rec = Ok ((p # packets) ! Suc i)"
    unfolding sealed_as_def by blast
  then show "\<exists>rnd rec. build_record (sq + 1 + of_nat i) fq ts key pt (cs ! i) (of_nat (Suc index + i)) n = Ok rec
      \<and> seal_packet X s HostToDevice (sq + 1 + of_nat i) rnd rec = Ok (packets ! i)"
    by (simp add: add.assoc)
qed

lemma sealed_as_head:
  assumes "sealed_as X s fq ts key pt n index sq (c # cs) (p # packets)"
  obtains rnd rec where "build_record sq fq ts key pt c (of_nat index) n = Ok rec"
    "seal_packet X s HostToDevice sq rnd rec = Ok p"
  using assms unfolding sealed_as_def by fastforce

text \<open>A window whose head is behind \<open>sq\<close> takes \<open>sq\<close>, and then has it as its head.\<close>

definition ahead :: "ReplayWindow \<Rightarrow> u32 \<Rightarrow> bool" where
  "ahead w sq \<longleftrightarrow> (case highest w of None \<Rightarrow> True | Some h \<Rightarrow> sq - h \<noteq> 0 \<and> sq - h < 0x80000000)"

lemma ahead_check: "ahead w sq \<Longrightarrow> ReplayWindow_check w sq"
  by (auto simp: ahead_def ReplayWindow_check_def Let_def split: option.splits)

lemma ahead_commit: "ahead w sq \<Longrightarrow> highest (snd (ReplayWindow_commit w sq)) = Some sq"
  using ahead_check by (auto simp: ahead_def ReplayWindow_commit_def Let_def split: option.splits)

lemma ahead_next: "ahead w sq \<Longrightarrow> ahead (snd (ReplayWindow_commit w sq)) (sq + 1)"
  by (simp add: ahead_def [of "snd _"] ahead_commit)

lemma recv_record_sealed:
  assumes "aead_correct X" and "aead_len X" and "ce_session c = Some s" and "ahead (ce_window c) sq"
    and "build_record sq fq ts key pt chunk i n = Ok rec" and "i < n"
    and "seal_packet X s HostToDevice sq rnd rec = Ok d"
    and "length chunk \<le> RECORD_MTU - FRAME_HEADER_LEN"
  shows "recv_record X True (Some d) c =
     (Ok (record_header sq fq ts key pt chunk i n, chunk),
      c\<lparr>ce_window := snd (ReplayWindow_commit (ce_window c) sq)\<rparr>)"
proof -
  let ?h = "record_header sq fq ts key pt chunk i n"
  have "length rec = FRAME_HEADER_LEN + length chunk"
    using assms(5) by (auto simp: build_record_eq split: if_splits)
  with assms(8) seal_packet_length [OF assms(2,7)] have "length d \<le> MAX_DATAGRAM"
    by (simp add: MAX_DATAGRAM_def RECORD_MTU_def FRAME_HEADER_LEN_def)
  moreover have "open_packet X s HostToDevice (ce_window c) d
      = (Ok (?h, chunk), snd (ReplayWindow_commit (ce_window c) sq))"
    using open_packet_seal_packet [OF assms(1), of s HostToDevice ?h rnd rec d]
      parse_record_build_record [OF assms(5,6)] ahead_check [OF assms(4)] assms(7) by simp
  ultimately show ?thesis using assms(3) by (simp add: recv_record_def)
qed

text \<open>Received in order, the packets are exactly the fragments the reassembler is fed.\<close>

definition fed_fragments :: "u32 \<Rightarrow> u32 \<Rightarrow> bool \<Rightarrow> u8 \<Rightarrow> u16 \<Rightarrow> nat \<Rightarrow> u32 \<Rightarrow> bytes list \<Rightarrow> (FrameHeader \<times> bytes) list" where
  "fed_fragments fq ts key pt n index sq cs =
     map (\<lambda>i. (record_header (sq + of_nat i) fq ts key pt (cs ! i) (of_nat (index + i)) n, cs ! i)) [0..<length cs]"

lemma fed_fragments_simps [simp]:
  "fed_fragments fq ts key pt n index sq [] = []"
  "fed_fragments fq ts key pt n index sq (c # cs) =
     (record_header sq fq ts key pt c (of_nat index) n, c) # fed_fragments fq ts key pt n (Suc index) (sq + 1) cs"
proof -
  show "fed_fragments fq ts key pt n index sq (c # cs) =
     (record_header sq fq ts key pt c (of_nat index) n, c) # fed_fragments fq ts key pt n (Suc index) (sq + 1) cs"
    unfolding fed_fragments_def length_Cons map_upt_Suc by (simp add: add.assoc)
qed (simp add: fed_fragments_def)

lemma receive_all_sealed:
  assumes "aead_correct X" and "aead_len X" and "ce_session c = Some s" and "ahead (ce_window c) sq"
    and "sealed_as X s fq ts key pt n index sq cs packets" and "index + length cs \<le> unat n"
    and "\<And>x. x \<in> set cs \<Longrightarrow> length x \<le> RECORD_MTU - FRAME_HEADER_LEN"
  shows "\<exists>c'. receive_all X c r packets =
      map_option (\<lambda>(fs, r). (fs, c', r)) (reassemble_all r (fed_fragments fq ts key pt n index sq cs))
      \<and> ce_session c' = Some s \<and> ahead (ce_window c') (sq + of_nat (length cs))"
  using assms(3-)
proof (induction cs arbitrary: c index sq packets r)
  case Nil
  then show ?case by (auto simp: sealed_as_def)
next
  case (Cons x cs)
  from Cons.prems(3) obtain d ds where packets: "packets = d # ds" by (cases packets) (auto simp: sealed_as_def)
  note sealed = Cons.prems(3) [unfolded packets]
  obtain rnd rec where rec: "build_record sq fq ts key pt x (of_nat index) n = Ok rec"
    "seal_packet X s HostToDevice sq rnd rec = Ok d" using sealed_as_head [OF sealed] .
  have idx: "(of_nat index :: u16) < n"
    using Cons.prems(4) unat_u16_le [of n] by (simp add: word_less_nat_alt)
  let ?c = "c\<lparr>ce_window := snd (ReplayWindow_commit (ce_window c) sq)\<rparr>"
  have recv: "recv_record X True (Some d) c = (Ok (record_header sq fq ts key pt x (of_nat index) n, x), ?c)"
    using recv_record_sealed [OF assms(1,2) Cons.prems(1,2) rec(1) idx rec(2)] Cons.prems(5) by simp
  have IH: "\<exists>c'. receive_all X ?c r ds =
      map_option (\<lambda>(fs, r). (fs, c', r)) (reassemble_all r (fed_fragments fq ts key pt n (Suc index) (sq + 1) cs))
      \<and> ce_session c' = Some s \<and> ahead (ce_window c') (sq + 1 + of_nat (length cs))" for r
    by (rule Cons.IH) (use Cons.prems ahead_next sealed_as_tail [OF sealed] in simp_all)
  let ?h = "record_header sq fq ts key pt x (of_nat index) n"
  show ?case
  proof (cases "Reassembler_push r ?h x")
    case None
    with recv IH [of r] show ?thesis by (auto simp: packets add.assoc)
  next
    case (Some out)
    obtain o1 r1 where out: "out = (o1, r1)" by (cases out)
    from IH [of r1] obtain c' where c': "receive_all X ?c r1 ds =
      map_option (\<lambda>(fs, r). (fs, c', r)) (reassemble_all r1 (fed_fragments fq ts key pt n (Suc index) (sq + 1) cs))"
      "ce_session c' = Some s" "ahead (ce_window c') (sq + 1 + of_nat (length cs))" by blast
    with Some recv out show ?thesis
      by (intro exI [of _ c'])
        (cases "reassemble_all r1 (fed_fragments fq ts key pt n (Suc index) (sq + 1) cs)",
          auto simp: packets add.assoc split: prod.splits)
  qed
qed

text \<open>The fragments of a whole frame, fed in order, give the frame.\<close>

lemma fed_frame:
  assumes "n = of_nat (length cs)" and "cs \<noteq> []" and "length cs \<le> u16_max"
    and "\<forall>p. ra_current r = Some p \<longrightarrow> pf_frame_sequence p \<noteq> fq"
  shows "\<exists>r'. reassemble_all r (fed_fragments fq ts key pt n 0 sq cs) = Some ([concat cs], r') \<and> ra_current r' = None"
proof (cases "length cs = 1")
  case True
  then obtain x where "cs = [x]" by (cases cs) auto
  with assms(1) show ?thesis by (simp add: Reassembler_push_def)
next
  case False
  with assms(2) have two: "2 \<le> length cs" by (cases cs) (auto simp: Suc_le_eq)
  then obtain m where m: "length cs = Suc m" by (cases cs) auto
  have "fed_fragments fq ts key pt n 0 sq cs = map (fragment (\<lambda>i. sq + of_nat i) fq ts key pt cs) ([0..<m] @ [m])"
    by (simp add: fed_fragments_def fragment_def assms(1) m)
  moreover have "set [0..<m] \<subseteq> {..<length cs}" "m \<notin> set [0..<m]" "insert m (set [0..<m]) = {..<length cs}"
    by (auto simp: m)
  ultimately show ?thesis
    using reassemble_complete [OF two assms(3,4)] by metis
qed

lemma frame_delivered:
  assumes laws: "aead_correct X" "aead_len X" "aead_total X"
    and peer: "map_of (peers h) d = Some peer" "wf_session (peer_session peer)"
    and env: "\<And>i. rnd i \<noteq> None" "\<And>i. sent i"
    and size: "length (payload_chunks payload) \<le> u16_max"
    and c: "ce_session c = Some (peer_session peer)" "ahead (ce_window c) (next_sequence h + 1)"
    and r: "\<forall>p. ra_current r = Some p \<longrightarrow> pf_frame_sequence p \<noteq> next_sequence h"
  shows "\<exists>packets c' r'.
     send_frame X rnd sent h d ts key pt payload =
       (Ok (length (payload_chunks payload)),
        h\<lparr>next_sequence := next_sequence h + 1 + of_nat (length (payload_chunks payload))\<rparr>,
        map (\<lambda>p. (p, peer_addr peer)) packets)
     \<and> receive_all X c r packets = Some ([payload], c', r') \<and> ra_current r' = None
     \<and> ce_session c' = ce_session c
     \<and> ahead (ce_window c') (next_sequence h + 1 + of_nat (length (payload_chunks payload)))"
proof -
  let ?cs = "payload_chunks payload" and ?q = "next_sequence h"
  let ?n = "of_nat (length ?cs) :: u16"
  obtain packets where snt: "send_fragments X rnd sent (peer_session peer) ?q ts key pt ?n 0 ?cs (?q + 1)
      = (Ok (), ?q + 1 + of_nat (length ?cs), packets)"
    and sealed: "sealed_as X (peer_session peer) ?q ts key pt ?n 0 (?q + 1) ?cs packets"
    using send_fragments_ok [where rnd = rnd and sent = sent and cs = ?cs, OF laws(3) peer(2) env]
      payload_chunk_length by blast
  have "send_frame X rnd sent h d ts key pt payload =
      (Ok (length ?cs), h\<lparr>next_sequence := ?q + 1 + of_nat (length ?cs)\<rparr>, map (\<lambda>p. (p, peer_addr peer)) packets)"
    using peer(1) size snt by (simp add: send_frame_def u16_try_from_def Let_def)
  moreover have "0 + length ?cs \<le> unat ?n" using size by simp
  then obtain c' where "receive_all X c r packets =
      map_option (\<lambda>(fs, r). (fs, c', r)) (reassemble_all r (fed_fragments ?q ts key pt ?n 0 (?q + 1) ?cs))"
    "ce_session c' = Some (peer_session peer)" "ahead (ce_window c') (?q + 1 + of_nat (length ?cs))"
    using receive_all_sealed [OF laws(1,2) c sealed] payload_chunk_length by blast
  moreover obtain r' where "reassemble_all r (fed_fragments ?q ts key pt ?n 0 (?q + 1) ?cs) = Some ([payload], r')"
    "ra_current r' = None"
    using fed_frame [OF refl _ size r] by fastforce
  ultimately show ?thesis using c(1) by auto
qed

section \<open>Properties\<close>

text \<open>
  C11 Bounded handshake state: starting from a freshly bound endpoint, no sequence of datagrams,
  prunes, disconnects and sends ever makes the endpoint hold more than 64 pending handshakes, and
  both tables keep one entry per key.
\<close>

theorem pending_bounded:
  assumes "HostEndpoint_bind io identity = Ok h"
  shows "length (pending (foldl (host_step X) h es)) \<le> MAX_PENDING_HANDSHAKES
         \<and> al_wf (pending (foldl (host_step X) h es)) \<and> al_wf (peers (foldl (host_step X) h es))"
  using host_run.run_inv [OF bind_inv [OF assms], of X es] by (simp add: host_inv_def)

definition sample_host :: HostEndpoint where
  "sample_host = \<lparr>host_identity = \<lparr>secret = [5]\<rparr>, pending = [], peers = [], next_sequence = 0\<rparr>"

lemma sample_bind: "HostEndpoint_bind (\<lambda>_. None) \<lparr>secret = [5]\<rparr> = Ok sample_host"
  by (simp add: HostEndpoint_bind_def sample_host_def)

theorem pending_bounded_witness:
  "length (pending (foldl (host_step sample_crypto) sample_host
     [HostPacket (Some [9]) (Some []) (\<lambda>_. 0) sample_init (SocketAddr [127, 0, 0, 1] 4000) (\<lambda>_ _. True)]))
     \<le> MAX_PENDING_HANDSHAKES"
  using pending_bounded [OF sample_bind] by blast

text \<open>
  C14 Default deny: the host sends a reply only to an init whose device id and static key the
  authorizer approved in that very call, and only the reply of an accepted handshake; everything else
  is met with silence.
\<close>

theorem reply_only_when_authorized:
  assumes "handle_packet X er nr clk h packet from authorized = Some (Reply bs, h')"
  shows "\<exists>body outcome srv. packet = HANDSHAKE_INIT # body
     \<and> authorized (take DEVICE_ID_LEN body) (slice body DEVICE_ID_LEN (DEVICE_ID_LEN + 32))
     \<and> accept_init X er nr (HandshakeServer_new (host_identity h)) packet = Some (Ok outcome, srv)
     \<and> bs = io_response outcome"
  using assms by (rule reply_provenance)

definition sample_addr :: socket_addr where
  "sample_addr = SocketAddr [127, 0, 0, 1] 4000"

definition sample_pending_host :: HostEndpoint where
  "sample_pending_host = sample_host\<lparr>pending := [(sample_addr, \<lparr>pn_device_id = [1, 2, 3, 4, 5, 6, 7, 8],
     pn_device_static = pad32 [3], pn_session = io_session sample_outcome, pn_created_at = 2\<rparr>)]\<rparr>"

lemma sample_reply:
  "handle_packet sample_crypto (Some [9]) (Some []) (\<lambda>k. k) sample_host sample_init sample_addr (\<lambda>_ _. True)
     = Some (Reply (io_response sample_outcome), sample_pending_host)"
proof -
  obtain rest where init: "sample_init = HANDSHAKE_INIT # [1, 2, 3, 4, 5, 6, 7, 8] @ pad32 [3] @ pad32 [7] @ rest"
    using sample_init_shape by blast
  obtain srv where "accept_init sample_crypto (Some [9]) (Some []) (HandshakeServer_new \<lparr>secret = [5]\<rparr>) sample_init = Some (Ok sample_outcome, srv)"
    using sample_accept by blast
  then show ?thesis unfolding init
    by (simp add: handle_packet_def handle_init_def sample_host_def sample_pending_host_def prune_pending_def sample_outcome_id
        slice_def DEVICE_ID_LEN_def MAX_PENDING_HANDSHAKES_def MAX_PENDING_HANDSHAKES_PER_DEVICE_def count_device_def Let_def)
qed

theorem reply_only_when_authorized_witness:
  "\<exists>body. sample_init = HANDSHAKE_INIT # body"
  using reply_only_when_authorized [OF sample_reply] by blast

text \<open>
  C7 Where sessions come from: a peer present after a datagram either was there before with the same
  session and address, or its handshake was pending for that source, is less than ten seconds old, is
  authorized at the moment of the confirm, and the confirm verifies under its session; it then starts
  with an empty replay window.
\<close>

theorem peer_only_by_confirm:
  assumes "host_inv h" and "handle_packet X er nr clk h packet from authorized = Some (out, h')"
    and "map_of (peers h') d = Some peer"
  shows "(\<exists>old. map_of (peers h) d = Some old \<and> peer_addr old = peer_addr peer \<and> peer_session old = peer_session peer)
     \<or> (\<exists>pend. map_of (pending h) from = Some pend \<and> pn_device_id pend = d
          \<and> pending_live (clk 0) pend \<and> pending_live (clk 1) pend
          \<and> authorized d (pn_device_static pend) \<and> verify_confirm X (pn_session pend) packet = Ok ()
          \<and> peer = \<lparr>peer_addr = from, peer_session = pn_session pend, peer_window = ReplayWindow_default\<rparr>)"
  using assms by (rule peer_provenance)

definition sample_confirm :: bytes where
  "sample_confirm = the (HandshakeClient_confirm sample_crypto (Some []) (io_session sample_outcome))"

definition sample_peer_host :: HostEndpoint where
  "sample_peer_host = sample_host\<lparr>peers := [([1, 2, 3, 4, 5, 6, 7, 8],
     \<lparr>peer_addr = sample_addr, peer_session = io_session sample_outcome, peer_window = ReplayWindow_default\<rparr>)]\<rparr>"

lemma sample_confirmed:
  "handle_packet sample_crypto None None (\<lambda>k. k + 3) sample_pending_host sample_confirm sample_addr (\<lambda>_ _. True)
     = Some (Silent, sample_peer_host)"
proof -
  have ok: "verify_confirm sample_crypto (io_session sample_outcome) sample_confirm = Ok ()"
    using sample_confirms by (auto simp: sample_confirm_def)
  obtain rest where conf: "sample_confirm = HANDSHAKE_CONFIRM # rest"
    using sample_confirms by (auto simp: sample_confirm_def HandshakeClient_confirm_def split: sum.splits option.splits)
  show ?thesis using ok unfolding conf
    by (simp add: handle_packet_def handle_confirm_def sample_pending_host_def sample_host_def
        sample_peer_host_def prune_pending_def pending_live_def PENDING_HANDSHAKE_TTL_def packet_types
        al_remove_def Let_def)
qed

lemma sample_pending_inv: "host_inv sample_pending_host"
  by (simp add: host_inv_def al_wf_def sample_pending_host_def sample_host_def MAX_PENDING_HANDSHAKES_def)

theorem peer_only_by_confirm_witness:
  "\<exists>pend. map_of (pending sample_pending_host) sample_addr = Some pend
     \<and> verify_confirm sample_crypto (pn_session pend) sample_confirm = Ok ()"
  using peer_only_by_confirm [OF sample_pending_inv sample_confirmed,
      of "[1, 2, 3, 4, 5, 6, 7, 8]" "snd (hd (peers sample_peer_host))"]
  by (auto simp: sample_peer_host_def sample_pending_host_def sample_host_def)

text \<open>
  C6 Revocation is final while it lasts: after a disconnect, as long as the authorizer denies the
  device, no sequence of datagrams, confirms of handshakes begun earlier included, gives it a session
  or a pending handshake again.
\<close>

theorem disconnected_stays_out:
  assumes "host_inv h" and "\<forall>e \<in> set es. denies d e"
  shows "map_of (peers (foldl (host_step X) (snd (disconnect d h)) es)) d = None
         \<and> (\<forall>(a, p) \<in> set (pending (foldl (host_step X) (snd (disconnect d h)) es)). pn_device_id p \<noteq> d)"
  using run_absent [OF disconnect_inv [OF assms(1)] absent_disconnect assms(2), of X]
  by (simp add: absent_def)

theorem disconnected_stays_out_witness:
  "map_of (peers (foldl (host_step sample_crypto) (snd (disconnect [1, 2, 3, 4, 5, 6, 7, 8] sample_pending_host))
     [HostPacket None None (\<lambda>k. k + 3) sample_confirm sample_addr (\<lambda>_ _. False)])) [1, 2, 3, 4, 5, 6, 7, 8] = None"
  using disconnected_stays_out [OF sample_pending_inv,
      of "[HostPacket None None (\<lambda>k. k + 3) sample_confirm sample_addr (\<lambda>_ _. False)]" "[1, 2, 3, 4, 5, 6, 7, 8]" sample_crypto]
  by simp

text \<open>
  C3 End to end: a frame sent to a connected device whose endpoint holds the same session, with a
  replay window not ahead of the host's counter, arrives as exactly that payload: the datagrams,
  received in order, open, pass the window and reassemble; the counter advances by one for the frame
  and one per fragment, and the window is ready for the next frame.
\<close>

theorem frame_end_to_end:
  assumes "aead_correct X" and "aead_len X" and "aead_total X"
    and "map_of (peers h) d = Some peer" and "wf_session (peer_session peer)"
    and "\<And>i. rnd i \<noteq> None" and "\<And>i. sent i"
    and "length (payload_chunks payload) \<le> u16_max"
    and "ce_session c = Some (peer_session peer)" and "ahead (ce_window c) (next_sequence h + 1)"
    and "\<forall>p. ra_current r = Some p \<longrightarrow> pf_frame_sequence p \<noteq> next_sequence h"
  shows "\<exists>packets c' r'.
     send_frame X rnd sent h d ts key pt payload =
       (Ok (length (payload_chunks payload)),
        h\<lparr>next_sequence := next_sequence h + 1 + of_nat (length (payload_chunks payload))\<rparr>,
        map (\<lambda>p. (p, peer_addr peer)) packets)
     \<and> receive_all X c r packets = Some ([payload], c', r') \<and> ra_current r' = None
     \<and> ce_session c' = ce_session c
     \<and> ahead (ce_window c') (next_sequence h + 1 + of_nat (length (payload_chunks payload)))"
  using assms by (rule frame_delivered)

theorem frame_end_to_end_witness:
  "\<exists>packets c' r'. send_frame sample_crypto (\<lambda>_. Some []) (\<lambda>_. True)
       \<lparr>host_identity = \<lparr>secret = [5]\<rparr>, pending = [],
        peers = [([8], \<lparr>peer_addr = sample_addr, peer_session = sample_session, peer_window = ReplayWindow_default\<rparr>)],
        next_sequence = 0xFFFFFFFF\<rparr> [8] 90 True 1 (replicate 3000 7)
     = (Ok 3, \<lparr>host_identity = \<lparr>secret = [5]\<rparr>, pending = [],
        peers = [([8], \<lparr>peer_addr = sample_addr, peer_session = sample_session, peer_window = ReplayWindow_default\<rparr>)],
        next_sequence = 3\<rparr>, map (\<lambda>p. (p, sample_addr)) packets)
     \<and> receive_all sample_crypto \<lparr>ce_handshake = None, ce_session = Some sample_session,
         ce_window = ReplayWindow_default\<rparr> Reassembler_default packets = Some ([replicate 3000 7], c', r')"
proof -
  let ?peer = "\<lparr>peer_addr = sample_addr, peer_session = sample_session, peer_window = ReplayWindow_default\<rparr>"
  let ?h = "\<lparr>host_identity = \<lparr>secret = [5]\<rparr>, pending = [], peers = [([8], ?peer)], next_sequence = 0xFFFFFFFF\<rparr>"
  let ?c = "\<lparr>ce_handshake = None, ce_session = Some sample_session, ce_window = ReplayWindow_default\<rparr>"
  have n: "length (payload_chunks (replicate 3000 (7 :: u8))) = 3"
    by (simp add: payload_chunks_def RECORD_MTU_def FRAME_HEADER_LEN_def length_chunks)
  show ?thesis
    using frame_end_to_end [OF sample_laws(1,4,3), of ?h "[8]" ?peer "\<lambda>_. Some []" "\<lambda>_. True"
        "replicate 3000 7" ?c Reassembler_default 90 True 1]
    by (auto simp: n u16_max_def ahead_def ReplayWindow_default_def Reassembler_default_def)
qed

text \<open>
  Datagram sizes: every datagram of a frame is at most 1233 bytes long, 33 bytes of type, sequence,
  nonce and tag more than the 1200-byte record budget, and a full fragment reaches that size; it never
  is cut by the 65535-byte receive buffer.
\<close>

theorem datagram_size:
  assumes "aead_len X" and "c \<in> set (payload_chunks payload)"
    and "build_record q fq ts key pt c i n = Ok rec" and "seal_packet X s d q rnd rec = Ok pkt"
  shows "length pkt = length c + 57 \<and> length pkt \<le> RECORD_MTU + 33 \<and> length pkt \<le> MAX_DATAGRAM"
proof -
  have "length rec = 24 + length c"
    using assms(3) by (auto simp: build_record_eq FRAME_HEADER_LEN_def split: if_splits)
  with seal_packet_length [OF assms(1,4)] payload_chunk_length [OF assms(2)] show ?thesis
    by (simp add: RECORD_MTU_def FRAME_HEADER_LEN_def MAX_DATAGRAM_def)
qed

theorem datagram_size_witness:
  "\<exists>rec pkt. build_record 0 0 0 True 1 (replicate 1176 7) 0 1 = Ok rec
     \<and> seal_packet sample_crypto sample_session HostToDevice 0 (Some []) rec = Ok pkt \<and> length pkt = 1233"
proof -
  have "length (replicate 1176 (7 :: u8)) \<le> u16_max" by (simp add: u16_max_def)
  then obtain rec where rec: "build_record 0 0 0 True 1 (replicate 1176 7) 0 1 = Ok rec"
    by (simp add: build_record_eq)
  obtain pkt where pkt: "seal_packet sample_crypto sample_session HostToDevice 0 (Some []) rec = Ok pkt"
    by (simp add: seal_packet_def crypto_seal_def sample_crypto_def sample_session_def NONCE_LEN_def)
  have "replicate 1176 7 \<in> set (payload_chunks (replicate 1176 7))"
    by (simp add: payload_chunks_def RECORD_MTU_def FRAME_HEADER_LEN_def)
  from datagram_size [OF sample_laws(4) this rec pkt] rec pkt show ?thesis by auto
qed

text \<open>
  The per-device limit can be passed: an init for device \<open>d\<close> from a source that already has a live
  pending handshake of another device is admitted without looking at the count, and raises the number
  of handshakes pending for \<open>d\<close> by one whatever it was, so four per device is not an invariant.
\<close>

theorem per_device_limit_bypassed:
  assumes "handle_init X er nr now now' h packet from authorized = Some (Reply bs, h')"
    and "map_of (pending (prune_pending now h)) from = Some old" and "packet = HANDSHAKE_INIT # body"
    and "pn_device_id old \<noteq> take DEVICE_ID_LEN body"
  shows "count_device (take DEVICE_ID_LEN body) (pending h')
           = Suc (count_device (take DEVICE_ID_LEN body) (pending (prune_pending now h)))"
proof -
  have count: "count_device d (al_insert k v m) = Suc (count_device d m)"
    if "map_of m k = Some old" "pn_device_id old \<noteq> d" "pn_device_id v = d" for d k v m
    using that by (induction m) (auto simp: count_device_def split: if_splits)
  show ?thesis using assms(1)
  proof (cases rule: handle_init_cases)
    case (admit body' outcome srv)
    then have "io_device_id outcome = take DEVICE_ID_LEN body"
      using accept_init_device_id assms(3) by blast
    with admit(7) count [OF assms(2,4)] show ?thesis by simp
  qed simp
qed

definition sample_pend :: "bytes \<Rightarrow> Pending" where
  "sample_pend d = \<lparr>pn_device_id = d, pn_device_static = [], pn_session = sample_session, pn_created_at = 0\<rparr>"

definition crowded_host :: HostEndpoint where
  "crowded_host = sample_host\<lparr>pending :=
     (sample_addr, sample_pend [9]) #
     map (\<lambda>k. (SocketAddr [127, 0, 0, 1] k, sample_pend [1, 2, 3, 4, 5, 6, 7, 8])) [1, 2, 3, 4]\<rparr>"

theorem per_device_limit_bypassed_witness:
  "\<exists>bs h'. handle_init sample_crypto (Some [9]) (Some []) 0 0 crowded_host sample_init sample_addr (\<lambda>_ _. True)
       = Some (Reply bs, h')
     \<and> count_device [1, 2, 3, 4, 5, 6, 7, 8] (pending h') = 5"
proof -
  have prune: "prune_pending 0 crowded_host = crowded_host"
    by (simp add: prune_pending_def crowded_host_def sample_host_def sample_pend_def pending_live_def
        PENDING_HANDSHAKE_TTL_def)
  obtain body rest where body: "sample_init = HANDSHAKE_INIT # body" "body = [1, 2, 3, 4, 5, 6, 7, 8] @ pad32 [3] @ pad32 [7] @ rest"
    using sample_init_shape by blast
  then have id: "take DEVICE_ID_LEN body = [1, 2, 3, 4, 5, 6, 7, 8]" and len: "\<not> length body < 72"
    by (auto simp: DEVICE_ID_LEN_def)
  have "host_identity crowded_host = \<lparr>secret = [5]\<rparr>" by (simp add: crowded_host_def sample_host_def)
  moreover have old: "map_of (pending (prune_pending 0 crowded_host)) sample_addr = Some (sample_pend [9])"
    unfolding prune by (simp add: crowded_host_def)
  ultimately obtain h' where h': "handle_init sample_crypto (Some [9]) (Some []) 0 0 crowded_host sample_init
      sample_addr (\<lambda>_ _. True) = Some (Reply (io_response sample_outcome), h')"
    using sample_accept len unfolding body(1)
    by (auto simp: handle_init_def prune DEVICE_ID_LEN_def Let_def)
  have "count_device [1, 2, 3, 4, 5, 6, 7, 8] (pending crowded_host) = 4"
    by (simp add: count_device_def crowded_host_def sample_pend_def)
  with per_device_limit_bypassed [OF h' old body(1)] h' show ?thesis
    by (simp add: id prune sample_pend_def)
qed

text \<open>
  Starting the handshake twice panics: once \<^verbatim>\<open>send_init\<close> has returned, a second call does not give the
  error that names this case but fails the assertion inside \<^verbatim>\<open>HandshakeClient::init\<close>, since the
  endpoint never gives its handshake up.
\<close>

theorem send_init_twice_panics:
  assumes "send_init X rnd sent c = Some (r, c', out)" and "ce_handshake c \<noteq> None"
  shows "send_init X rnd' sent' c' = None"
proof -
  from assms obtain hc hc' init where "ce_handshake c = Some hc"
    and "HandshakeClient_init X rnd hc = Some (init, hc')" and c': "ce_handshake c' = Some hc'"
    by (auto simp: send_init_def Let_def split: option.splits if_splits)
  then have "hc_step hc' = StepResponse"
    by (auto simp: HandshakeClient_init_def Let_def split: if_splits option.splits sum.splits)
  then show ?thesis by (simp add: send_init_def c' HandshakeClient_init_def)
qed

theorem send_init_twice_panics_witness:
  "\<exists>r c' out. send_init sample_crypto (Some []) True
       \<lparr>ce_handshake = Some sample_client, ce_session = None, ce_window = ReplayWindow_default\<rparr> = Some (r, c', out)
     \<and> send_init sample_crypto (Some []) True c' = None"
proof -
  let ?c = "\<lparr>ce_handshake = Some sample_client, ce_session = None, ce_window = ReplayWindow_default\<rparr>"
  have "send_init sample_crypto (Some []) True ?c \<noteq> None" by (simp add: send_init_def sample_init)
  then obtain r c' out where "send_init sample_crypto (Some []) True ?c = Some (r, c', out)" by auto
  with send_init_twice_panics [OF this] show ?thesis by auto
qed

end
