(* ===== verification/Service_Model.thy ===== *)
theory Service_Model
  imports Pairing Protocol Capture_Model Udp
begin

text \<open>
  Model of the control-plane half of \<^verbatim>\<open>host/crates/emersia-daemon/src/service.rs\<close>: the shared state behind the
  two mutexes, its telemetry, and the handler of every control command; and the part of the engine loop
  that serves the transport, where a revocation reaches the live sessions.

  Each operation under one lock is one definition on the state.  \<^verbatim>\<open>f64\<close> arithmetic is the record \<open>f64_ops\<close>
  (nothing proved depends on it); clocks, randomness and file-system outcomes come in \<open>svc_env\<close>.
\<close>

unbundle bit_operations_syntax

section \<open>Telemetry\<close>

record f64_ops =
  fo_add :: "f64 \<Rightarrow> f64 \<Rightarrow> f64"
  fo_sub :: "f64 \<Rightarrow> f64 \<Rightarrow> f64"
  fo_mul :: "f64 \<Rightarrow> f64 \<Rightarrow> f64"
  fo_div :: "f64 \<Rightarrow> f64 \<Rightarrow> f64"
  fo_round :: "f64 \<Rightarrow> f64"
  fo_of_u64 :: "u64 \<Rightarrow> f64"
  fo_secs :: "nat \<Rightarrow> f64"

text \<open>The bit patterns of 0.0, 1.0, 100.0 and 1000.0.\<close>

definition f64_0 :: f64 where "f64_0 = 0"
definition f64_1 :: f64 where "f64_1 = 0x3FF0000000000000"
definition f64_100 :: f64 where "f64_100 = 0x4059000000000000"
definition f64_1000 :: f64 where "f64_1000 = 0x408F400000000000"

definition DEFAULT_FPS :: u32 where "DEFAULT_FPS = 30"
definition IDLE_TICK :: nat where "IDLE_TICK = 20000000"
definition CAPTURE_RATE_WINDOW :: nat where "CAPTURE_RATE_WINDOW = 2000000000"
definition MISSING_FFMPEG_ERROR :: string where
  "MISSING_FFMPEG_ERROR = ''streaming needs the ffmpeg binary, which was not found on PATH''"
definition WAYLAND_RECONNECT_RETRY_DELAY :: nat where "WAYLAND_RECONNECT_RETRY_DELAY = 1000000000"

record CaptureRateWindow =
  cw_started :: "nat option"
  cw_frames :: u64
  cw_latest_fps :: f64
  cw_last_success :: "nat option"

definition CaptureRateWindow_reset :: CaptureRateWindow where
  "CaptureRateWindow_reset = \<lparr>cw_started = None, cw_frames = 0, cw_latest_fps = f64_0, cw_last_success = None\<rparr>"

definition CaptureRateWindow_record :: "f64_ops \<Rightarrow> CaptureRateWindow \<Rightarrow> nat \<Rightarrow> CaptureRateWindow" where
  "CaptureRateWindow_record F self now =
     (case cw_started self of
        None \<Rightarrow> self\<lparr>cw_started := Some now, cw_frames := 1, cw_last_success := Some now\<rparr>
      | Some started \<Rightarrow>
          let elapsed = now - started;
              self = (if elapsed \<ge> CAPTURE_RATE_WINDOW
                      then (let self = (if cw_frames self > 0 \<and> elapsed \<noteq> 0
                                        then self\<lparr>cw_latest_fps := fo_div F (fo_of_u64 F (cw_frames self)) (fo_secs F elapsed)\<rparr>
                                        else self)
                            in self\<lparr>cw_started := Some now, cw_frames := 1\<rparr>)
                      else self\<lparr>cw_frames := cw_frames self + 1\<rparr>)
          in self\<lparr>cw_last_success := Some now\<rparr>)"

definition current_fps :: "CaptureRateWindow \<Rightarrow> nat \<Rightarrow> f64" where
  "current_fps self now =
     (case cw_last_success self of
        None \<Rightarrow> f64_0
      | Some last_success \<Rightarrow> if now - last_success \<ge> CAPTURE_RATE_WINDOW then f64_0 else cw_latest_fps self)"

definition elapsed_ms :: "f64_ops \<Rightarrow> CaptureRateWindow \<Rightarrow> nat \<Rightarrow> f64" where
  "elapsed_ms F self now =
     (case cw_started self of None \<Rightarrow> f64_0 | Some started \<Rightarrow> fo_mul F (fo_secs F (now - started)) f64_1000)"

section \<open>State\<close>

record ScreenInfo =
  si_kind :: string
  si_name :: string
  si_width :: u32
  si_height :: u32
  si_transform :: string

record Stats =
  sts_frames :: u64
  sts_last_latency_ms :: f64
  sts_avg_latency_ms :: f64
  sts_measured_fps :: f64
  sts_capture_rate :: CaptureRateWindow
  sts_capture_last :: CaptureTimings

definition CaptureTimings_default :: CaptureTimings where
  "CaptureTimings_default =
     \<lparr>ct_constraints = 0, ct_frame_wait = 0, ct_shm_read = 0, ct_decode = 0, ct_transform = 0, ct_total = 0\<rparr>"

record Inner =
  in_streaming :: bool
  in_fps_target :: u32
  in_selected :: "string option"
  in_outputs :: "ScreenInfo list"
  in_backend :: "string option"
  in_stats :: Stats
  in_last_error :: "string option"
  in_stream_peers :: nat
  in_revoked_pending :: "bytes list"
  in_encoded_packets :: u64
  in_encoder_name :: "string option"
  in_encoder_software :: bool
  in_encoder_frames_in :: u64
  in_encoder_frames_out :: u64
  in_encoder_frames_dropped :: u64

definition Inner_default :: Inner where
  "Inner_default =
     \<lparr>in_streaming = False, in_fps_target = 0, in_selected = None, in_outputs = [], in_backend = None,
      in_stats = \<lparr>sts_frames = 0, sts_last_latency_ms = f64_0, sts_avg_latency_ms = f64_0, sts_measured_fps = f64_0,
                  sts_capture_rate = CaptureRateWindow_reset, sts_capture_last = CaptureTimings_default\<rparr>,
      in_last_error = None, in_stream_peers = 0, in_revoked_pending = [], in_encoded_packets = 0,
      in_encoder_name = None, in_encoder_software = False, in_encoder_frames_in = 0, in_encoder_frames_out = 0,
      in_encoder_frames_dropped = 0\<rparr>"

record Service =
  sv_inner :: Inner
  sv_shutdown :: bool
  sv_pairing :: PairingDb
  sv_host_public_key :: string

abbreviation upd_inner :: "(Inner \<Rightarrow> Inner) \<Rightarrow> Service \<Rightarrow> Service" where
  "upd_inner f self \<equiv> self\<lparr>sv_inner := f (sv_inner self)\<rparr>"

definition Service_new :: "PairingDb \<Rightarrow> string \<Rightarrow> Service" where
  "Service_new pairing key =
     \<lparr>sv_inner = Inner_default\<lparr>in_fps_target := DEFAULT_FPS\<rparr>, sv_shutdown = False, sv_pairing = pairing,
      sv_host_public_key = key\<rparr>"

section \<open>Operations of the engine on the shared state\<close>

definition record_encoded :: "Service \<Rightarrow> u32 \<Rightarrow> Service" where
  "record_encoded self count = upd_inner (\<lambda>i. i\<lparr>in_encoded_packets := in_encoded_packets i + ucast count\<rparr>) self"

definition set_encoder_with_drops :: "Service \<Rightarrow> string option \<Rightarrow> bool \<Rightarrow> u64 \<Rightarrow> u64 \<Rightarrow> u64 \<Rightarrow> Service" where
  "set_encoder_with_drops self name software frames_in frames_out dropped =
     upd_inner (\<lambda>i. i\<lparr>in_encoder_name := name, in_encoder_software := software, in_encoder_frames_in := frames_in,
                      in_encoder_frames_out := frames_out, in_encoder_frames_dropped := dropped\<rparr>) self"

definition set_encoder :: "Service \<Rightarrow> string option \<Rightarrow> bool \<Rightarrow> u64 \<Rightarrow> u64 \<Rightarrow> Service" where
  "set_encoder self name software frames_in frames_out =
     set_encoder_with_drops self name software frames_in frames_out 0"

definition service_measured_fps :: "Service \<Rightarrow> f64" where
  "service_measured_fps self = sts_measured_fps (in_stats (sv_inner self))"

definition set_stream_peers :: "Service \<Rightarrow> nat \<Rightarrow> Service" where
  "set_stream_peers self count = upd_inner (\<lambda>i. i\<lparr>in_stream_peers := count\<rparr>) self"

definition take_revoked :: "Service \<Rightarrow> bytes list \<times> Service" where
  "take_revoked self = (in_revoked_pending (sv_inner self), upd_inner (\<lambda>i. i\<lparr>in_revoked_pending := []\<rparr>) self)"

definition publish_discovery :: "Service \<Rightarrow> ScreenInfo list \<Rightarrow> string option \<Rightarrow> Service" where
  "publish_discovery self outputs backend = upd_inner (\<lambda>i. i\<lparr>in_outputs := outputs, in_backend := backend\<rparr>) self"

definition is_streaming :: "Service \<Rightarrow> bool" where
  "is_streaming self = in_streaming (sv_inner self)"

definition fps_target :: "Service \<Rightarrow> u32" where
  "fps_target self = max (in_fps_target (sv_inner self)) 1"

definition selected_output :: "Service \<Rightarrow> string option" where
  "selected_output self = in_selected (sv_inner self)"

definition set_selected_output :: "Service \<Rightarrow> string option \<Rightarrow> Service" where
  "set_selected_output self selected = upd_inner (\<lambda>i. i\<lparr>in_selected := selected\<rparr>) self"

definition set_error :: "Service \<Rightarrow> string \<Rightarrow> Service" where
  "set_error self message = upd_inner (\<lambda>i. i\<lparr>in_last_error := Some message\<rparr>) self"

definition clear_error :: "Service \<Rightarrow> Service" where
  "clear_error self = upd_inner (\<lambda>i. i\<lparr>in_last_error := None\<rparr>) self"

definition is_shutting_down :: "Service \<Rightarrow> bool" where
  "is_shutting_down self = sv_shutdown self"

definition request_shutdown :: "Service \<Rightarrow> Service" where
  "request_shutdown self = self\<lparr>sv_shutdown := True\<rparr>"

definition record_frame :: "f64_ops \<Rightarrow> Service \<Rightarrow> nat \<Rightarrow> nat \<Rightarrow> Service" where
  "record_frame F self latency since_last =
     upd_inner (\<lambda>i.
       let ms = fo_mul F (fo_secs F latency) f64_1000;
           s = in_stats i;
           frames = sts_frames s + 1;
           avg = (if frames = 1 then ms
                  else let n = fo_of_u64 F frames
                       in fo_div F (fo_add F (fo_mul F (sts_avg_latency_ms s) (fo_sub F n f64_1)) ms) n);
           fps = (if since_last = 0 then f64_0 else fo_div F f64_1 (fo_secs F since_last))
       in i\<lparr>in_stats := s\<lparr>sts_frames := frames, sts_last_latency_ms := ms, sts_avg_latency_ms := avg,
                          sts_measured_fps := fps\<rparr>,
            in_last_error := None\<rparr>) self"

definition record_capture :: "f64_ops \<Rightarrow> nat \<Rightarrow> Service \<Rightarrow> CaptureTimings \<Rightarrow> Service" where
  "record_capture F now self timings =
     upd_inner (\<lambda>i. i\<lparr>in_stats := (in_stats i)\<lparr>sts_capture_last := timings,
       sts_capture_rate := CaptureRateWindow_record F (sts_capture_rate (in_stats i)) now\<rparr>\<rparr>) self"

definition reset_metrics :: "Inner \<Rightarrow> Inner" where
  "reset_metrics i = i\<lparr>in_stats := (in_stats i)\<lparr>sts_capture_rate := CaptureRateWindow_reset,
     sts_capture_last := CaptureTimings_default\<rparr>\<rparr>"

definition reset_capture_metrics :: "Service \<Rightarrow> Service" where
  "reset_capture_metrics self = upd_inner reset_metrics self"

definition record_error :: "Service \<Rightarrow> string \<Rightarrow> Service" where
  "record_error self message = upd_inner (\<lambda>i. i\<lparr>in_streaming := False, in_last_error := Some message\<rparr>) self"

section \<open>Payloads\<close>

definition ok_response :: "string \<Rightarrow> json \<Rightarrow> Response" where
  "ok_response rid payload = RespOk \<lparr>ro_v = PROTOCOL_VERSION, ro_id = rid, ro_ok = payload\<rparr>"

definition err_response :: "string \<Rightarrow> ErrorCode \<Rightarrow> string \<Rightarrow> Response" where
  "err_response rid code message =
     RespErr \<lparr>re_v = PROTOCOL_VERSION, re_id = rid, re_error = ErrorInfo_new code message\<rparr>"

text \<open>\<^verbatim>\<open>json!\<close> of an \<^verbatim>\<open>f64\<close>: infinities and NaNs (all exponent bits set) become null.\<close>

definition json_f64 :: "f64 \<Rightarrow> json" where
  "json_f64 v = (if v AND 0x7FF0000000000000 = 0x7FF0000000000000 then JNull else JFloat v)"

definition json_opt :: "string option \<Rightarrow> json" where
  "json_opt v = (case v of None \<Rightarrow> JNull | Some s \<Rightarrow> JStr s)"

definition round2 :: "f64_ops \<Rightarrow> f64 \<Rightarrow> f64" where
  "round2 F v = fo_div F (fo_round F (fo_mul F v f64_100)) f64_100"

definition capture_timings_payload :: "f64_ops \<Rightarrow> CaptureTimings \<Rightarrow> json" where
  "capture_timings_payload F t =
     (let ms = (\<lambda>d. json_f64 (round2 F (fo_mul F (fo_secs F d) f64_1000)))
      in JObj [(''total_ms'', ms (ct_total t)), (''constraints_ms'', ms (ct_constraints t)),
               (''frame_wait_ms'', ms (ct_frame_wait t)), (''shm_read_ms'', ms (ct_shm_read t)),
               (''decode_ms'', ms (ct_decode t)), (''transform_ms'', ms (ct_transform t))])"

fun transform_text :: "Transform \<Rightarrow> string" where
  "transform_text Normal = ''normal''"
| "transform_text T90 = ''_90''"
| "transform_text T180 = ''_180''"
| "transform_text T270 = ''_270''"
| "transform_text Flipped = ''flipped''"
| "transform_text Flipped90 = ''flipped90''"
| "transform_text Flipped180 = ''flipped180''"
| "transform_text Flipped270 = ''flipped270''"
| "transform_text (UnknownTransform n) = ''unknown''"

definition screen_infos :: "State \<Rightarrow> ScreenInfo list" where
  "screen_infos state =
     (let labels = output_labels state
      in map (\<lambda>(i, info). \<lparr>si_kind = ''output'', si_name = labels ! i, si_width = oi_width info,
                            si_height = oi_height info, si_transform = transform_text (oi_transform info)\<rparr>)
           (enumerate 0 (st_outputs state)))"

definition screen_json :: "ScreenInfo \<Rightarrow> json" where
  "screen_json s = JObj [(''kind'', JStr (si_kind s)), (''name'', JStr (si_name s)), (''width'', JInt (unat (si_width s))),
     (''height'', JInt (unat (si_height s))), (''transform'', JStr (si_transform s))]"

definition screens_payload :: "Service \<Rightarrow> json" where
  "screens_payload self = JArr (map screen_json (in_outputs (sv_inner self)))"

fun pairing_error_code :: "PairingError \<Rightarrow> ErrorCode" where
  "pairing_error_code WrongCode = NotPaired"
| "pairing_error_code NoPendingCode = NotPaired"
| "pairing_error_code TooManyAttempts = NotPaired"
| "pairing_error_code (NotFound _) = NotFoundCode"
| "pairing_error_code (Invalid _) = InvalidArgs"
| "pairing_error_code (PairingIo _) = Internal"
| "pairing_error_code (Corrupt _) = Internal"
| "pairing_error_code NoConfigDir = Internal"

definition status_payload :: "f64_ops \<Rightarrow> nat \<Rightarrow> Service \<Rightarrow> json" where
  "status_payload F now self =
     (let paired_devices = length (active_devices (sv_pairing self));
          inner = sv_inner self; stats = in_stats inner
      in JObj
        [(''streaming'', JBool (in_streaming inner)),
         (''backend'', json_opt (in_backend inner)),
         (''selected_output'', json_opt (in_selected inner)),
         (''fps_target'', JInt (unat (in_fps_target inner))),
         (''frames'', JInt (unat (sts_frames stats))),
         (''latency_ms'', json_f64 (round2 F (sts_last_latency_ms stats))),
         (''avg_latency_ms'', json_f64 (round2 F (sts_avg_latency_ms stats))),
         (''measured_fps'', json_f64 (round2 F (sts_measured_fps stats))),
         (''capture_measured_fps'', json_f64 (round2 F (current_fps (sts_capture_rate stats) now))),
         (''capture_window_frames'', JInt (unat (cw_frames (sts_capture_rate stats)))),
         (''capture_window_elapsed_ms'', json_f64 (round2 F (elapsed_ms F (sts_capture_rate stats) now))),
         (''capture_phases'', capture_timings_payload F (sts_capture_last stats)),
         (''connected_devices'', JInt (in_stream_peers inner)),
         (''paired_devices'', JInt paired_devices),
         (''encoder'', json_opt (in_encoder_name inner)),
         (''encoder_software'', JBool (in_encoder_software inner)),
         (''encoder_frames_in'', JInt (unat (in_encoder_frames_in inner))),
         (''encoder_frames_out'', JInt (unat (in_encoder_frames_out inner))),
         (''encoder_frames_dropped'', JInt (unat (in_encoder_frames_dropped inner))),
         (''encoded_packets'', JInt (unat (in_encoded_packets inner))),
         (''last_error'', json_opt (in_last_error inner)),
         (''protocol_version'', JInt (unat PROTOCOL_VERSION)),
         (''host_public_key'', JStr (sv_host_public_key self))])"

section \<open>Command handlers\<close>

text \<open>\<^verbatim>\<open>decode_device_id\<close>; the outer \<open>None\<close> is the panic of slicing inside a character.\<close>

fun decode_id_loop :: "string \<Rightarrow> nat \<Rightarrow> nat \<Rightarrow> bytes option option" where
  "decode_id_loop s i 0 = Some (Some [])"
| "decode_id_loop s i (Suc left) =
     (if \<not> is_char_boundary s (i * 2) \<or> \<not> is_char_boundary s (i * 2 + 2) then None
      else case from_str_radix 16 255 (slice s (i * 2) (i * 2 + 2)) of
             None \<Rightarrow> Some None
           | Some v \<Rightarrow> map_option (map_option (\<lambda>rest. of_nat v # rest)) (decode_id_loop s (Suc i) left))"

definition decode_device_id :: "string \<Rightarrow> bytes option option" where
  "decode_device_id hex_str = (if length hex_str \<noteq> 16 then Some None else decode_id_loop hex_str 0 8)"

text \<open>What a handler meets: the primitives, the draws and the wall clock of pairing, the outcome of saving, the
  monotonic clock and the float operations.\<close>

record svc_env =
  ve_crypto :: crypto_ext
  ve_draws :: "bytes option list"
  ve_salt :: "bytes option"
  ve_clock :: "u64 option"
  ve_save :: save_env
  ve_now :: nat
  ve_float :: f64_ops

definition handle_start :: "Service \<Rightarrow> string \<Rightarrow> StartArgs \<Rightarrow> Response \<times> Service" where
  "handle_start self rid args =
     (let inner = sv_inner self in
      if in_streaming inner then (err_response rid Busy ''already streaming'', self)
      else if (case sa_output args of None \<Rightarrow> False | Some want \<Rightarrow> want \<notin> set (map si_name (in_outputs inner)))
      then (err_response rid NotFoundCode
              (''no output named '' @ str_debug (the (sa_output args)) @ ''; available: ''
               @ str_join '', '' (map si_name (in_outputs inner))), self)
      else if (case sa_fps args of None \<Rightarrow> False | Some fps \<Rightarrow> fps = 0 \<or> fps > 240)
      then (err_response rid InvalidArgs
              (''fps must be 1..=240, got '' @ show_nat (unat (the (sa_fps args)))), self)
      else
        let inner = (case sa_fps args of None \<Rightarrow> inner | Some fps \<Rightarrow> inner\<lparr>in_fps_target := fps\<rparr>);
            inner = (if sa_output args \<noteq> None then inner\<lparr>in_selected := sa_output args\<rparr> else inner);
            inner = (if in_selected inner = None
                     then inner\<lparr>in_selected := (case in_outputs inner of [] \<Rightarrow> None | s # _ \<Rightarrow> Some (si_name s))\<rparr>
                     else inner)
        in case in_selected inner of
             None \<Rightarrow> (err_response rid NoCaptureBackend ''no outputs detected on this compositor'', self\<lparr>sv_inner := inner\<rparr>)
           | Some selected \<Rightarrow>
               let inner = (reset_metrics inner)\<lparr>in_streaming := True, in_last_error := None\<rparr>
               in (ok_response rid (JObj [(''streaming'', JBool True), (''output'', JStr selected),
                                          (''fps'', JInt (unat (in_fps_target inner)))]), self\<lparr>sv_inner := inner\<rparr>))"

definition handle_stop :: "Service \<Rightarrow> string \<Rightarrow> Response \<times> Service" where
  "handle_stop self rid =
     (let was = in_streaming (sv_inner self); self = upd_inner (\<lambda>i. i\<lparr>in_streaming := False\<rparr>) self
      in (if was then ok_response rid (JObj [(''streaming'', JBool False)])
          else err_response rid Busy ''not streaming; nothing to stop'', self))"

definition handle_pair ::
  "svc_env \<Rightarrow> fs \<Rightarrow> Service \<Rightarrow> string \<Rightarrow> PairArgs \<Rightarrow> (Response \<times> Service \<times> fs) option" where
  "handle_pair V f self rid args =
     (case pa_action args of
        PairNew \<Rightarrow>
          (case new_code (ve_crypto V) (ve_draws V) (ve_salt V) (ve_clock V) (ve_save V) f (sv_pairing self) of
             None \<Rightarrow> None
           | Some (r, db, f) \<Rightarrow>
               Some ((case r of
                        Inr code \<Rightarrow> ok_response rid (JObj [(''code'', JStr (PairingCode_display code)),
                                                            (''expires_in_s'', JInt (unat CODE_TTL))])
                      | Inl e \<Rightarrow> err_response rid (pairing_error_code e) (PairingError_display e)),
                     self\<lparr>sv_pairing := db\<rparr>, f))
      | PairAccept \<Rightarrow>
          (case (pa_code args, pa_name args, pa_public_key args) of
             (Some code, Some name, Some key) \<Rightarrow>
               (case accept_code (ve_crypto V) (ve_clock V) (ve_save V) f (sv_pairing self) code name key of
                  (r, db, f) \<Rightarrow>
                    Some ((case r of
                             Inr device \<Rightarrow> ok_response rid (JObj [(''paired'', JBool True), (''device'', JStr (dev_id device)),
                                                                   (''name'', JStr (dev_name device))])
                           | Inl e \<Rightarrow> err_response rid (pairing_error_code e) (PairingError_display e)),
                          self\<lparr>sv_pairing := db\<rparr>, f))
           | _ \<Rightarrow> Some (err_response rid InvalidArgs ''pair accept needs a code, a device name and a public key'', self, f)))"

definition device_json :: "Device \<Rightarrow> json" where
  "device_json d = JObj [(''id'', JStr (dev_id d)), (''name'', JStr (dev_name d)),
     (''paired_at'', JInt (unat (dev_paired_at d))), (''revoked'', JBool (dev_revoked d))]"

definition handle_devices :: "Service \<Rightarrow> string \<Rightarrow> Response" where
  "handle_devices self rid =
     (let devices = db_devices_list (sv_pairing self)
      in ok_response rid (JObj [(''devices'', JArr (map device_json devices)),
                                (''active'', JInt (length (filter (\<lambda>d. \<not> dev_revoked d) devices)))]))"

text \<open>The two locked parts of a revocation: the trust store, then the list the engine drains.\<close>

definition push_revoked :: "bytes option \<Rightarrow> Service \<Rightarrow> Service" where
  "push_revoked bs self =
     (case bs of None \<Rightarrow> self
      | Some b \<Rightarrow> upd_inner (\<lambda>i. i\<lparr>in_revoked_pending := in_revoked_pending i @ [b]\<rparr>) self)"

definition handle_revoke ::
  "svc_env \<Rightarrow> fs \<Rightarrow> Service \<Rightarrow> string \<Rightarrow> RevokeArgs \<Rightarrow> (Response \<times> Service \<times> fs) option" where
  "handle_revoke V f self rid args =
     (case revoke (ve_clock V) (ve_save V) f (sv_pairing self) (ra_device args) of
        (Inr device, db, f) \<Rightarrow>
          (case decode_device_id (dev_id device) of
             None \<Rightarrow> None
           | Some bs \<Rightarrow>
               Some (ok_response rid (JObj [(''revoked'', JBool True), (''device'', JStr (dev_id device))]),
                     push_revoked bs (self\<lparr>sv_pairing := db\<rparr>), f))
      | (Inl e, db, f) \<Rightarrow>
          Some (err_response rid (pairing_error_code e) (PairingError_display e), self\<lparr>sv_pairing := db\<rparr>, f))"

definition handle_select :: "Service \<Rightarrow> string \<Rightarrow> SelectArgs \<Rightarrow> Response \<times> Service" where
  "handle_select self rid args =
     (if sel_targets args = []
      then (ok_response rid (JObj [(''targets'', JArr [])]),
            upd_inner (\<lambda>i. i\<lparr>in_streaming := False, in_selected := None\<rparr>) self)
      else (err_response rid InvalidArgs ''multi-target select is not implemented yet; use start --output'', self))"

text \<open>\<^verbatim>\<open>Service::handle\<close>; \<open>None\<close> when the handler does not return (a panic, or draws that do not suffice for a code).\<close>

definition service_handle :: "svc_env \<Rightarrow> fs \<Rightarrow> Service \<Rightarrow> Request \<Rightarrow> (Response \<times> Service \<times> fs) option" where
  "service_handle V f self req =
     (let rid = rq_id req; status = status_payload (ve_float V) (ve_now V) self in
      case rq_command req of
        CmdStatus \<Rightarrow> Some (ok_response rid status, self, f)
      | CmdScreens \<Rightarrow> Some (ok_response rid (JObj [(''screens'', screens_payload self)]), self, f)
      | CmdStart args \<Rightarrow> (case handle_start self rid args of (r, self) \<Rightarrow> Some (r, self, f))
      | CmdStop \<Rightarrow> (case handle_stop self rid of (r, self) \<Rightarrow> Some (r, self, f))
      | CmdEvents \<Rightarrow> Some (ok_response rid (JObj [(''snapshot'', status), (''following'', JBool False)]), self, f)
      | CmdUnknown \<Rightarrow> Some (err_response rid UnknownCmd ''unknown command'', self, f)
      | CmdPair args \<Rightarrow> handle_pair V f self rid args
      | CmdDevices \<Rightarrow> Some (handle_devices self rid, self, f)
      | CmdRevoke args \<Rightarrow> handle_revoke V f self rid args
      | CmdSelect args \<Rightarrow> (case handle_select self rid args of (r, self) \<Rightarrow> Some (r, self, f)))"

section \<open>The engine's transport turn\<close>

text \<open>The authorizer of \<^verbatim>\<open>run_engine\<close>, which reads the trust store at the moment of the decision.\<close>

definition trust_authorizer :: "crypto_ext \<Rightarrow> PairingDb \<Rightarrow> authorizer" where
  "trust_authorizer X db did pubkey =
     list_ex (\<lambda>d. dev_id d = hex_encode X did \<and> eq_ignore_ascii_case (dev_public_key d) (hex_encode X pubkey)
                  \<and> \<not> dev_revoked d) (db_devices_list db)"

definition disconnect_all :: "bytes list \<Rightarrow> HostEndpoint \<Rightarrow> HostEndpoint" where
  "disconnect_all ids host = foldl (\<lambda>h d. snd (disconnect d h)) host ids"

text \<open>One turn with a bound endpoint and no other thread in between: drop revoked devices, take up to 16 datagrams,
  restart the encoder when a device joined.  The encoder is only present or not here.\<close>

definition serve_transport ::
  "crypto_ext \<Rightarrow> (nat \<Rightarrow> pump_io) \<Rightarrow> Service \<Rightarrow> HostEndpoint \<Rightarrow> nat \<Rightarrow> 'e option
   \<Rightarrow> (Service \<times> HostEndpoint \<times> nat \<times> 'e option \<times> (bytes \<times> socket_addr) list) option" where
  "serve_transport X env service host last_peers encoder =
     (case take_revoked service of
        (ids, service) \<Rightarrow>
          (case HostEndpoint_pump X 16 env (disconnect_all ids host) (\<lambda>_. trust_authorizer X (sv_pairing service)) of
             None \<Rightarrow> None
           | Some (_, host, sent) \<Rightarrow>
               let peers = peer_count host;
                   encoder = (if peers > last_peers then None else encoder)
               in Some (set_stream_peers service peers, host, peers, encoder, sent)))"

section \<open>Invariant of the shared state\<close>

text \<open>The engine divides by the frame rate and captures the selected output: the rate stays within 1 to 240, and
  nothing streams without a selected output.\<close>

definition service_inv :: "Service \<Rightarrow> bool" where
  "service_inv self \<longleftrightarrow> 1 \<le> in_fps_target (sv_inner self) \<and> in_fps_target (sv_inner self) \<le> 240
     \<and> (in_streaming (sv_inner self) \<longrightarrow> in_selected (sv_inner self) \<noteq> None)"

text \<open>Everything that changes the state: a control command, and the engine's reports (a reconnect selects the first
  output when the selected one is gone).\<close>

datatype service_op =
    OpHandle svc_env fs Request
  | OpRecordEncoded u32
  | OpSetEncoder "string option" bool u64 u64 u64
  | OpSetPeers nat
  | OpTakeRevoked
  | OpPublish "ScreenInfo list" "string option"
  | OpFallback string
  | OpSetError string
  | OpClearError
  | OpShutdown
  | OpRecordFrame f64_ops nat nat
  | OpRecordCapture f64_ops nat CaptureTimings
  | OpResetMetrics
  | OpRecordError string

fun service_step :: "Service \<Rightarrow> service_op \<Rightarrow> Service" where
  "service_step s (OpHandle V f req) = (case service_handle V f s req of None \<Rightarrow> s | Some (_, s', _) \<Rightarrow> s')"
| "service_step s (OpRecordEncoded n) = record_encoded s n"
| "service_step s (OpSetEncoder nm sw i out d) = set_encoder_with_drops s nm sw i out d"
| "service_step s (OpSetPeers n) = set_stream_peers s n"
| "service_step s OpTakeRevoked = snd (take_revoked s)"
| "service_step s (OpPublish outs b) = publish_discovery s outs b"
| "service_step s (OpFallback nm) = set_selected_output s (Some nm)"
| "service_step s (OpSetError e) = set_error s e"
| "service_step s OpClearError = clear_error s"
| "service_step s OpShutdown = request_shutdown s"
| "service_step s (OpRecordFrame F l d) = record_frame F s l d"
| "service_step s (OpRecordCapture F now t) = record_capture F now s t"
| "service_step s OpResetMetrics = reset_capture_metrics s"
| "service_step s (OpRecordError e) = record_error s e"

lemma handle_start_inv:
  assumes "service_inv s" and "handle_start s rid args = (r, s')"
  shows "service_inv s'"
proof -
  have fps: "1 \<le> fps" if "fps \<noteq> 0" for fps :: u32 using that by (simp add: not_less [symmetric] del: not_less)
  show ?thesis using assms fps
    by (auto simp: handle_start_def service_inv_def Let_def reset_metrics_def not_less
        split: if_splits option.splits list.splits)
qed

lemma handle_stop_inv: "service_inv s \<Longrightarrow> service_inv (snd (handle_stop s rid))"
  by (simp add: handle_stop_def service_inv_def Let_def)

lemma handle_select_inv: "service_inv s \<Longrightarrow> service_inv (snd (handle_select s rid args))"
  by (simp add: handle_select_def service_inv_def)

lemma push_revoked_simps [simp]:
  "in_streaming (sv_inner (push_revoked b s)) = in_streaming (sv_inner s)"
  "in_selected (sv_inner (push_revoked b s)) = in_selected (sv_inner s)"
  "in_fps_target (sv_inner (push_revoked b s)) = in_fps_target (sv_inner s)"
  "sv_pairing (push_revoked b s) = sv_pairing s"
  by (simp_all add: push_revoked_def split: option.split)

lemma service_inv_pairing [simp]: "service_inv (s\<lparr>sv_pairing := db\<rparr>) = service_inv s"
  by (simp add: service_inv_def)

lemma service_inv_push [simp]: "service_inv (push_revoked b s) = service_inv s"
  by (simp add: service_inv_def)

lemma handle_pair_inv:
  "service_inv s \<Longrightarrow> handle_pair V f s rid args = Some (r, s', g) \<Longrightarrow> service_inv s'"
  by (auto simp: handle_pair_def split: PairAction.splits option.splits prod.splits)

lemma handle_revoke_inv:
  "service_inv s \<Longrightarrow> handle_revoke V f s rid args = Some (r, s', g) \<Longrightarrow> service_inv s'"
  by (auto simp: handle_revoke_def split: sum.splits option.splits prod.splits)

lemma service_handle_inv:
  assumes "service_inv s" and "service_handle V f s req = Some (r, s', g)"
  shows "service_inv s'"
proof (cases "rq_command req")
  case (CmdStart args)
  then show ?thesis using assms handle_start_inv by (auto simp: service_handle_def split: prod.splits)
next
  case CmdStop
  then show ?thesis using assms handle_stop_inv [of s "rq_id req"] by (auto simp: service_handle_def split: prod.splits)
next
  case (CmdPair args)
  then show ?thesis using assms handle_pair_inv by (auto simp: service_handle_def)
next
  case (CmdRevoke args)
  then show ?thesis using assms handle_revoke_inv by (auto simp: service_handle_def)
next
  case (CmdSelect args)
  then show ?thesis using assms handle_select_inv [of s "rq_id req" args] by (auto simp: service_handle_def split: prod.splits)
qed (use assms in \<open>auto simp: service_handle_def\<close>)

lemmas service_updates = record_encoded_def set_encoder_with_drops_def set_stream_peers_def take_revoked_def
  publish_discovery_def set_selected_output_def set_error_def clear_error_def request_shutdown_def record_frame_def
  record_capture_def reset_capture_metrics_def reset_metrics_def record_error_def

lemma service_step_inv: "service_inv s \<Longrightarrow> service_inv (service_step s op)"
proof (cases op)
  case (OpHandle V f req)
  assume "service_inv s"
  with OpHandle show ?thesis using service_handle_inv by (auto split: option.splits)
qed (auto simp: service_inv_def service_updates Let_def)

interpretation service_run: invariant_machine service_step service_inv
  by unfold_locales (rule service_step_inv)

lemma Service_new_inv: "service_inv (Service_new db key)"
  by (simp add: service_inv_def Service_new_def Inner_default_def DEFAULT_FPS_def)

text \<open>
  C27 Whatever commands and engine reports arrive, in any order, the frame rate the engine divides by stays between
  1 and 240 and the service never streams without a selected output.
\<close>

theorem service_state_sound:
  "in_fps_target (sv_inner (foldl service_step (Service_new db key) ops)) \<in> {1..240}
   \<and> (is_streaming (foldl service_step (Service_new db key) ops)
      \<longrightarrow> selected_output (foldl service_step (Service_new db key) ops) \<noteq> None)"
  using service_run.run_inv [OF Service_new_inv, of db key ops]
  by (simp add: service_inv_def is_streaming_def selected_output_def)

definition sample_float :: f64_ops where
  "sample_float = \<lparr>fo_add = (+), fo_sub = (-), fo_mul = (\<lambda>a b. a), fo_div = (\<lambda>a b. a), fo_round = id, fo_of_u64 = id,
     fo_secs = of_nat\<rparr>"

definition sample_venv :: svc_env where
  "sample_venv = \<lparr>ve_crypto = sample_crypto, ve_draws = [], ve_salt = None, ve_clock = Some 7, ve_save = sample_env,
     ve_now = 0, ve_float = sample_float\<rparr>"

definition sample_ops :: "service_op list" where
  "sample_ops =
     [OpPublish [\<lparr>si_kind = ''output'', si_name = ''DP-1'', si_width = 2, si_height = 1, si_transform = ''normal''\<rparr>] None,
      OpHandle sample_venv (\<lambda>_. None)
        \<lparr>rq_v = 1, rq_id = ''1'', rq_command = CmdStart \<lparr>sa_output = None, sa_fps = Some 60\<rparr>\<rparr>]"

theorem service_state_sound_witness:
  "is_streaming (foldl service_step (Service_new sample_db ''k'') sample_ops)
   \<and> selected_output (foldl service_step (Service_new sample_db ''k'') sample_ops) \<noteq> None"
proof -
  have "is_streaming (foldl service_step (Service_new sample_db ''k'') sample_ops)"
    by (simp add: sample_ops_def service_handle_def handle_start_def publish_discovery_def Service_new_def
        Inner_default_def reset_metrics_def is_streaming_def)
  then show ?thesis using service_state_sound [of sample_db "''k''" sample_ops] by blast
qed

text \<open>The output a start would capture.\<close>

definition start_target :: "Inner \<Rightarrow> StartArgs \<Rightarrow> string option" where
  "start_target st args =
     (case sa_output args of
        Some want \<Rightarrow> Some want
      | None \<Rightarrow> (case in_selected st of
           Some s \<Rightarrow> Some s
         | None \<Rightarrow> (case in_outputs st of [] \<Rightarrow> None | o1 # _ \<Rightarrow> Some (si_name o1))))"

definition start_admissible :: "Inner \<Rightarrow> StartArgs \<Rightarrow> bool" where
  "start_admissible st args \<longleftrightarrow> \<not> in_streaming st
     \<and> (case sa_output args of None \<Rightarrow> True | Some want \<Rightarrow> want \<in> set (map si_name (in_outputs st)))
     \<and> (case sa_fps args of None \<Rightarrow> True | Some fps \<Rightarrow> fps \<noteq> 0 \<and> fps \<le> 240) \<and> start_target st args \<noteq> None"

lemma handle_start_ok:
  assumes "start_admissible (sv_inner self) args"
  shows "\<exists>self'. handle_start self rid args =
     (ok_response rid (JObj [(''streaming'', JBool True), (''output'', JStr (the (start_target (sv_inner self) args))),
        (''fps'', JInt (unat (case sa_fps args of None \<Rightarrow> in_fps_target (sv_inner self) | Some fps \<Rightarrow> fps)))]), self')
     \<and> is_streaming self' \<and> selected_output self' = start_target (sv_inner self) args
     \<and> in_fps_target (sv_inner self') = (case sa_fps args of None \<Rightarrow> in_fps_target (sv_inner self) | Some fps \<Rightarrow> fps)
     \<and> in_last_error (sv_inner self') = None"
  using assms
  by (auto simp: start_admissible_def start_target_def handle_start_def Let_def reset_metrics_def is_streaming_def
      selected_output_def not_less split: option.splits list.splits if_splits)

lemma handle_start_refused:
  assumes "\<not> start_admissible (sv_inner self) args"
  shows "\<exists>code msg self'. handle_start self rid args = (err_response rid code msg, self')
     \<and> is_streaming self' = is_streaming self"
  using assms
  by (auto simp: start_admissible_def start_target_def handle_start_def Let_def is_streaming_def not_less
      split: option.splits list.splits if_splits)

text \<open>
  Starting: a start is accepted exactly when nothing streams yet, a requested output exists, a requested rate is
  within 1 to 240, and some output is requested, selected before or detected; then the service streams that
  output at that rate with earlier errors cleared and says so.  A refused start changes nothing about
  whether the service streams.
\<close>

theorem start_behaviour:
  "(if start_admissible (sv_inner self) args
    then \<exists>self'. service_handle V f self \<lparr>rq_v = 1, rq_id = rid, rq_command = CmdStart args\<rparr> =
       Some (ok_response rid (JObj [(''streaming'', JBool True), (''output'', JStr (the (start_target (sv_inner self) args))),
        (''fps'', JInt (unat (case sa_fps args of None \<Rightarrow> in_fps_target (sv_inner self) | Some fps \<Rightarrow> fps)))]), self', f)
       \<and> is_streaming self' \<and> selected_output self' = start_target (sv_inner self) args
       \<and> in_last_error (sv_inner self') = None
    else \<exists>code msg self'. service_handle V f self \<lparr>rq_v = 1, rq_id = rid, rq_command = CmdStart args\<rparr> =
       Some (err_response rid code msg, self', f) \<and> is_streaming self' = is_streaming self)"
proof (cases "start_admissible (sv_inner self) args")
  case True
  then show ?thesis using handle_start_ok [OF True, of rid] by (auto simp: service_handle_def)
next
  case False
  obtain code msg self' where "handle_start self rid args = (err_response rid code msg, self')"
      "is_streaming self' = is_streaming self"
    using handle_start_refused [OF False, of rid] by blast
  with False show ?thesis
    by (simp add: service_handle_def) (intro exI [of _ code] exI [of _ msg] refl)
qed

end
