(* ===== verification/Revocation.thy ===== *)
theory Revocation
  imports Service_Model
begin

text \<open>
  How a revocation reaches the live sessions, across \<^verbatim>\<open>pairing.rs\<close>, \<^verbatim>\<open>service.rs\<close> and \<^verbatim>\<open>transport/udp.rs\<close>.  Control
  threads and the engine thread interleave: \<open>sys_step\<close> is one locked section of a control command or one
  action of the engine.  A revocation is two sections, the trust store first and the list the engine
  drains second, so there are states in between.  The invariant says that a revoked device with a session or
  handshake is always scheduled for disconnection; the engine's next turn then removes it.
  The one exception is a revocation that did not finish, because its save failed or its handler panicked, which is
  kept in a history list; the failed save is shown to be a gap in the code.
\<close>

section \<open>Device ids in hex\<close>

text \<open>\<^verbatim>\<open>hex::encode\<close>: two lower-case digits per byte.\<close>

definition two_digits :: "u8 \<Rightarrow> string" where
  "two_digits b = [digit_char_of (unat b div 16), digit_char_of (unat b mod 16)]"

definition hex_two_digits :: "crypto_ext \<Rightarrow> bool" where
  "hex_two_digits X \<longleftrightarrow> (\<forall>bs. hex_encode X bs = concat (map two_digits bs))"

lemma sample_hex_two_digits: "hex_two_digits sample_crypto"
  by (simp add: hex_two_digits_def sample_crypto_def sample_hex_encode_def two_digits_def [abs_def]
      hex_digit_def digit_char_of_def)

lemma nibbles: "unat (b :: u8) div 16 < 16" "unat b mod 16 < 16" "unat b div 16 * 16 + unat b mod 16 = unat b"
  using unat_u8_less [of b] by simp_all

lemma from_str_radix_two_digits: "from_str_radix 16 255 (two_digits b) = Some (unat b)"
proof -
  have "digit_char_of (unat b div 16) \<noteq> CHR ''+''"
    using nibbles(1) [of b] by (auto simp: digit_char_of_def dest!: arg_cong [where f = "of_char :: char \<Rightarrow> nat"])
  moreover have "unat b \<le> 255" using unat_u8_less [of b] by simp
  ultimately show ?thesis using nibbles [of b]
    by (simp add: from_str_radix_def two_digits_def digit_val_digit_char)
qed

lemma two_digits_ascii: "c \<in> set (two_digits b) \<Longrightarrow> \<not> is_cont (byte_of c)"
proof -
  have ascii: "\<not> is_cont (byte_of (digit_char_of n))" if "n < 16" for n
  proof -
    have "n \<in> {0..<16}" using that by simp
    then show ?thesis
      by (auto simp: is_cont_def byte_of_def digit_char_of_def atLeastLessThan_nat_numeral)
  qed
  assume "c \<in> set (two_digits b)"
  then show ?thesis using ascii nibbles [of b] by (auto simp: two_digits_def)
qed

lemma decode_id_loop_hex:
  "i + k \<le> length bs \<Longrightarrow> decode_id_loop (concat (map two_digits bs)) i k = Some (Some (take k (drop i bs)))"
proof (induction k arbitrary: i)
  case (Suc k)
  let ?s = "concat (map two_digits bs)"
  have map: "map two_digits bs = map (\<lambda>i. two_digits (bs ! i)) [0..<length bs]"
    by (rule nth_equalityI) simp_all
  have len: "length ?s = length bs * 2"
    by (simp add: length_concat_same [of bs two_digits 2] two_digits_def)
  have boundary: "is_char_boundary ?s j" if "j \<le> length ?s" for j
  proof (cases "j = length ?s")
    case False
    then have "?s ! j \<in> set ?s" using that by (intro nth_mem) simp
    then show ?thesis using False that two_digits_ascii by (auto simp: is_char_boundary_def)
  qed (simp add: is_char_boundary_def)
  have "slice ?s (i * 2) (i * 2 + 2) = two_digits (bs ! i)"
    unfolding map using Suc.prems by (intro slice_concat_same) (simp_all add: two_digits_def)
  moreover have "decode_id_loop ?s (Suc i) k = Some (Some (take k (drop (Suc i) bs)))"
    using Suc by simp
  moreover have "drop i bs = bs ! i # drop (Suc i) bs" using Suc.prems by (simp add: Cons_nth_drop_Suc)
  ultimately show ?case using boundary [of "i * 2"] boundary [of "i * 2 + 2"] Suc.prems len
    by (simp add: from_str_radix_two_digits)
qed simp

lemma decode_device_id_hex:
  assumes "hex_two_digits X" and "length d = 8"
  shows "decode_device_id (hex_encode X d) = Some (Some d)"
proof -
  have "hex_encode X d = concat (map two_digits d)" using assms(1) by (simp add: hex_two_digits_def)
  moreover have "length (concat (map two_digits d)) = 16"
    using length_concat_same [of d two_digits 2] assms(2) by (simp add: two_digits_def)
  ultimately show ?thesis using decode_id_loop_hex [of 0 8 d] assms(2) by (simp add: decode_device_id_def)
qed

section \<open>The system\<close>

record system =
  sy_service :: Service
  sy_host :: HostEndpoint
  sy_inflight :: "bytes list"
  sy_unsaved :: "string list"

abbreviation sy_db :: "system \<Rightarrow> PairingDb" where
  "sy_db s \<equiv> sv_pairing (sy_service s)"

abbreviation sy_revoked :: "system \<Rightarrow> bytes list" where
  "sy_revoked s \<equiv> in_revoked_pending (sv_inner (sy_service s))"

definition sys_init :: "PairingDb \<Rightarrow> string \<Rightarrow> HostEndpoint \<Rightarrow> system" where
  "sys_init db key host = \<lparr>sy_service = Service_new db key, sy_host = host, sy_inflight = [], sy_unsaved = []\<rparr>"

text \<open>Events of the endpoint the engine causes in a state: packets are judged by the trust store as it is then.\<close>

fun engine_event :: "crypto_ext \<Rightarrow> PairingDb \<Rightarrow> host_event \<Rightarrow> bool" where
  "engine_event X db (HostPacket er nr clk packet from authorized) \<longleftrightarrow> authorized = trust_authorizer X db"
| "engine_event X db (HostDisconnect d) \<longleftrightarrow> False"
| "engine_event X db _ \<longleftrightarrow> True"

inductive sys_step :: "crypto_ext \<Rightarrow> system \<Rightarrow> system \<Rightarrow> bool" for X where
  new_code_step: "new_code X rnds sr clock E f (sy_db s) = Some (r, db, g) \<Longrightarrow>
     sys_step X s (s\<lparr>sy_service := (sy_service s)\<lparr>sv_pairing := db\<rparr>\<rparr>)"
| accept_step: "accept_code X clock E f (sy_db s) inp nm pk = (r, db, g) \<Longrightarrow>
     sys_step X s (s\<lparr>sy_service := (sy_service s)\<lparr>sv_pairing := db\<rparr>\<rparr>)"
| revoke_step: "revoke clock E f (sy_db s) d = (Ok dev, db, g) \<Longrightarrow> decode_device_id (dev_id dev) = Some bs \<Longrightarrow>
     sys_step X s (s\<lparr>sy_service := (sy_service s)\<lparr>sv_pairing := db\<rparr>,
                     sy_inflight := (case bs of None \<Rightarrow> sy_inflight s | Some b \<Rightarrow> b # sy_inflight s)\<rparr>)"
| revoke_fails_step: "revoke clock E f (sy_db s) d = (Err e, db, g) \<Longrightarrow>
     sys_step X s (s\<lparr>sy_service := (sy_service s)\<lparr>sv_pairing := db\<rparr>, sy_unsaved := d # sy_unsaved s\<rparr>)"
| revoke_panics_step: "revoke clock E f (sy_db s) d = (Ok dev, db, g) \<Longrightarrow> decode_device_id (dev_id dev) = None \<Longrightarrow>
     sys_step X s (s\<lparr>sy_service := (sy_service s)\<lparr>sv_pairing := db\<rparr>, sy_unsaved := d # sy_unsaved s\<rparr>)"
| push_step: "sy_inflight s = b # rest \<Longrightarrow>
     sys_step X s (s\<lparr>sy_service := push_revoked (Some b) (sy_service s), sy_inflight := rest\<rparr>)"
| reorder_step: "set fl = set (sy_inflight s) \<Longrightarrow> sys_step X s (s\<lparr>sy_inflight := fl\<rparr>)"
| state_step: "in_revoked_pending i = sy_revoked s \<Longrightarrow>
     sys_step X s (s\<lparr>sy_service := (sy_service s)\<lparr>sv_inner := i, sv_shutdown := sh\<rparr>\<rparr>)"
| drain_step: "take_revoked (sy_service s) = (ids, service) \<Longrightarrow>
     sys_step X s (s\<lparr>sy_service := service, sy_host := disconnect_all ids (sy_host s)\<rparr>)"
| host_event_step: "engine_event X (sy_db s) ev \<Longrightarrow> sys_step X s (s\<lparr>sy_host := host_step X (sy_host s) ev\<rparr>)"

inductive_cases sys_stepE: "sys_step X s s'"

abbreviation sys_run :: "crypto_ext \<Rightarrow> system \<Rightarrow> system \<Rightarrow> bool" where
  "sys_run X \<equiv> (sys_step X)\<^sup>*\<^sup>*"

section \<open>The invariant\<close>

definition scheduled :: "crypto_ext \<Rightarrow> system \<Rightarrow> bool" where
  "scheduled X s \<longleftrightarrow> (\<forall>d. length d = 8 \<and> revoked_in (hex_encode X d) (sy_db s) \<and> \<not> absent d (sy_host s) \<longrightarrow>
     d \<in> set (sy_revoked s) \<or> d \<in> set (sy_inflight s) \<or> hex_encode X d \<in> set (sy_unsaved s))"

definition sys_inv :: "crypto_ext \<Rightarrow> system \<Rightarrow> bool" where
  "sys_inv X s \<longleftrightarrow> db_inv X (sy_db s) \<and> host_inv (sy_host s) \<and> scheduled X s"

lemma revoked_denied:
  assumes "db_inv X db" and "revoked_in (hex_encode X d) db"
  shows "\<not> trust_authorizer X db d key"
proof
  assume "trust_authorizer X db d key"
  then obtain dev where "dev \<in> set (active_devices db)" "dev_id dev = hex_encode X d"
    by (auto simp: trust_authorizer_def list_ex_iff db_devices_list_def active_devices_def)
  then show False using revoked_not_active [OF assms] by blast
qed

interpretation trust: trust_store "trust_authorizer X" "\<lambda>d. revoked_in (hex_encode X d)" "db_inv X" for X
  by unfold_locales (rule revoked_denied)

lemma new_code_revoked_back:
  "new_code X rnds sr clock E f db = Some (r, db', g) \<Longrightarrow> revoked_in d db' = revoked_in d db"
  using new_code_devices [of X rnds sr clock E f db] by (auto simp: revoked_in_def)

lemma accept_revoked_back:
  assumes "accept_code X clock E f db inp nm pk = (r, db', g)" and "revoked_in d db'"
  shows "revoked_in d db"
  using accept_code_devices [OF assms(1)] assms(2) by (auto simp: revoked_in_def split: if_splits)

lemma revoke_revoked_back:
  assumes "revoke clock E f db d' = (r, db', g)" and "revoked_in d db'"
  shows "d = d' \<or> revoked_in d db"
  using revoke_state [OF assms(1)] assms(2) by (auto simp: revoked_in_def split: if_splits)

lemma revoke_Ok_id:
  assumes "db_inv X db" and "revoke clock E f db d = (Ok dev, db', g)"
  shows "dev_id dev = d"
proof -
  obtain dev0 where m: "map_of (db_devices (pdb_db db)) d = Some dev0"
      "dev = dev0\<lparr>dev_revoked := True, dev_revoked_at := Some (now_unix clock)\<rparr>"
    using assms(2) by (auto simp: revoke_def Let_def save_then_def split: option.splits if_splits prod.splits sum.splits)
  have "device_ok X (d, dev0)" using assms(1) map_of_SomeD [OF m(1)] unfolding db_inv_def by blast
  then show ?thesis using m(2) by (simp add: device_ok_def)
qed

lemma disconnect_all_inv: "host_inv h \<Longrightarrow> host_inv (disconnect_all ids h)"
  by (induction ids arbitrary: h) (simp_all add: disconnect_all_def disconnect_inv)

lemma absent_disconnect_other: "absent d h \<Longrightarrow> absent d (snd (disconnect d' h))"
  by (auto simp: absent_def disconnect_def Let_def)

lemma absent_disconnect_all: "absent d h \<or> d \<in> set ids \<Longrightarrow> absent d (disconnect_all ids h)"
  by (induction ids arbitrary: h) (auto simp: disconnect_all_def absent_disconnect absent_disconnect_other)

lemma scheduledD:
  "scheduled X s \<Longrightarrow> length d = 8 \<Longrightarrow> revoked_in (hex_encode X d) (sy_db s) \<Longrightarrow> \<not> absent d (sy_host s) \<Longrightarrow>
   d \<in> set (sy_revoked s) \<or> d \<in> set (sy_inflight s) \<or> hex_encode X d \<in> set (sy_unsaved s)"
  by (simp add: scheduled_def)

lemma scheduledI:
  "(\<And>d. length d = 8 \<Longrightarrow> revoked_in (hex_encode X d) (sy_db s) \<Longrightarrow> \<not> absent d (sy_host s) \<Longrightarrow>
     d \<in> set (sy_revoked s) \<or> d \<in> set (sy_inflight s) \<or> hex_encode X d \<in> set (sy_unsaved s)) \<Longrightarrow> scheduled X s"
  by (simp add: scheduled_def)

lemma engine_event_keeps_out:
  assumes "engine_event X db ev" and "db_inv X db" and "revoked_in (hex_encode X d) db" and "host_inv h" and "absent d h"
  shows "absent d (host_step X h ev)"
  using assms trust.packet_keeps_out [OF assms(2-5)] host_step_absent [OF assms(4,5), of ev X] by (cases ev) auto

lemma sys_step_inv:
  assumes "hex_two_digits X" and "sys_inv X s" and "sys_step X s s'"
  shows "sys_inv X s'"
proof -
  note inv = assms(2) [unfolded sys_inv_def]
  show ?thesis using assms(3)
  proof cases
    case (new_code_step rnds sr clock E f r db g)
    then show ?thesis using inv new_code_inv [OF _ new_code_step(2)] new_code_revoked_back [OF new_code_step(2)]
      by (auto simp: sys_inv_def scheduled_def)
  next
    case (accept_step clock E f inp nm pk r db g)
    then show ?thesis using inv accept_code_inv [OF _ accept_step(2)] accept_revoked_back [OF accept_step(2)]
      by (auto simp: sys_inv_def scheduled_def)
  next
    case (revoke_step clock E f d dev db g bs)
    have id: "dev_id dev = d" using revoke_Ok_id inv revoke_step(2) by blast
    have new: "bs = Some b" if "length b = 8" "hex_encode X b = d" for b
      using decode_device_id_hex [OF assms(1) that(1)] revoke_step(3) id that(2) by simp
    show ?thesis using revoke_step(1) inv revoke_inv [OF _ revoke_step(2)] revoke_revoked_back [OF revoke_step(2)] new
      by (auto simp: sys_inv_def scheduled_def split: option.splits)
  next
    case (revoke_fails_step clock E f d e db g)
    then show ?thesis using inv revoke_inv [OF _ revoke_fails_step(2)] revoke_revoked_back [OF revoke_fails_step(2)]
      by (auto simp: sys_inv_def scheduled_def)
  next
    case (revoke_panics_step clock E f d dev db g)
    then show ?thesis using inv revoke_inv [OF _ revoke_panics_step(2)] revoke_revoked_back [OF revoke_panics_step(2)]
      by (auto simp: sys_inv_def scheduled_def)
  next
    case (push_step b rest)
    then show ?thesis using inv by (auto simp: sys_inv_def scheduled_def push_revoked_def)
  next
    case (reorder_step fl)
    then show ?thesis using inv by (auto simp: sys_inv_def scheduled_def)
  next
    case (state_step i sh)
    then show ?thesis using inv by (auto simp: sys_inv_def scheduled_def)
  next
    case (drain_step ids service)
    then show ?thesis using inv disconnect_all_inv absent_disconnect_all
      by (fastforce simp: sys_inv_def scheduled_def take_revoked_def)
  next
    case (host_event_step ev)
    have "absent d (host_step X (sy_host s) ev)" if "revoked_in (hex_encode X d) (sy_db s)" "absent d (sy_host s)" for d
      using engine_event_keeps_out host_event_step(2) inv that by blast
    then show ?thesis using host_event_step(1) inv host_step_inv
      by (auto simp: sys_inv_def scheduled_def)
  qed
qed

interpretation sys: invariant_relation "sys_step X" "\<lambda>s. hex_two_digits X \<and> sys_inv X s" for X
  by unfold_locales (blast intro: sys_step_inv)

lemma sys_run_inv: "sys_run X s s' \<Longrightarrow> hex_two_digits X \<Longrightarrow> sys_inv X s \<Longrightarrow> sys_inv X s'"
  using sys.reach_inv by blast

lemma sys_init_inv:
  assumes "db_inv X db" and "HostEndpoint_bind io ident = Ok host"
  shows "sys_inv X (sys_init db key host)"
proof -
  have "absent d host" for d
    using assms(2) by (auto simp: HostEndpoint_bind_def absent_def split: option.splits if_splits)
  then show ?thesis using assms bind_inv
    by (auto simp: sys_inv_def sys_init_def Service_new_def scheduled_def)
qed

section \<open>Commands and turns are runs of the system\<close>

text \<open>The turn of the engine is a drain, the datagrams one by one, and a report of the peer count.\<close>

lemma sys_run_host_event:
  assumes "engine_event X (sy_db s) ev" and "sys_run X (s\<lparr>sy_host := host_step X (sy_host s) ev\<rparr>) s'"
  shows "sys_run X s s'"
  by (rule converse_rtranclp_into_rtranclp [where r = "sys_step X", OF host_event_step [OF assms(1)] assms(2)])

lemma host_step_packet:
  "handle_packet X er nr clk h packet from authorized = Some (out, h') \<Longrightarrow>
   host_step X h (HostPacket er nr clk packet from authorized) = h'"
  by simp

lemma pump_loop_run:
  assumes "pump_loop X n left env host (\<lambda>_. trust_authorizer X (sy_db s)) = Some (r, host', sent)" and "sy_host s = host"
  shows "sys_run X s (s\<lparr>sy_host := host'\<rparr>)"
  using assms
proof (induction left arbitrary: n host host' sent s r)
  case 0
  have "s = s\<lparr>sy_host := host'\<rparr>" using 0 by simp
  then show ?case by (metis rtranclp.rtrancl_refl)
next
  case (Suc left)
  let ?io = "env n" and ?auth = "trust_authorizer X (sy_db s)"
  let ?h1 = "prune_pending (pio_now ?io) host"
  let ?s1 = "s\<lparr>sy_host := ?h1\<rparr>"
  have prune: "sys_run X s s'" if "sys_run X ?s1 s'" for s'
    using sys_run_host_event [of X s "HostPrune (pio_now ?io)" s'] that Suc.prems(2) by simp
  show ?case
  proof (cases "pio_recv ?io")
    case (Datagram buf addr)
    then obtain out h2 where pkt: "handle_packet X (pio_eph ?io) (pio_nonce ?io) (pio_clk ?io) ?h1 (take MAX_DATAGRAM buf) addr ?auth
        = Some (out, h2)"
      using Suc.prems(1) by (auto simp: Let_def split: option.splits)
    let ?s2 = "?s1\<lparr>sy_host := h2\<rparr>"
    have packet: "sys_run X s s'" if "sys_run X ?s2 s'" for s'
      using sys_run_host_event [of X ?s1 "HostPacket (pio_eph ?io) (pio_nonce ?io) (pio_clk ?io) (take MAX_DATAGRAM buf) addr ?auth" s']
        host_step_packet [OF pkt] that prune by simp
    have "h2 = host' \<or> (\<exists>r sent. pump_loop X (Suc n) left env h2 (\<lambda>_. ?auth) = Some (r, host', sent))"
      using Suc.prems(1) pkt Datagram by (auto simp: Let_def split: HostOutcome.splits option.splits prod.splits)
    then show ?thesis
    proof (elim disjE exE)
      assume "h2 = host'"
      then show ?thesis using packet [of ?s2] by simp
    next
      fix r sent assume "pump_loop X (Suc n) left env h2 (\<lambda>_. ?auth) = Some (r, host', sent)"
      then have "sys_run X ?s2 (?s2\<lparr>sy_host := host'\<rparr>)" by (intro Suc.IH) simp_all
      then show ?thesis using packet by simp
    qed
  qed (use Suc.prems prune [of ?s1] in \<open>auto simp: Let_def\<close>)
qed

text \<open>A device that is revoked and out stays out during the pump.\<close>

lemma pump_keeps_out:
  assumes "pump_loop X n left env host (\<lambda>_. trust_authorizer X db) = Some (r, host', sent)"
    and "db_inv X db" and "revoked_in (hex_encode X d) db" and "host_inv host" and "absent d host"
  shows "absent d host'"
proof -
  have keep: "host_inv (host_step X h ev) \<and> absent d (host_step X h ev)" if "engine_event X db ev" "host_inv h" "absent d h" for h ev
    using engine_event_keeps_out [OF that(1) assms(2,3) that(2,3)] host_step_inv [OF that(2)] by blast
  show ?thesis
    using assms(1,4,5)
  proof (induction left arbitrary: n host r sent)
    case (Suc left)
    let ?io = "env n"
    let ?h1 = "prune_pending (pio_now ?io) host"
    have h1: "host_inv ?h1" "absent d ?h1" using keep [of "HostPrune (pio_now ?io)" host] Suc.prems(2,3) by simp_all
    show ?case
    proof (cases "pio_recv ?io")
      case (Datagram buf addr)
      then obtain out h2 where pkt: "handle_packet X (pio_eph ?io) (pio_nonce ?io) (pio_clk ?io) ?h1 (take MAX_DATAGRAM buf) addr
          (trust_authorizer X db) = Some (out, h2)"
        using Suc.prems(1) by (auto simp: Let_def split: option.splits)
      have h2: "host_inv h2" "absent d h2"
        using keep [OF _ h1, of "HostPacket (pio_eph ?io) (pio_nonce ?io) (pio_clk ?io) (take MAX_DATAGRAM buf) addr (trust_authorizer X db)"]
          host_step_packet [OF pkt] by simp_all
      have "h2 = host' \<or> (\<exists>r sent. pump_loop X (Suc n) left env h2 (\<lambda>_. trust_authorizer X db) = Some (r, host', sent))"
        using Suc.prems(1) pkt Datagram by (auto simp: Let_def split: HostOutcome.splits option.splits prod.splits)
      with Suc.IH h2 show ?thesis by blast
    qed (use Suc.prems h1 in \<open>auto simp: Let_def\<close>)
  qed simp
qed

lemma sys_update_commute: "s\<lparr>sy_host := h, sy_service := v\<rparr> = s\<lparr>sy_service := v, sy_host := h\<rparr>"
  by (cases s) simp

lemma serve_transport_run:
  assumes "serve_transport X env (sy_service s) (sy_host s) last_peers encoder = Some (service', host', n, enc', sent)"
  shows "\<exists>s1. sys_step X s s1 \<and> s1 = s\<lparr>sy_service := snd (take_revoked (sy_service s)),
                 sy_host := disconnect_all (sy_revoked s) (sy_host s)\<rparr>
           \<and> sys_run X s1 (s\<lparr>sy_service := service', sy_host := host'\<rparr>)"
proof -
  let ?service = "snd (take_revoked (sy_service s))"
  let ?s1 = "s\<lparr>sy_service := ?service, sy_host := disconnect_all (sy_revoked s) (sy_host s)\<rparr>"
  have drain: "sys_step X s ?s1"
    by (rule drain_step [of s "sy_revoked s" ?service X]) (simp add: take_revoked_def)
  obtain r where "HostEndpoint_pump X 16 env (disconnect_all (sy_revoked s) (sy_host s)) (\<lambda>_. trust_authorizer X (sy_db ?s1)) = Some (r, host', sent)"
      and service': "service' = set_stream_peers ?service (peer_count host')"
    using assms by (auto simp: serve_transport_def take_revoked_def Let_def split: option.splits)
  then have "sys_run X ?s1 (?s1\<lparr>sy_host := host'\<rparr>)" by (intro pump_loop_run) (simp_all add: HostEndpoint_pump_def)
  moreover have "sys_step X (?s1\<lparr>sy_host := host'\<rparr>) (s\<lparr>sy_service := service', sy_host := host'\<rparr>)"
    using state_step [of "(sv_inner ?service)\<lparr>in_stream_peers := peer_count host'\<rparr>" "?s1\<lparr>sy_host := host'\<rparr>" X "sv_shutdown ?service"]
    by (simp add: service' set_stream_peers_def sys_update_commute)
  ultimately show ?thesis using drain by (meson rtranclp.rtrancl_into_rtrancl)
qed

text \<open>A control command handled without interference is a run as well.\<close>

lemma service_handle_run:
  assumes "service_handle V f (sy_service s) req = Some (r, service', g)" and "ve_crypto V = X"
  shows "\<exists>u. sys_run X s (s\<lparr>sy_service := service', sy_unsaved := u\<rparr>)"
proof -
  have same: "s = s\<lparr>sy_service := sy_service s, sy_unsaved := sy_unsaved s\<rparr>" by simp
  have inner: "\<exists>u. sys_run X s (s\<lparr>sy_service := (sy_service s)\<lparr>sv_inner := i\<rparr>, sy_unsaved := u\<rparr>)"
    if "in_revoked_pending i = sy_revoked s" for i
    using state_step [OF that, of X "sv_shutdown (sy_service s)"]
    by (intro exI [of _ "sy_unsaved s"] r_into_rtranclp) simp
  have stay: "\<exists>u. sys_run X s (s\<lparr>sy_service := sy_service s, sy_unsaved := u\<rparr>)"
    using same by (metis rtranclp.rtrancl_refl)
  have db: "\<exists>u. sys_run X s (s\<lparr>sy_service := (sy_service s)\<lparr>sv_pairing := db\<rparr>, sy_unsaved := u\<rparr>)"
    if "sys_step X s (s\<lparr>sy_service := (sy_service s)\<lparr>sv_pairing := db\<rparr>\<rparr>)" for db
    using that by (intro exI [of _ "sy_unsaved s"] r_into_rtranclp) simp
  show ?thesis
  proof (cases "rq_command req")
    case (CmdStart args)
    have "\<exists>i. snd (handle_start (sy_service s) (rq_id req) args) = (sy_service s)\<lparr>sv_inner := i\<rparr> \<and> in_revoked_pending i = sy_revoked s"
      by (intro exI [of _ "sv_inner (snd (handle_start (sy_service s) (rq_id req) args))"])
         (auto simp: handle_start_def Let_def reset_metrics_def split: option.splits)
    then show ?thesis using CmdStart assms(1) inner by (auto simp: service_handle_def split: prod.splits)
  next
    case CmdStop
    then show ?thesis using assms(1) inner by (auto simp: service_handle_def handle_stop_def Let_def)
  next
    case (CmdSelect args)
    then show ?thesis using assms(1) inner stay by (cases "sel_targets args") (auto simp: service_handle_def handle_select_def Let_def)
  next
    case (CmdPair args)
    then have "service' = sy_service s \<or> (\<exists>db. service' = (sy_service s)\<lparr>sv_pairing := db\<rparr>
        \<and> sys_step X s (s\<lparr>sy_service := (sy_service s)\<lparr>sv_pairing := db\<rparr>\<rparr>))"
      using assms by (auto simp: service_handle_def handle_pair_def Let_def intro: new_code_step accept_step
          split: PairAction.splits option.splits prod.splits)
    then show ?thesis using stay db by auto
  next
    case (CmdRevoke args)
    obtain o1 db f' where rev: "revoke (ve_clock V) (ve_save V) f (sy_db s) (ra_device args) = (o1, db, f')" using prod_cases3 by blast
    show ?thesis
    proof (cases o1)
      case (Inl e)
      then have "sys_step X s (s\<lparr>sy_service := service', sy_unsaved := ra_device args # sy_unsaved s\<rparr>)"
        using revoke_fails_step [of "ve_clock V" "ve_save V" f s "ra_device args" e db f' X] CmdRevoke assms(1) rev
        by (simp add: service_handle_def handle_revoke_def)
      then show ?thesis by blast
    next
      case (Inr dev)
      then obtain bs where bs: "decode_device_id (dev_id dev) = Some bs"
          and service': "service' = push_revoked bs ((sy_service s)\<lparr>sv_pairing := db\<rparr>)"
        using CmdRevoke assms(1) rev by (auto simp: service_handle_def handle_revoke_def split: option.splits)
      let ?fl = "case bs of None \<Rightarrow> sy_inflight s | Some b \<Rightarrow> b # sy_inflight s"
      let ?s1 = "s\<lparr>sy_service := (sy_service s)\<lparr>sv_pairing := db\<rparr>, sy_inflight := ?fl\<rparr>"
      have first: "sys_step X s ?s1" using revoke_step [of "ve_clock V" "ve_save V" f s _ dev db f' bs X] rev Inr bs by simp
      show ?thesis
      proof (cases bs)
        case None
        with first service' show ?thesis by (intro exI [of _ "sy_unsaved s"]) (simp add: push_revoked_def r_into_rtranclp)
      next
        case (Some b)
        have "sys_step X ?s1 (s\<lparr>sy_service := service', sy_unsaved := sy_unsaved s\<rparr>)"
          using push_step [of ?s1 b "sy_inflight s" X] Some service' by simp
        with first show ?thesis by (meson converse_rtranclp_into_rtranclp r_into_rtranclp)
      qed
    qed
  qed (use assms(1) stay in \<open>auto simp: service_handle_def\<close>)
qed

section \<open>Properties\<close>

lemma turn_removes_revoked:
  assumes "hex_two_digits X" and "sys_inv X s" and "sy_inflight s = []"
    and "serve_transport X env (sy_service s) (sy_host s) n enc = Some (service', host', n', enc', sent)"
    and "length d = 8" and "revoked_in (hex_encode X d) (sy_db s)" and "hex_encode X d \<notin> set (sy_unsaved s)"
  shows "absent d host'"
proof -
  let ?s' = "s\<lparr>sy_service := service', sy_host := host'\<rparr>"
  have "sys_run X s ?s'" using serve_transport_run [OF assms(4)] by (meson converse_rtranclp_into_rtranclp)
  then have "scheduled X ?s'" using sys_run_inv [OF _ assms(1,2)] by (simp add: sys_inv_def)
  moreover have "sv_pairing service' = sy_db s" "in_revoked_pending (sv_inner service') = []"
    using assms(4) by (auto simp: serve_transport_def take_revoked_def set_stream_peers_def Let_def split: option.splits)
  ultimately show ?thesis using assms(3,5-7) scheduledD [of X ?s' d] by auto
qed

lemma turn_removes_queued:
  assumes "serve_transport X env service host n enc = Some (service', host', n', enc', sent)"
    and "db_inv X (sv_pairing service)" and "host_inv host"
    and "d \<in> set (in_revoked_pending (sv_inner service))" and "revoked_in (hex_encode X d) (sv_pairing service)"
  shows "absent d host'"
proof -
  let ?h = "disconnect_all (in_revoked_pending (sv_inner service)) host"
  obtain r where "HostEndpoint_pump X 16 env ?h (\<lambda>_. trust_authorizer X (sv_pairing service)) = Some (r, host', sent)"
    using assms(1) by (auto simp: serve_transport_def take_revoked_def Let_def split: option.splits)
  then show ?thesis unfolding HostEndpoint_pump_def
    by (rule pump_keeps_out [OF _ assms(2,5) disconnect_all_inv [OF assms(3)]]) (simp add: absent_disconnect_all assms(4))
qed

text \<open>
  C25 A revocation ends the live sessions: from a fresh daemon, after any interleaving of control commands (codes
  issued and redeemed, devices revoked, streams started) with the engine's work, and with no revocation
  between its two locked sections, the engine's next turn leaves no session and no handshake of any device
  that is revoked in the trust store, whatever datagrams arrive during that turn; the only exception are
  devices whose revocation was reported to have failed.
\<close>

theorem revocation_reaches_sessions:
  assumes "hex_two_digits X" and "db_inv X db" and "HostEndpoint_bind io ident = Ok host"
    and "sys_run X (sys_init db key host) s" and "sy_inflight s = []"
    and "serve_transport X env (sy_service s) (sy_host s) n enc = Some (service', host', n', enc', sent)"
    and "length d = 8" and "revoked_in (hex_encode X d) (sy_db s)" and "hex_encode X d \<notin> set (sy_unsaved s)"
  shows "d \<notin> set (peer_ids host') \<and> (\<forall>(a, p) \<in> set (pending host'). pn_device_id p \<noteq> d)"
proof -
  have "sys_inv X s" using sys_run_inv [OF assms(4,1) sys_init_inv [OF assms(2,3)]] .
  from turn_removes_revoked [OF assms(1) this assms(5-9)] show ?thesis
    by (auto simp: absent_def peer_ids_def dest: weak_map_of_SomeI)
qed

definition sample_quiet :: "nat \<Rightarrow> pump_io" where
  "sample_quiet = (\<lambda>_. \<lparr>pio_now = 0, pio_recv = RecvRetry, pio_clk = (\<lambda>_. 0), pio_eph = None, pio_nonce = None, pio_send = None\<rparr>)"

lemma sample_device_hex: "dev_id sample_device = hex_encode sample_crypto (as_bytes ''emersia/'')"
  by (simp add: sample_device_def derive_device_id_def sample_crypto_def pad32_def as_bytes_def)

theorem revocation_reaches_sessions_witness:
  "\<exists>s service' host' n' sent. sys_run sample_crypto (sys_init sample_paired ''k'' sample_host) s
     \<and> revoked_in (hex_encode sample_crypto (as_bytes ''emersia/'')) (sy_db s)
     \<and> serve_transport sample_crypto sample_quiet (sy_service s) (sy_host s) 0 (None :: unit option)
         = Some (service', host', n', None, sent)
     \<and> as_bytes ''emersia/'' \<notin> set (peer_ids host')"
proof -
  let ?d = "as_bytes ''emersia/''" and ?X = sample_crypto
  let ?init = "sys_init sample_paired ''k'' sample_host"
  have dev: "map_of (db_devices (pdb_db sample_paired)) (dev_id sample_device) = Some sample_device" "\<not> dev_revoked sample_device"
    by (simp_all add: sample_paired_def sample_device_def)
  obtain dev' db g where rev: "revoke (Some 9) sample_env (\<lambda>_. None) sample_paired (dev_id sample_device) = (Ok dev', db, g)"
    using sample_revoke by blast
  have hex: "decode_device_id (hex_encode ?X ?d) = Some (Some ?d)"
    using decode_device_id_hex [OF sample_hex_two_digits] by (simp add: as_bytes_def)
  have id: "dev_id dev' = hex_encode ?X ?d"
    using revoke_Ok_id [OF sample_paired_inv rev] sample_device_hex by simp
  let ?mid = "?init\<lparr>sy_service := (sy_service ?init)\<lparr>sv_pairing := db\<rparr>, sy_inflight := [?d]\<rparr>"
  let ?fin = "?mid\<lparr>sy_service := push_revoked (Some ?d) (sy_service ?mid), sy_inflight := []\<rparr>"
  have "sys_step ?X ?init ?mid"
    using revoke_step [of "Some 9" sample_env "\<lambda>_. None" ?init "dev_id sample_device" dev' db g "Some ?d" ?X] rev id hex
    by (simp add: sys_init_def Service_new_def)
  moreover have "sys_step ?X ?mid ?fin" using push_step [of ?mid ?d "[]" ?X] by simp
  ultimately have run: "sys_run ?X ?init ?fin" by (meson converse_rtranclp_into_rtranclp r_into_rtranclp)
  have revoked: "revoked_in (hex_encode ?X ?d) (sy_db ?fin)"
    using rev dev sample_device_hex
    by (auto simp: revoke_def Let_def revoked_in_def split: option.splits if_splits dest!: save_then_Ok)
  obtain service' host' n' sent where turn:
    "serve_transport ?X sample_quiet (sy_service ?fin) (sy_host ?fin) 0 (None :: unit option) = Some (service', host', n', None, sent)"
    by (auto simp: serve_transport_def take_revoked_def HostEndpoint_pump_def sample_quiet_def Let_def numeral_eq_Suc)
  from revocation_reaches_sessions [OF sample_hex_two_digits sample_paired_inv sample_bind run _ turn _ revoked]
  have "?d \<notin> set (peer_ids host')" by (simp add: sys_init_def as_bytes_def)
  then show ?thesis using run revoked turn by blast
qed

text \<open>
  C29 A revocation that cannot be saved keeps the session alive: the device is marked revoked in memory, the command
  reports an internal error, but nothing is scheduled for the engine; and revoking again only answers that no
  such device exists and schedules nothing either, so the live session outlasts every further attempt.
\<close>

theorem unsaved_revocation_keeps_session:
  assumes "map_of (db_devices (pdb_db (sv_pairing self))) d = Some dev" and "\<not> dev_revoked dev"
    and "\<forall>db. \<exists>e. fst (db_save (ve_save V) f db) = Err (PairingIo e)"
  shows "\<exists>e self' g. handle_revoke V f self rid \<lparr>ra_device = d\<rparr> = Some (err_response rid Internal (PairingError_display e), self', g)
     \<and> revoked_in d (sv_pairing self') \<and> sv_inner self' = sv_inner self
     \<and> handle_revoke V' g' self' rid' \<lparr>ra_device = d\<rparr>
         = Some (err_response rid' NotFoundCode (PairingError_display (NotFound d)), self', g')"
proof -
  let ?dev = "dev\<lparr>dev_revoked := True, dev_revoked_at := Some (now_unix (ve_clock V))\<rparr>"
  let ?db = "(sv_pairing self)\<lparr>pdb_db := (pdb_db (sv_pairing self))\<lparr>db_devices := bt_insert d ?dev (db_devices (pdb_db (sv_pairing self)))\<rparr>\<rparr>"
  obtain e g where save: "db_save (ve_save V) f ?db = (Err (PairingIo e), g)" using assms(3) by (metis prod.collapse)
  have rev: "revoke (ve_clock V) (ve_save V) f (sv_pairing self) d = (Err (PairingIo e), ?db, g)"
    using assms(1,2) save by (simp add: revoke_def Let_def save_then_def)
  have again: "revoke (ve_clock V') (ve_save V') g' ?db d = (Err (NotFound d), ?db, g')"
    by (simp add: revoke_def Let_def)
  have "revoked_in d ?db" by (simp add: revoked_in_def)
  then show ?thesis
    by (intro exI [of _ "PairingIo e"] exI [of _ "self\<lparr>sv_pairing := ?db\<rparr>"] exI [of _ g])
       (simp add: handle_revoke_def rev again)
qed

definition failing_venv :: svc_env where
  "failing_venv = sample_venv\<lparr>ve_save := sample_env\<lparr>se_io := (\<lambda>_. Some ''disk full'')\<rparr>\<rparr>"

theorem unsaved_revocation_keeps_session_witness:
  "\<exists>e self' g. handle_revoke failing_venv (\<lambda>_. None) (Service_new sample_paired ''k'') ''1'' \<lparr>ra_device = dev_id sample_device\<rparr>
       = Some (err_response ''1'' Internal (PairingError_display e), self', g)
     \<and> revoked_in (dev_id sample_device) (sv_pairing self') \<and> in_revoked_pending (sv_inner self') = []"
proof -
  have "fst (db_save (ve_save failing_venv) (\<lambda>_. None) db) = Err (PairingIo ''disk full'')" for db
    by (simp add: failing_venv_def sample_venv_def sample_env_def sample_codec_def db_save_def PairingDb_save_def write_tmp_def Let_def)
  moreover have "map_of (db_devices (pdb_db (sv_pairing (Service_new sample_paired ''k'')))) (dev_id sample_device) = Some sample_device"
      "\<not> dev_revoked sample_device"
    by (simp_all add: Service_new_def sample_paired_def sample_device_def)
  ultimately obtain e self' g where
      "handle_revoke failing_venv (\<lambda>_. None) (Service_new sample_paired ''k'') ''1'' \<lparr>ra_device = dev_id sample_device\<rparr>
        = Some (err_response ''1'' Internal (PairingError_display e), self', g)"
      "revoked_in (dev_id sample_device) (sv_pairing self')" "sv_inner self' = sv_inner (Service_new sample_paired ''k'')"
    using unsaved_revocation_keeps_session [of "Service_new sample_paired ''k''" "dev_id sample_device" sample_device
        failing_venv "\<lambda>_. None" "''1''" sample_venv "\<lambda>_. None" "''2''"] by blast
  then show ?thesis by (auto simp: Service_new_def Inner_default_def)
qed

end
