(* ===== verification/Engine_Model.thy ===== *)
theory Engine_Model
  imports Encoder_Model Revocation
begin

text \<open>
  The capture engine of \<^verbatim>\<open>service.rs\<close>: discovery and reconnection of the Wayland session, starting the
  encoder for the captured geometry, and the loop of \<^verbatim>\<open>run_engine\<close> that serves the transport, captures,
  encodes and ships access units to every connected device.

  One turn of the loop is a function of what it observes (\<open>turn_view\<close>).  Other threads change the
  shared service between any two of the engine's accesses: \<open>tv_others p\<close> are their locked sections before the
  access at \<open>p\<close>, in particular before each datagram is judged by the trust store.  Messages the encoder's
  reader thread sends while a turn drains the channel are taken by the next turn.  \<open>None\<close> is a turn that
  does not come back.
\<close>

section \<open>Errors of the connection\<close>

text \<open>What an error chain can hold: a dispatch error, a Wayland error, or anything else.\<close>

datatype WaylandError = Protocol_error | Io_error
datatype error_source = DispatchBackend WaylandError | DispatchOther | WaylandSource WaylandError | OtherSource

definition is_wayland_protocol_error :: "error_source list \<Rightarrow> bool" where
  "is_wayland_protocol_error chain =
     list_ex (\<lambda>source. source = DispatchBackend Protocol_error \<or> source = WaylandSource Protocol_error) chain"

section \<open>The engine\<close>

text \<open>The \<^verbatim>\<open>f64\<close> operations of the engine beyond those of the telemetry.\<close>

record f64_engine_ops = f64_ops +
  fo_le :: "f64 \<Rightarrow> f64 \<Rightarrow> bool"
  fo_max :: "f64 \<Rightarrow> f64 \<Rightarrow> f64"
  fo_as_u32 :: "f64 \<Rightarrow> u32"

definition f64_0_8 :: f64 where "f64_0_8 = 0x3FE999999999999A"
definition f64_0_2 :: f64 where "f64_0_2 = 0x3FC999999999999A"

text \<open>The connection and its event queue are observed where the code asks them.\<close>

record Engine =
  eg_protocol_failed :: bool
  eg_state :: State
  eg_backend_pref :: BackendPref
  eg_transport :: "HostEndpoint option"
  eg_encoder :: "Encoder option"
  eg_encoder_choice :: EncoderChoice
  eg_bitrate :: u32
  eg_codec :: Codec
  eg_measured_fps :: f64
  eg_output :: proxy
  eg_transform :: Transform
  eg_backend :: Backend
  eg_backend_name :: string
  eg_screens :: "ScreenInfo list"

definition with_stream_port ::
  "(nat \<Rightarrow> string option) \<Rightarrow> Engine \<Rightarrow> u16 option \<Rightarrow> DeviceIdentity \<Rightarrow> string + Engine" where
  "with_stream_port io self port identity =
     (case port of
        None \<Rightarrow> Ok (self\<lparr>eg_transport := None\<rparr>)
      | Some port \<Rightarrow>
         (case HostEndpoint_bind io identity of
            Inl e \<Rightarrow> Err (''could not bind UDP port '' @ show_nat (unat port) @ '': '' @ e)
          | Inr host \<Rightarrow> Ok (self\<lparr>eg_transport := Some host\<rparr>)))"

definition wayland_protocol_failed :: "bool \<Rightarrow> Engine \<Rightarrow> bool" where
  "wayland_protocol_failed connection_error self \<longleftrightarrow> eg_protocol_failed self \<or> connection_error"

definition latch_protocol_failure :: "bool \<Rightarrow> error_source list \<Rightarrow> Engine \<Rightarrow> bool \<times> Engine" where
  "latch_protocol_failure connection_error chain self =
     (let self = self\<lparr>eg_protocol_failed := eg_protocol_failed self \<or> is_wayland_protocol_error chain\<rparr>
      in (wayland_protocol_failed connection_error self, self))"

definition with_encoder :: "Engine \<Rightarrow> EncoderChoice \<Rightarrow> u32 option \<Rightarrow> Engine" where
  "with_encoder self choice bitrate =
     (let self = self\<lparr>eg_encoder_choice := choice\<rparr>
      in case bitrate of Some b \<Rightarrow> self\<lparr>eg_bitrate := b\<rparr> | None \<Rightarrow> self)"

definition note_capture :: "f64_engine_ops \<Rightarrow> Engine \<Rightarrow> nat \<Rightarrow> Engine" where
  "note_capture F self since_last =
     (let instant = fo_secs F since_last
      in if fo_le F instant f64_0 then self
         else let sample = fo_div F f64_1 instant
              in self\<lparr>eg_measured_fps :=
                        (if fo_le F (eg_measured_fps self) f64_0 then sample
                         else fo_add F (fo_mul F (eg_measured_fps self) f64_0_8) (fo_mul F sample f64_0_2))\<rparr>)"

text \<open>What discovery observes: failures of the connection and of the two round trips, and the events they dispatch.\<close>

record DiscoverView =
  dv_connect_error :: "string option"
  dv_globals :: "wl_event list"
  dv_globals_error :: "string option"
  dv_outputs :: "wl_event list"
  dv_outputs_error :: "string option"

definition discover :: "DiscoverView \<Rightarrow> BackendPref \<Rightarrow> string + Engine" where
  "discover v pref =
     (case dv_connect_error v of
        Some e \<Rightarrow> Err (''failed to connect to a Wayland compositor (is WAYLAND_DISPLAY set?): '' @ e)
      | None \<Rightarrow>
     (case dv_globals_error v of
        Some e \<Rightarrow> Err (''failed while enumerating Wayland globals: '' @ e)
      | None \<Rightarrow>
     (case dv_outputs_error v of
        Some e \<Rightarrow> Err (''failed while reading output descriptions: '' @ e)
      | None \<Rightarrow>
         (let state = foldl dispatch (foldl dispatch State_new (dv_globals v)) (dv_outputs v);
              labels = output_labels state;
              has_ext = st_ext_source_mgr state \<noteq> None \<and> st_ext_copy_mgr state \<noteq> None;
              has_wlr = st_wlr_mgr state \<noteq> None
          in case choose_backend pref has_ext has_wlr of
               Inl e \<Rightarrow> Err e
             | Inr backend \<Rightarrow>
                (case select_output labels None of
                   Inl e \<Rightarrow> Err e
                 | Inr index \<Rightarrow> Ok
                    \<lparr>eg_protocol_failed = False, eg_state = state, eg_backend_pref = pref, eg_transport = None,
                     eg_encoder = None, eg_encoder_choice = Auto, eg_bitrate = ec_bitrate EncoderConfig_default,
                     eg_codec = H264, eg_measured_fps = f64_0, eg_output = oi_proxy (st_outputs state ! index),
                     eg_transform = oi_transform (st_outputs state ! index), eg_backend = backend,
                     eg_backend_name = protocol_name backend, eg_screens = screen_infos state\<rparr>)))))"

definition set_output :: "Engine \<Rightarrow> string \<Rightarrow> (string + unit) \<times> Engine" where
  "set_output self name =
     (case select_output (output_labels (eg_state self)) (Some name) of
        Inl e \<Rightarrow> (Err e, self)
      | Inr index \<Rightarrow>
         (let info = st_outputs (eg_state self) ! index
          in (Ok (), self\<lparr>eg_output := oi_proxy info, eg_transform := oi_transform info,
                          eg_screens := screen_infos (eg_state self)\<rparr>)))"

definition reconnect :: "DiscoverView \<Rightarrow> Engine \<Rightarrow> string option \<Rightarrow> (string + string option) \<times> Engine" where
  "reconnect v self selected =
     (let self = self\<lparr>eg_encoder := None\<rparr>
      in case discover v (eg_backend_pref self) of
           Inl e \<Rightarrow> (Err e, self)
         | Inr fresh \<Rightarrow>
            (let (restored, fresh) =
                   (case selected of
                      None \<Rightarrow> (None, fresh)
                    | Some name \<Rightarrow>
                       (case set_output fresh name of
                          (Inr _, fresh) \<Rightarrow> (Some name, fresh)
                        | (Inl _, fresh) \<Rightarrow> (None, fresh)))
             in (Ok restored,
                 fresh\<lparr>eg_transport := eg_transport self, eg_encoder_choice := eg_encoder_choice self,
                       eg_bitrate := eg_bitrate self, eg_codec := eg_codec self\<rparr>)))"

definition effective_fps :: "f64_engine_ops \<Rightarrow> u32 \<Rightarrow> f64 \<Rightarrow> u32" where
  "effective_fps F target_fps measured_fps =
     (if fo_le F f64_1 measured_fps
      then min (max (fo_as_u32 F (fo_round F measured_fps)) 1) (max target_fps 1)
      else max target_fps 1)"

definition keeps_encoder :: "Encoder \<Rightarrow> u32 \<Rightarrow> u32 \<Rightarrow> u32 \<Rightarrow> bool" where
  "keeps_encoder enc width height effective \<longleftrightarrow>
     ec_width (enc_config enc) = width \<and> ec_height (enc_config enc) = height
     \<and> \<bar>uint (ec_fps (enc_config enc)) - uint effective\<bar> \<le> max (uint effective div 4) 1"

definition saturating_double :: "u32 \<Rightarrow> u32" where
  "saturating_double w = (if unat w * 2 \<le> u32_max then w * 2 else - 1)"

definition ensure_encoder ::
  "f64_engine_ops \<Rightarrow> (Candidate \<Rightarrow> SpawnView) \<Rightarrow> Engine \<Rightarrow> u32 \<Rightarrow> u32 \<Rightarrow> u32 \<Rightarrow> f64 \<Rightarrow> (EncoderError + bool) \<times> Engine" where
  "ensure_encoder F views self width height target_fps measured_fps =
     (let effective = effective_fps F target_fps measured_fps;
          running = (case eg_encoder self of Some enc \<Rightarrow> keeps_encoder enc width height effective | None \<Rightarrow> False)
      in if running then (Ok True, self)
         else
           (let self = self\<lparr>eg_encoder := None\<rparr>;
                config = \<lparr>ec_choice = eg_encoder_choice self, ec_codec = eg_codec self, ec_bitrate = eg_bitrate self,
                          ec_gop = max (saturating_double effective) 1, ec_fps = effective,
                          ec_width = width, ec_height = height\<rparr>
            in case Encoder_start views config of
                 Inl e \<Rightarrow> (Err e, self)
               | Inr encoder \<Rightarrow>
                   (Ok True, self\<lparr>eg_codec := cand_codec (enc_candidate encoder), eg_encoder := Some encoder\<rparr>)))"

section \<open>Shipping access units\<close>

text \<open>
  Sending one payload to every device: \<open>rnd k\<close> and \<open>sent k\<close> are the nonces and the socket's outcomes of the \<open>k\<close>-th
  frame sent in this turn.  The result counts the devices it went to.
\<close>

fun send_to_all ::
  "crypto_ext \<Rightarrow> (nat \<Rightarrow> nat \<Rightarrow> bytes option) \<Rightarrow> (nat \<Rightarrow> nat \<Rightarrow> bool) \<Rightarrow> nat \<Rightarrow> HostEndpoint \<Rightarrow> bytes list
     \<Rightarrow> u32 \<Rightarrow> bool \<Rightarrow> u8 \<Rightarrow> bytes \<Rightarrow> nat \<times> HostEndpoint \<times> (bytes \<times> socket_addr) list" where
  "send_to_all X rnd sent k host [] timestamp keyframe pt payload = (0, host, [])"
| "send_to_all X rnd sent k host (device # ids) timestamp keyframe pt payload =
     (case send_frame X (rnd k) (sent k) host device timestamp keyframe pt payload of
        (r, host, out) \<Rightarrow>
          (case send_to_all X rnd sent (k + 1) host ids timestamp keyframe pt payload of
             (n, host, more_out) \<Rightarrow> ((if is_ok r then n + 1 else n), host, out @ more_out)))"

text \<open>The drain of the encoder's channel: every access unit that is ready goes to every device.\<close>

function ship_units ::
  "crypto_ext \<Rightarrow> (nat \<Rightarrow> nat \<Rightarrow> bytes option) \<Rightarrow> (nat \<Rightarrow> nat \<Rightarrow> bool) \<Rightarrow> wait_result \<Rightarrow> nat \<Rightarrow> Encoder \<Rightarrow> HostEndpoint
     \<Rightarrow> bytes list \<Rightarrow> u32 \<Rightarrow> (EncoderError + nat) \<times> Encoder \<times> HostEndpoint \<times> (bytes \<times> socket_addr) list" where
  "ship_units X rnd sent w k enc host ids timestamp =
     (case next_access_unit_result w enc of
        (Inl e, enc) \<Rightarrow> (Err e, enc, host, [])
      | (Inr None, enc) \<Rightarrow> (Ok 0, enc, host, [])
      | (Inr (Some au), enc) \<Rightarrow>
         (case send_to_all X rnd sent k host ids timestamp (au_keyframe au) (codec_payload_type au) (payload_for enc au) of
            (n, host, out) \<Rightarrow>
              (case ship_units X rnd sent w (k + length ids) enc host ids timestamp of
                 (r, enc, host, more_out) \<Rightarrow> (map_sum id ((+) n) r, enc, host, out @ more_out))))"
  by pat_completeness auto
termination
  by (relation "measure (\<lambda>(X, rnd, sent, w, k, enc, host, ids, timestamp). length (enc_rx enc))")
    (auto dest!: next_output [OF sym])

declare ship_units.simps [simp del]

section \<open>Other threads\<close>

text \<open>
  What a control thread does to the service, one locked section at a time.  Every command takes one lock that changes
  something, except a revocation: \<open>Handles\<close> of one is its first section, which marks the device in the
  trust store, and leaves its id with the thread (\<open>lp_inflight\<close> below); \<open>Pushes i\<close> is the second section of the
  \<open>i\<close>-th such thread, which hands the id to the engine.  A failed or panicked revocation leaves none.
  \<open>Stops\<close> is the request to shut down.
\<close>

datatype outside = Handles svc_env fs Request | Pushes nat | Stops

fun outside_step :: "Service \<times> bytes list \<Rightarrow> outside \<Rightarrow> Service \<times> bytes list" where
  "outside_step (service, inflight) (Handles V f req) =
     (case rq_command req of
        CmdRevoke args \<Rightarrow>
          (case revoke (ve_clock V) (ve_save V) f (sv_pairing service) (ra_device args) of
             (outcome, db, g) \<Rightarrow>
               (service\<lparr>sv_pairing := db\<rparr>,
                case outcome of
                  Inl e \<Rightarrow> inflight
                | Inr device \<Rightarrow> (case decode_device_id (dev_id device) of Some (Some b) \<Rightarrow> b # inflight | _ \<Rightarrow> inflight)))
      | _ \<Rightarrow>
          (case service_handle V f service req of
             None \<Rightarrow> (service, inflight)
           | Some (r, service, g) \<Rightarrow> (service, inflight)))"
| "outside_step (service, inflight) (Pushes i) =
     (if i < length inflight
      then (push_revoked (Some (inflight ! i)) service, take i inflight @ drop (Suc i) inflight)
      else (service, inflight))"
| "outside_step (service, inflight) Stops = (request_shutdown service, inflight)"

section \<open>One turn of the loop\<close>

text \<open>Where a turn accesses the service; a number tells apart the accesses of one stage, or the datagrams.\<close>

datatype point =
    At_drain | At_datagram nat | At_peers | At_check | At_reconnect nat | At_select nat | At_captured | At_stream nat | At_frame

record turn_view =
  tv_pump :: "nat \<Rightarrow> pump_io"
  tv_others :: "point \<Rightarrow> outside list"
  tv_connection_error :: bool
  tv_late_connection_error :: bool
  tv_discover :: DiscoverView
  tv_capture :: cap_env
  tv_capture_tick :: nat
  tv_error_chain :: "error_source list"
  tv_spawn :: "Candidate \<Rightarrow> SpawnView"
  tv_child :: ChildView
  tv_enqueue_time :: nat
  tv_threads :: "Encoder \<Rightarrow> Encoder"
  tv_rnd :: "nat \<Rightarrow> nat \<Rightarrow> bytes option"
  tv_sent :: "nat \<Rightarrow> nat \<Rightarrow> bool"
  tv_now :: "nat \<Rightarrow> nat"

record Loop =
  lp_engine :: Engine
  lp_service :: Service
  lp_inflight :: "bytes list"
  lp_last_frame :: nat
  lp_timestamp :: u32
  lp_last_peers :: nat
  lp_applied :: "string option"
  lp_out :: "(bytes \<times> socket_addr) list"

text \<open>Other threads run, then the engine has the lock: for reading, and for changing the service by \<open>change\<close>.\<close>

definition run_outside :: "outside list \<Rightarrow> Loop \<Rightarrow> Loop" where
  "run_outside ops L =
     (case foldl outside_step (lp_service L, lp_inflight L) ops of
        (service, inflight) \<Rightarrow> L\<lparr>lp_service := service, lp_inflight := inflight\<rparr>)"

definition others_run :: "turn_view \<Rightarrow> point \<Rightarrow> Loop \<Rightarrow> Loop" where
  "others_run v p L = run_outside (tv_others v p) L"

definition locked :: "turn_view \<Rightarrow> point \<Rightarrow> (Service \<Rightarrow> Service) \<Rightarrow> Loop \<Rightarrow> Loop" where
  "locked v p change L = (let L = others_run v p L in L\<lparr>lp_service := change (lp_service L)\<rparr>)"

text \<open>The trust store is locked anew for each datagram: \<open>pump_others v n\<close> is what happened before the \<open>n\<close>-th is judged.\<close>

primrec pump_others :: "turn_view \<Rightarrow> nat \<Rightarrow> Loop \<Rightarrow> Loop" where
  "pump_others v 0 L = L"
| "pump_others v (Suc n) L = others_run v (At_datagram n) (pump_others v n L)"

definition transport_stage :: "crypto_ext \<Rightarrow> turn_view \<Rightarrow> Loop \<Rightarrow> Loop option" where
  "transport_stage X v L =
     (case eg_transport (lp_engine L) of
        None \<Rightarrow> Some L
      | Some host \<Rightarrow>
         (let L = others_run v At_drain L
          in case take_revoked (lp_service L) of
               (ids, service) \<Rightarrow>
                 (let L = L\<lparr>lp_service := service\<rparr>
                  in case HostEndpoint_pump X 16 (tv_pump v) (disconnect_all ids host)
                            (\<lambda>k. trust_authorizer X (sv_pairing (lp_service (pump_others v (Suc k) L)))) of
                       None \<Rightarrow> None
                     | Some (_, host, out) \<Rightarrow>
                        (let L = pump_others v 16 L; engine = lp_engine L; count = peer_count host;
                             encoder = (if count > lp_last_peers L then None else eg_encoder engine);
                             L = L\<lparr>lp_engine := engine\<lparr>eg_transport := Some host, eg_encoder := encoder\<rparr>,
                                   lp_last_peers := count, lp_out := lp_out L @ out\<rparr>
                         in Some (locked v At_peers (\<lambda>s. set_stream_peers s count) L)))))"

definition reconnect_stage :: "turn_view \<Rightarrow> Loop \<Rightarrow> Loop" where
  "reconnect_stage v L =
     (let L = others_run v (At_reconnect 0) L; selected = selected_output (lp_service L)
      in case reconnect (tv_discover v) (lp_engine L) selected of
           (Inr restored, engine) \<Rightarrow>
             (let L = L\<lparr>lp_engine := engine\<rparr>;
                  L = (if selected \<noteq> None \<and> restored = None
                       then (case eg_screens engine of
                               screen # _ \<Rightarrow> locked v (At_reconnect 1) (\<lambda>s. set_selected_output s (Some (si_name screen))) L
                             | [] \<Rightarrow> L)
                       else L);
                  L = locked v (At_reconnect 2) (\<lambda>s. publish_discovery s (eg_screens engine) (Some (eg_backend_name engine))) L;
                  L = locked v (At_reconnect 3) (\<lambda>s. set_encoder s None False 0 0) L;
                  L = locked v (At_reconnect 4) clear_error L;
                  L = locked v (At_reconnect 5) reset_capture_metrics L;
                  L = others_run v (At_reconnect 6) L
              in L\<lparr>lp_applied := selected_output (lp_service L), lp_last_frame := tv_now v 0\<rparr>)
         | (Inl e, engine) \<Rightarrow>
             (let L = L\<lparr>lp_engine := engine\<rparr>;
                  L = locked v (At_reconnect 1) (\<lambda>s. set_encoder s None False 0 0) L;
                  L = locked v (At_reconnect 2) (\<lambda>s. set_error s (''Wayland reconnect failed: '' @ e)) L
              in L\<lparr>lp_last_frame := tv_now v 0\<rparr>))"

text \<open>The flag is whether the turn goes on to the capture.\<close>

definition select_stage :: "turn_view \<Rightarrow> Loop \<Rightarrow> bool \<times> Loop" where
  "select_stage v L =
     (let L = others_run v (At_select 0) L
      in case selected_output (lp_service L) of
        None \<Rightarrow> (True, L)
      | Some name \<Rightarrow>
         (case set_output (lp_engine L) name of
            (Inl e, engine) \<Rightarrow>
              (case latch_protocol_failure (tv_late_connection_error v) (tv_error_chain v) engine of
                 (failed, engine) \<Rightarrow>
                   (let L = L\<lparr>lp_engine := engine\<rparr>
                    in (False, if failed then L else locked v (At_select 1) (\<lambda>s. record_error s (''output selection: '' @ e)) L)))
          | (Inr _, engine) \<Rightarrow>
              (let L = L\<lparr>lp_engine := engine\<rparr>
               in (True,
                   if lp_applied L \<noteq> Some name
                   then (locked v (At_select 1) (\<lambda>s. publish_discovery s (eg_screens engine) (Some (eg_backend_name engine))) L)
                          \<lparr>lp_applied := Some name\<rparr>
                   else L))))"

definition report_encoder_error :: "turn_view \<Rightarrow> EncoderError \<Rightarrow> Loop \<Rightarrow> Loop" where
  "report_encoder_error v error L =
     (let L = locked v (At_stream 3) (\<lambda>s. set_encoder s None False 0 0) L
      in locked v (At_stream 4)
           (\<lambda>s. if ffmpeg_missing error then record_error s MISSING_FFMPEG_ERROR
                else record_error s (''encoder: '' @ EncoderError_display error)) L)"

definition timestamp_step :: "Service \<Rightarrow> u32" where
  "timestamp_step service = max (of_nat (VIDEO_CLOCK_HZ div unat (max (fps_target service) 1))) 1"

definition fail_encoder :: "turn_view \<Rightarrow> Loop \<Rightarrow> string \<Rightarrow> Loop" where
  "fail_encoder v L message =
     (let L = locked v (At_stream 3) (\<lambda>s. record_error s message) L;
          L = L\<lparr>lp_engine := (lp_engine L)\<lparr>eg_encoder := None\<rparr>\<rparr>
      in locked v (At_stream 4) (\<lambda>s. set_encoder s None False 0 0) L)"

definition advance_timestamp :: "turn_view \<Rightarrow> Loop \<Rightarrow> Loop" where
  "advance_timestamp v L =
     (let L = others_run v (At_stream 2) L in L\<lparr>lp_timestamp := lp_timestamp L + timestamp_step (lp_service L)\<rparr>)"

text \<open>Encoding and shipping one frame with a running encoder; the flag is whether the turn goes on to the pacing.\<close>

definition encode_stage :: "crypto_ext \<Rightarrow> turn_view \<Rightarrow> HostEndpoint \<Rightarrow> Encoder \<Rightarrow> bytes \<Rightarrow> Loop \<Rightarrow> bool \<times> Loop" where
  "encode_stage X v host enc rgba L =
     (let L = advance_timestamp v L
      in case encode (tv_child v) (tv_enqueue_time v) enc rgba of
           (Inl e, enc) \<Rightarrow> (False, fail_encoder v L (''encode: '' @ EncoderError_display e))
         | (Inr _, enc) \<Rightarrow>
            (case ship_units X (tv_rnd v) (tv_sent v) (cv_wait (tv_child v)) 0 (tv_threads v enc) host (peer_ids host) (lp_timestamp L) of
               (r, enc, host, out) \<Rightarrow>
                 (let L = L\<lparr>lp_engine := (lp_engine L)\<lparr>eg_transport := Some host, eg_encoder := Some enc\<rparr>, lp_out := lp_out L @ out\<rparr>
                  in case r of
                       Inl e \<Rightarrow> (False, fail_encoder v L (''encoder: '' @ EncoderError_display e))
                     | Inr shipped \<Rightarrow>
                        (let L = (if shipped > 0 then locked v (At_stream 3) (\<lambda>s. record_encoded s (of_nat shipped)) L else L)
                         in (True, locked v (At_stream 4)
                                     (\<lambda>s. set_encoder_with_drops s (Some (cand_name (enc_candidate enc)))
                                       (is_software enc) (enc_frames_in enc) (enc_frames_out enc) (enc_frames_dropped enc)) L)))))"

definition stream_stage :: "crypto_ext \<Rightarrow> f64_engine_ops \<Rightarrow> turn_view \<Rightarrow> Frame \<Rightarrow> Loop \<Rightarrow> bool \<times> Loop" where
  "stream_stage X F v frame L =
     (case eg_transport (lp_engine L) of
        None \<Rightarrow> (True, L)
      | Some host \<Rightarrow>
          if peer_count host = 0 then (True, L)
          else
            let L = others_run v (At_stream 0) L; goal = max (fps_target (lp_service L)) 1;
                L = others_run v (At_stream 1) L;
                measured = fo_max F (service_measured_fps (lp_service L)) (eg_measured_fps (lp_engine L))
            in case ensure_encoder F (tv_spawn v) (lp_engine L) (fr_width frame) (fr_height frame) goal measured of
                 (Inl e, engine) \<Rightarrow> (False, report_encoder_error v e (L\<lparr>lp_engine := engine\<lparr>eg_encoder := None\<rparr>\<rparr>))
               | (Inr _, engine) \<Rightarrow>
                  (case eg_encoder engine of
                     None \<Rightarrow> (True, advance_timestamp v (L\<lparr>lp_engine := engine\<rparr>))
                   | Some enc \<Rightarrow> encode_stage X v host enc (fr_rgba frame) (L\<lparr>lp_engine := engine\<rparr>)))"

text \<open>Pacing sleeps, which changes nothing here; the timings are sampled before.\<close>

definition pace_stage :: "f64_engine_ops \<Rightarrow> turn_view \<Rightarrow> Loop \<Rightarrow> Loop" where
  "pace_stage F v L =
     (let frame_latency = tv_now v 2 - tv_now v 1;
          since_last = tv_now v 3 - lp_last_frame L;
          L = locked v At_frame (\<lambda>s. record_frame (f64_ops.truncate F) s frame_latency since_last) L
      in L\<lparr>lp_engine := note_capture F (lp_engine L) since_last, lp_last_frame := tv_now v 4\<rparr>)"

definition capture_stage :: "crypto_ext \<Rightarrow> f64_engine_ops \<Rightarrow> turn_view \<Rightarrow> Loop \<Rightarrow> Loop option" where
  "capture_stage X F v L =
     (let engine = lp_engine L
      in case capture_once (eg_backend engine) (tv_capture v) (tv_capture_tick v) (eg_state engine) (eg_output engine) (eg_transform engine) of
           None \<Rightarrow> None
         | Some (outcome, state, reqs, n) \<Rightarrow>
            (let L = L\<lparr>lp_engine := engine\<lparr>eg_state := state\<rparr>\<rparr>
             in case outcome of
                  CapPanic \<Rightarrow> None
                | CapErr e \<Rightarrow>
                   (case latch_protocol_failure (tv_late_connection_error v) (tv_error_chain v) (lp_engine L) of
                      (failed, engine) \<Rightarrow>
                        (let L = L\<lparr>lp_engine := engine\<rparr>
                         in Some (if failed then L else locked v At_captured (\<lambda>s. record_error s e) L)))
                | CapOk captured \<Rightarrow>
                   (let L = locked v At_captured (\<lambda>s. record_capture (f64_ops.truncate F) (tv_now v 1) s (cf_timings captured)) L
                    in case stream_stage X F v (cf_frame captured) L of
                         (False, L) \<Rightarrow> Some L
                       | (True, L) \<Rightarrow> Some (pace_stage F v L))))"

definition engine_turn :: "crypto_ext \<Rightarrow> f64_engine_ops \<Rightarrow> turn_view \<Rightarrow> Loop \<Rightarrow> Loop option" where
  "engine_turn X F v L =
     (case transport_stage X v L of
        None \<Rightarrow> None
      | Some L \<Rightarrow>
         (let L = others_run v At_check L
          in if \<not> is_streaming (lp_service L) then Some (L\<lparr>lp_last_frame := tv_now v 0\<rparr>)
             else if wayland_protocol_failed (tv_connection_error v) (lp_engine L) then Some (reconnect_stage v L)
             else case select_stage v L of
                    (False, L) \<Rightarrow> Some L
                  | (True, L) \<Rightarrow> capture_stage X F v L))"

definition engine_start :: "Engine \<Rightarrow> Service \<Rightarrow> nat \<Rightarrow> Loop" where
  "engine_start engine service now =
     \<lparr>lp_engine = engine, lp_service = publish_discovery service (eg_screens engine) (Some (eg_backend_name engine)),
      lp_inflight = [], lp_last_frame = now, lp_timestamp = 0, lp_last_peers = 0, lp_applied = None, lp_out = []\<rparr>"

text \<open>
  The loop: a turn is taken as long as nothing asks for the end; \<open>signalled\<close> says at which turn a termination signal
  has arrived, \<open>before\<close> what other threads did since the last access.
\<close>

fun run_engine ::
  "crypto_ext \<Rightarrow> f64_engine_ops \<Rightarrow> (turn_view \<times> outside list \<times> bool) list \<Rightarrow> Loop \<Rightarrow> (Loop \<times> bool) option" where
  "run_engine X F [] L = Some (L, False)"
| "run_engine X F ((v, before, signalled) # vs) L =
     (let L = run_outside before L
      in if is_shutting_down (lp_service L) \<or> signalled then Some (L, True)
         else case engine_turn X F v L of None \<Rightarrow> None | Some L \<Rightarrow> run_engine X F vs L)"

text \<open>Other threads touch nothing else of the loop.\<close>

lemma others_run_fields [simp]:
  "lp_engine (others_run v p L) = lp_engine L" "lp_last_frame (others_run v p L) = lp_last_frame L"
  "lp_timestamp (others_run v p L) = lp_timestamp L" "lp_last_peers (others_run v p L) = lp_last_peers L"
  "lp_applied (others_run v p L) = lp_applied L" "lp_out (others_run v p L) = lp_out L"
  by (simp_all add: others_run_def run_outside_def split: prod.split)

lemma locked_fields [simp]:
  "lp_engine (locked v p f L) = lp_engine L" "lp_last_frame (locked v p f L) = lp_last_frame L"
  "lp_timestamp (locked v p f L) = lp_timestamp L" "lp_last_peers (locked v p f L) = lp_last_peers L"
  "lp_applied (locked v p f L) = lp_applied L" "lp_out (locked v p f L) = lp_out L"
  by (simp_all add: locked_def Let_def)

text \<open>Without other threads a lock is just a change of the service, and the transport stage is \<open>serve_transport\<close>.\<close>

lemma alone [simp]:
  assumes "tv_others v = (\<lambda>_. [])"
  shows "others_run v p L = L" "locked v p f L = L\<lparr>lp_service := f (lp_service L)\<rparr>" "pump_others v n L = L"
proof -
  show run: "others_run v p L = L" for p L using assms by (simp add: others_run_def run_outside_def)
  then show "locked v p f L = L\<lparr>lp_service := f (lp_service L)\<rparr>" by (simp add: locked_def)
  show "pump_others v n L = L" by (induction n) (simp_all add: run)
qed

lemma transport_stage_alone:
  assumes "tv_others v = (\<lambda>_. [])" and "eg_transport (lp_engine L) = Some host"
  shows "transport_stage X v L =
     map_option (\<lambda>(service, host, count, encoder, out).
         L\<lparr>lp_engine := (lp_engine L)\<lparr>eg_transport := Some host, eg_encoder := encoder\<rparr>,
           lp_service := service, lp_last_peers := count, lp_out := lp_out L @ out\<rparr>)
       (serve_transport X (tv_pump v) (lp_service L) host (lp_last_peers L) (eg_encoder (lp_engine L)))"
  using assms by (simp add: transport_stage_def serve_transport_def Let_def split: option.split prod.split)

section \<open>Reconnecting\<close>

lemma names_screen_infos: "map si_name (screen_infos state) = output_labels state"
  by (simp add: screen_infos_def output_labels_def Let_def list_eq_iff_nth_eq nth_enumerate_eq)

lemma position_from_Some: "position_from i ys x = Some j \<Longrightarrow> x \<in> set ys"
  by (induction i ys x rule: position_from.induct) (auto split: if_splits)

lemma select_output_Some: "select_output labels (Some name) = Ok index \<Longrightarrow> name \<in> set labels"
  by (auto simp: select_output_def split: if_splits dest: position_from_Some)

lemma discover_Ok:
  assumes "discover v pref = Ok fresh"
  shows "\<not> eg_protocol_failed fresh" "eg_encoder fresh = None" "eg_screens fresh = screen_infos (eg_state fresh)"
    "eg_screens fresh \<noteq> []"
proof -
  have "is_ok (select_output (output_labels (eg_state fresh)) None)"
    using assms by (auto simp: discover_def Let_def split: option.splits sum.splits)
  then have "output_labels (eg_state fresh) \<noteq> []" by (auto simp: select_output_def)
  then show "\<not> eg_protocol_failed fresh" "eg_encoder fresh = None" "eg_screens fresh = screen_infos (eg_state fresh)"
    "eg_screens fresh \<noteq> []"
    using assms names_screen_infos [of "eg_state fresh"]
    by (auto simp: discover_def Let_def split: option.splits sum.splits)
qed

lemma set_output_keeps:
  assumes "set_output self name = (r, self')"
  shows "eg_protocol_failed self' = eg_protocol_failed self" "eg_encoder self' = eg_encoder self"
    "eg_state self' = eg_state self" "eg_transport self' = eg_transport self"
    "eg_screens self = screen_infos (eg_state self) \<Longrightarrow> eg_screens self' = eg_screens self"
    "r = Ok () \<Longrightarrow> name \<in> set (output_labels (eg_state self))"
  using assms by (auto simp: set_output_def Let_def split: sum.splits dest: select_output_Some)

lemma reconnect_cases:
  "(\<exists>e. discover v (eg_backend_pref self) = Err e \<and> reconnect v self selected = (Err e, self\<lparr>eg_encoder := None\<rparr>))
   \<or> (\<exists>restored engine. reconnect v self selected = (Ok restored, engine) \<and> is_ok (discover v (eg_backend_pref self))
        \<and> eg_transport engine = eg_transport self \<and> eg_encoder engine = None
        \<and> eg_encoder_choice engine = eg_encoder_choice self \<and> eg_bitrate engine = eg_bitrate self
        \<and> eg_codec engine = eg_codec self \<and> \<not> eg_protocol_failed engine \<and> eg_screens engine \<noteq> []
        \<and> (case restored of None \<Rightarrow> True | Some name \<Rightarrow> selected = Some name \<and> name \<in> si_name ` set (eg_screens engine)))"
proof (cases "discover v (eg_backend_pref self)")
  case (Inl e)
  then show ?thesis by (simp add: reconnect_def)
next
  case (Inr fresh)
  note fresh = discover_Ok [OF Inr]
  have names: "si_name ` set (eg_screens fresh) = set (output_labels (eg_state fresh))"
    by (simp add: fresh(3) names_screen_infos [symmetric])
  show ?thesis
  proof (cases selected)
    case None
    with Inr fresh show ?thesis by (simp add: reconnect_def)
  next
    case (Some name)
    obtain r engine where out: "set_output fresh name = (r, engine)" by (cases "set_output fresh name")
    note keeps = set_output_keeps [OF out]
    show ?thesis
      using Inr Some out keeps fresh names by (cases r) (simp_all add: reconnect_def)
  qed
qed

text \<open>
  Recovery from a compositor protocol error, with no command from outside meanwhile: whether or not the new connection succeeds, the endpoint
  with all its sessions, the encoder policy and the streaming state stay as they were and the old encoder
  is gone.  When it fails, the mark of the failure stays and the reason is reported, so the next turn retries;
  when it succeeds, the mark and the error are cleared and the selected output, if there is one, is an
  output of the new session.
\<close>

theorem reconnect_keeps_sessions:
  assumes alone: "tv_others v = (\<lambda>_. [])"
  shows "let L' = reconnect_stage v L; e = lp_engine L; e' = lp_engine L'; s = lp_service L; s' = lp_service L'
   in eg_transport e' = eg_transport e \<and> eg_encoder e' = None
      \<and> eg_encoder_choice e' = eg_encoder_choice e \<and> eg_bitrate e' = eg_bitrate e \<and> eg_codec e' = eg_codec e
      \<and> is_streaming s' = is_streaming s \<and> lp_timestamp L' = lp_timestamp L \<and> lp_last_peers L' = lp_last_peers L
      \<and> (case discover (tv_discover v) (eg_backend_pref e) of
           Inl why \<Rightarrow> eg_protocol_failed e' = eg_protocol_failed e \<and> selected_output s' = selected_output s
                     \<and> in_last_error (sv_inner s') = Some (''Wayland reconnect failed: '' @ why)
         | Inr _ \<Rightarrow> \<not> eg_protocol_failed e' \<and> in_last_error (sv_inner s') = None
                    \<and> (case selected_output s' of None \<Rightarrow> True | Some name \<Rightarrow> name \<in> si_name ` set (eg_screens e')))"
proof -
  let ?sel = "selected_output (lp_service L)"
  consider (failed) e where "discover (tv_discover v) (eg_backend_pref (lp_engine L)) = Err e"
      "reconnect (tv_discover v) (lp_engine L) ?sel = (Err e, (lp_engine L)\<lparr>eg_encoder := None\<rparr>)"
    | (restored) restored engine where "reconnect (tv_discover v) (lp_engine L) ?sel = (Ok restored, engine)"
      "is_ok (discover (tv_discover v) (eg_backend_pref (lp_engine L)))"
      "eg_transport engine = eg_transport (lp_engine L)" "eg_encoder engine = None"
      "eg_encoder_choice engine = eg_encoder_choice (lp_engine L)" "eg_bitrate engine = eg_bitrate (lp_engine L)"
      "eg_codec engine = eg_codec (lp_engine L)" "\<not> eg_protocol_failed engine" "eg_screens engine \<noteq> []"
      "case restored of None \<Rightarrow> True | Some name \<Rightarrow> ?sel = Some name \<and> name \<in> si_name ` set (eg_screens engine)"
    using reconnect_cases [of "tv_discover v" "lp_engine L" ?sel] by blast
  then show ?thesis
  proof cases
    case failed
    then show ?thesis
      by (simp add: reconnect_stage_def alone Let_def service_updates set_encoder_def is_streaming_def selected_output_def)
  next
    case restored
    obtain screen rest where "eg_screens engine = screen # rest" using restored(9) by (cases "eg_screens engine") auto
    with restored show ?thesis
      by (auto simp: reconnect_stage_def alone Let_def service_updates set_encoder_def is_streaming_def selected_output_def
          elim!: is_okE split: option.splits)
  qed
qed

section \<open>What is shipped\<close>

text \<open>A reference: the frames to send as one list, each with its device, and sending them one after the other.\<close>

type_synonym send_job = "bytes \<times> bool \<times> u8 \<times> bytes"

fun send_jobs ::
  "crypto_ext \<Rightarrow> (nat \<Rightarrow> nat \<Rightarrow> bytes option) \<Rightarrow> (nat \<Rightarrow> nat \<Rightarrow> bool) \<Rightarrow> nat \<Rightarrow> HostEndpoint \<Rightarrow> u32
     \<Rightarrow> send_job list \<Rightarrow> nat \<times> HostEndpoint \<times> (bytes \<times> socket_addr) list" where
  "send_jobs X rnd sent k host timestamp [] = (0, host, [])"
| "send_jobs X rnd sent k host timestamp ((device, keyframe, pt, payload) # jobs) =
     (case send_frame X (rnd k) (sent k) host device timestamp keyframe pt payload of
        (r, host, out) \<Rightarrow>
          (case send_jobs X rnd sent (k + 1) host timestamp jobs of
             (n, host, more_out) \<Rightarrow> ((if is_ok r then n + 1 else n), host, out @ more_out)))"

definition unit_payload :: "bytes \<Rightarrow> AccessUnit \<Rightarrow> bytes" where
  "unit_payload sets au = (if au_keyframe au \<and> prefix sets (au_annexb au) then au_annexb au else sets @ au_annexb au)"

text \<open>The access units at the head of the channel, up to the first message that ends the stream.\<close>

fun ready_units :: "ReaderMessage list \<Rightarrow> (AccessUnit \<times> bytes) list" where
  "ready_units (Unit au sets # ms) = (au, sets) # ready_units ms"
| "ready_units ms = []"

definition jobs_of :: "bytes list \<Rightarrow> (AccessUnit \<times> bytes) list \<Rightarrow> send_job list" where
  "jobs_of ids units =
     concat (map (\<lambda>(au, sets). map (\<lambda>device. (device, au_keyframe au, codec_payload_type au, unit_payload sets au)) ids) units)"

lemma send_jobs_append:
  "send_jobs X rnd sent k host t (js @ ks) =
     (case send_jobs X rnd sent k host t js of
        (n, host, out) \<Rightarrow> (case send_jobs X rnd sent (k + length js) host t ks of (m, host, more_out) \<Rightarrow> (n + m, host, out @ more_out)))"
  by (induction X rnd sent k host t js rule: send_jobs.induct) (auto split: prod.splits)

lemma send_to_all_jobs:
  "send_to_all X rnd sent k host ids t kf pt payload = send_jobs X rnd sent k host t (map (\<lambda>d. (d, kf, pt, payload)) ids)"
  by (induction ids arbitrary: k host) (auto split: prod.splits)

lemma payload_for_unit: "payload_for enc au = unit_payload (enc_parameter_sets enc) au"
  by (auto simp: payload_for_def unit_payload_def prefix_def) (metis append_take_drop_id)

lemma next_unit:
  "enc_rx enc = Unit au sets # ms \<Longrightarrow>
   \<exists>enc'. next_access_unit_result w enc = (Ok (Some au), enc') \<and> enc_rx enc' = ms \<and> enc_parameter_sets enc' = sets
     \<and> enc_reader_gone enc' = enc_reader_gone enc"
  by (simp add: next_access_unit_result_def take_message_def)

lemma next_no_unit:
  "ready_units (enc_rx enc) = [] \<Longrightarrow> next_access_unit_result w enc = (r, enc') \<Longrightarrow> r = Ok None \<or> (\<exists>e. r = Err e)"
  by (cases "enc_rx enc" rule: ready_units.cases)
    (auto simp: next_access_unit_result_def take_message_def stop_reading_def output_ended_def Let_def split: sum.splits if_splits)

lemma ship_units_jobs:
  "let jobs = jobs_of ids (ready_units (enc_rx enc));
       (r, enc', host', out) = ship_units X rnd sent w k enc host ids timestamp;
       (n, sent_host, sent_out) = send_jobs X rnd sent k host timestamp jobs
   in host' = sent_host \<and> out = sent_out \<and> (case r of Inr shipped \<Rightarrow> shipped = n | Inl _ \<Rightarrow> True)"
proof (induction "length (enc_rx enc)" arbitrary: enc k host)
  case 0
  then show ?case using next_no_unit [of enc w]
    by (subst ship_units.simps) (fastforce simp: jobs_of_def Let_def split: prod.splits sum.splits option.splits)
next
  case (Suc len)
  show ?case
  proof (cases "\<exists>au sets ms. enc_rx enc = Unit au sets # ms")
    case False
    then have "ready_units (enc_rx enc) = []" by (cases "enc_rx enc" rule: ready_units.cases) auto
    then show ?thesis using next_no_unit [of enc w]
      by (subst ship_units.simps) (fastforce simp: jobs_of_def Let_def split: prod.splits sum.splits option.splits)
  next
    case True
    then obtain au sets ms where rx: "enc_rx enc = Unit au sets # ms" by blast
    obtain enc' where nxt: "next_access_unit_result w enc = (Ok (Some au), enc')" "enc_rx enc' = ms"
      "enc_parameter_sets enc' = sets" using next_unit [OF rx] by blast
    have len: "len = length (enc_rx enc')" using Suc.hyps(2) rx nxt(2) by simp
    obtain n1 host1 out1 where first: "send_jobs X rnd sent k host timestamp
        (map (\<lambda>d. (d, au_keyframe au, codec_payload_type au, unit_payload sets au)) ids) = (n1, host1, out1)"
      by (metis prod_cases3)
    obtain r enc'' host'' out'' where rest: "ship_units X rnd sent w (k + length ids) enc' host1 ids timestamp = (r, enc'', host'', out'')"
      by (metis prod_cases4)
    obtain n2 host2 out2 where jobs: "send_jobs X rnd sent (k + length ids) host1 timestamp (jobs_of ids (ready_units ms)) = (n2, host2, out2)"
      by (metis prod_cases3)
    have IH: "host'' = host2 \<and> out'' = out2 \<and> (case r of Inr shipped \<Rightarrow> shipped = n2 | Inl _ \<Rightarrow> True)"
      using Suc.hyps(1) [OF len, of "k + length ids" host1] rest jobs nxt(2) by simp
    have cons: "jobs_of ids (ready_units (enc_rx enc))
        = map (\<lambda>d. (d, au_keyframe au, codec_payload_type au, unit_payload sets au)) ids @ jobs_of ids (ready_units ms)"
      by (simp add: rx jobs_of_def)
    show ?thesis
      using IH by (subst ship_units.simps)
        (auto simp: cons nxt first rest jobs send_to_all_jobs payload_for_unit send_jobs_append split: sum.splits)
  qed
qed

text \<open>
  What a turn ships: the access units ready in the channel, in their order, each to every connected device
  with its parameter sets in front exactly once when it is not a keyframe that starts with them; a send
  that fails is skipped and the rest goes on.  The datagrams and the endpoint are those of sending this
  list of frames one by one, also when the stream ends behind the units.
\<close>

theorem ship_units_all:
  "let jobs = jobs_of ids (ready_units (enc_rx enc));
       (r, enc', host', out) = ship_units X rnd sent w k enc host ids timestamp;
       (n, sent_host, sent_out) = send_jobs X rnd sent k host timestamp jobs
   in host' = sent_host \<and> out = sent_out \<and> (case r of Inr shipped \<Rightarrow> shipped = n | Inl _ \<Rightarrow> True)"
  by (rule ship_units_jobs)

section \<open>Frames fit the encoder\<close>

lemma Encoder_start_config: "Encoder_start views config = Ok enc \<Longrightarrow> enc_config enc = config"
  by (auto simp: Encoder_start_def try_candidates_find Encoder_new_def split: sum.splits option.splits)

lemma ensure_encoder_Ok:
  assumes "ensure_encoder F views self width height goal measured = (Ok b, self')"
  shows "\<exists>enc. eg_encoder self' = Some enc \<and> ec_width (enc_config enc) = width \<and> ec_height (enc_config enc) = height
           \<and> eg_transport self' = eg_transport self"
  using assms
  by (auto simp: ensure_encoder_def Let_def keeps_encoder_def split: if_splits sum.splits option.splits
      dest!: Encoder_start_config)

lemma expected_len_frame:
  assumes "Frame_wf frame" and "ec_width config = fr_width frame" and "ec_height config = fr_height frame"
  shows "expected_len config = length (fr_rgba frame)"
proof -
  let ?wh = "unat (fr_width frame) * unat (fr_height frame)"
  have "?wh * 4 \<le> u64_max" using assms(1) by (simp add: Frame_wf_def i32_max_def u64_max_def)
  then have "min ?wh u64_max = ?wh" by simp
  with \<open>?wh * 4 \<le> u64_max\<close> show ?thesis using assms by (simp add: expected_len_def sat_mul_def Frame_wf_def)
qed

lemma captured_Frame_wf: "capture_once backend E n state out t = Some (CapOk captured, s, reqs, m) \<Longrightarrow> Frame_wf (cf_frame captured)"
  using ext_capture_safe wlr_capture_safe by (cases backend) (auto simp: capture_once_def)

lemma encode_right_length:
  assumes "length rgba = expected_len (enc_config enc)"
  shows "fst (encode v el enc rgba) \<noteq> Err (BadConfig why)"
  using assms
  by (auto simp: encode_def Let_def try_queue_frame_def writer_failure_def case_prod_beta split: if_splits)

text \<open>
  Captured frames fit the encoder: for whatever the compositor delivers, the encoder that the engine keeps or
  starts for a captured frame expects exactly its number of bytes, so \<^verbatim>\<open>encode\<close> never refuses it for its size.
\<close>

theorem captured_frame_fits:
  assumes "capture_once backend E n state out t = Some (CapOk captured, s, reqs, m)"
    and "ensure_encoder F views engine (fr_width (cf_frame captured)) (fr_height (cf_frame captured)) goal measured = (Ok b, engine')"
  shows "\<exists>enc. eg_encoder engine' = Some enc \<and> expected_len (enc_config enc) = length (fr_rgba (cf_frame captured))
           \<and> (\<forall>v el why. fst (encode v el enc (fr_rgba (cf_frame captured))) \<noteq> Err (BadConfig why))"
proof -
  obtain enc where enc: "eg_encoder engine' = Some enc" "ec_width (enc_config enc) = fr_width (cf_frame captured)"
    "ec_height (enc_config enc) = fr_height (cf_frame captured)"
    using ensure_encoder_Ok [OF assms(2)] by blast
  from expected_len_frame [OF captured_Frame_wf [OF assms(1)] enc(2,3)] encode_right_length enc(1)
  show ?thesis by metis
qed

section \<open>Failures stop only the stream\<close>

lemma send_frame_peers: "peers (fst (snd (send_frame X rnd sent host d t kf pt payload))) = peers host"
  by (simp add: send_frame_def Let_def split: option.split prod.split)

lemma send_to_all_peers: "peers (fst (snd (send_to_all X rnd sent k host ids t kf pt payload))) = peers host"
proof (induction ids arbitrary: k host)
  case (Cons d ids)
  then show ?case using send_frame_peers [of X "rnd k" "sent k" host d t kf pt payload]
    by (simp add: case_prod_beta)
qed simp

lemma ship_units_peers: "peers (fst (snd (snd (ship_units X rnd sent w k enc host ids t)))) = peers host"
proof (induction X rnd sent w k enc host ids t rule: ship_units.induct)
  case (1 X rnd sent w k enc host ids t)
  obtain r enc' where nxt: "next_access_unit_result w enc = (r, enc')" by (cases "next_access_unit_result w enc")
  show ?case
  proof (cases "\<exists>au. r = Ok (Some au)")
    case True
    then obtain au where au: "r = Ok (Some au)" by blast
    obtain n host1 out where sent: "send_to_all X rnd sent k host ids t (au_keyframe au) (codec_payload_type au) (payload_for enc' au)
        = (n, host1, out)" by (metis prod_cases3)
    have "peers (fst (snd (snd (ship_units X rnd sent w (k + length ids) enc' host1 ids t)))) = peers host1"
      using 1 nxt au sent by simp
    moreover have "peers host1 = peers host" using send_to_all_peers [of X rnd sent k host ids t] sent by (metis fst_conv snd_conv)
    ultimately show ?thesis using nxt au sent by (subst ship_units.simps) (simp add: case_prod_beta)
  next
    case False
    then show ?thesis using nxt by (subst ship_units.simps) (auto split: sum.split option.split)
  qed
qed

definition peers_of :: "Loop \<Rightarrow> (bytes \<times> Peer) list option" where
  "peers_of L = map_option peers (eg_transport (lp_engine L))"

text \<open>What a stage keeps: the sessions and the trust store; and a stream that ends has left its reason.\<close>

definition stage_ok :: "Loop \<Rightarrow> Loop \<Rightarrow> bool" where
  "stage_ok L L' \<longleftrightarrow> peers_of L' = peers_of L \<and> sv_pairing (lp_service L') = sv_pairing (lp_service L)
     \<and> (is_streaming (lp_service L) \<longrightarrow> is_streaming (lp_service L') \<or> in_last_error (sv_inner (lp_service L')) \<noteq> None)"

lemmas stage_defs = stage_ok_def peers_of_def is_streaming_def service_updates set_encoder_def report_encoder_error_def

lemma reconnect_stage_ok: "tv_others v = (\<lambda>_. []) \<Longrightarrow> stage_ok L (reconnect_stage v L)"
  using reconnect_cases [of "tv_discover v" "lp_engine L" "selected_output (lp_service L)"]
  by (auto simp: reconnect_stage_def stage_defs Let_def split: prod.splits list.splits)

lemma select_stage_ok:
  "select_stage v L = (b, L') \<Longrightarrow> tv_others v = (\<lambda>_. []) \<Longrightarrow>
   stage_ok L L' \<and> (b \<longrightarrow> is_streaming (lp_service L') = is_streaming (lp_service L))"
  by (auto simp: select_stage_def stage_defs latch_protocol_failure_def Let_def set_output_def split: option.splits sum.splits if_splits)

lemma encode_stage_ok:
  assumes "encode_stage X v host enc rgba L = (b, L')" and "eg_transport (lp_engine L) = Some host" and "tv_others v = (\<lambda>_. [])"
  shows "stage_ok L L' \<and> (b \<longrightarrow> is_streaming (lp_service L') = is_streaming (lp_service L))"
  using assms ship_units_peers [of X "tv_rnd v" "tv_sent v" "cv_wait (tv_child v)" 0 "tv_threads v (snd (encode (tv_child v) (tv_enqueue_time v) enc rgba))"
      host "peer_ids host" "lp_timestamp L + timestamp_step (lp_service L)"]
  by (auto simp: encode_stage_def advance_timestamp_def fail_encoder_def stage_defs Let_def split: prod.splits sum.splits if_splits)

lemma ensure_encoder_transport:
  "ensure_encoder F views self w h t m = (r, self') \<Longrightarrow> eg_transport self' = eg_transport self"
  by (auto simp: ensure_encoder_def Let_def split: if_splits sum.splits option.splits)

lemma stream_stage_ok:
  assumes "stream_stage X F v frame L = (b, L')" and "tv_others v = (\<lambda>_. [])"
  shows "stage_ok L L' \<and> (b \<longrightarrow> is_streaming (lp_service L') = is_streaming (lp_service L))"
proof (cases "\<exists>host. eg_transport (lp_engine L) = Some host \<and> peer_count host \<noteq> 0")
  case True
  then obtain host where host: "eg_transport (lp_engine L) = Some host" "peer_count host \<noteq> 0" by blast
  let ?e = "ensure_encoder F (tv_spawn v) (lp_engine L) (fr_width frame) (fr_height frame) (max (fps_target (lp_service L)) 1)
        (fo_max F (service_measured_fps (lp_service L)) (eg_measured_fps (lp_engine L)))"
  obtain r engine where e: "?e = (r, engine)" by (cases ?e)
  note keeps = ensure_encoder_transport [OF e]
  show ?thesis
  proof (cases "\<exists>ok enc. r = Ok ok \<and> eg_encoder engine = Some enc")
    case True
    then obtain enc where "encode_stage X v host enc (fr_rgba frame) (L\<lparr>lp_engine := engine\<rparr>) = (b, L')"
      using assms host e by (auto simp: stream_stage_def)
    from encode_stage_ok [OF this _ assms(2)] keeps host(1) show ?thesis by (simp add: stage_ok_def peers_of_def)
  next
    case False
    with assms host e keeps show ?thesis
      by (auto simp: stream_stage_def advance_timestamp_def stage_defs Let_def split: option.splits sum.splits if_splits)
  qed
next
  case False
  with assms(1) show ?thesis by (auto simp: stream_stage_def stage_ok_def split: option.splits if_splits)
qed

lemma capture_stage_ok:
  assumes "capture_stage X F v L = Some L'" and "tv_others v = (\<lambda>_. [])"
  shows "stage_ok L L'"
proof -
  let ?c = "capture_once (eg_backend (lp_engine L)) (tv_capture v) (tv_capture_tick v) (eg_state (lp_engine L))
      (eg_output (lp_engine L)) (eg_transform (lp_engine L))"
  obtain outcome state reqs n where c: "?c = Some (outcome, state, reqs, n)"
    using assms(1) by (auto simp: capture_stage_def Let_def split: option.splits)
  show ?thesis
  proof (cases outcome)
    case (CapOk captured)
    let ?L = "L\<lparr>lp_engine := (lp_engine L)\<lparr>eg_state := state\<rparr>,
      lp_service := record_capture (f64_ops.truncate F) (tv_now v 1) (lp_service L) (cf_timings captured)\<rparr>"
    obtain b L1 where s: "stream_stage X F v (cf_frame captured) ?L = (b, L1)" by (cases "stream_stage X F v (cf_frame captured) ?L")
    have "L' = (if b then pace_stage F v L1 else L1)"
      using assms c CapOk s by (simp add: capture_stage_def Let_def split: bool.splits)
    with stream_stage_ok [OF s assms(2)] assms(2) show ?thesis
      by (auto simp: stage_defs pace_stage_def note_capture_def Let_def split: if_splits)
  next
    case (CapErr e)
    then show ?thesis using assms c
      by (auto simp: capture_stage_def latch_protocol_failure_def stage_defs Let_def split: if_splits)
  qed (use assms c in \<open>simp add: capture_stage_def\<close>)
qed

text \<open>
  C31 Failures stop at most the stream: in a turn with no command from outside, whatever fails after the transport was
  served (connection, output selection, capture, encoder start, encoding, the encoder's output, sending), every
  connected device keeps its session, the trust store is untouched, and a stream that was switched off has left
  the reason in the status.
\<close>

theorem failures_stop_only_stream:
  assumes "engine_turn X F v L = Some L'" and "transport_stage X v L = Some L1"
    and "is_streaming (lp_service L1)" and "tv_others v = (\<lambda>_. [])"
  shows "peers_of L' = peers_of L1 \<and> sv_pairing (lp_service L') = sv_pairing (lp_service L1)
         \<and> (is_streaming (lp_service L') \<or> in_last_error (sv_inner (lp_service L')) \<noteq> None)"
proof -
  have L1: "others_run v At_check L1 = L1" by (simp add: assms(4))
  have "stage_ok L1 L'"
  proof (cases "wayland_protocol_failed (tv_connection_error v) (lp_engine L1)")
    case True
    then have "L' = reconnect_stage v L1" using assms(1-3) by (simp add: engine_turn_def L1)
    then show ?thesis using assms(4) by (simp add: reconnect_stage_ok)
  next
    case False
    obtain b L2 where s: "select_stage v L1 = (b, L2)" by (cases "select_stage v L1")
    show ?thesis
    proof (cases b)
      case True
      then have "capture_stage X F v L2 = Some L'" using assms(1-3) False s by (simp add: engine_turn_def L1)
      from capture_stage_ok [OF this assms(4)] select_stage_ok [OF s assms(4)] True show ?thesis
        by (auto simp: stage_ok_def)
    next
      case b: False
      then have "L' = L2" using assms(1-3) False s by (simp add: engine_turn_def L1)
      then show ?thesis using select_stage_ok [OF s assms(4)] by simp
    qed
  qed
  with assms(3) show ?thesis by (simp add: stage_ok_def)
qed

text \<open>A streaming engine whose selected output has disappeared.\<close>

definition sample_engine :: Engine where
  "sample_engine =
     \<lparr>eg_protocol_failed = False, eg_state = State_new, eg_backend_pref = PrefAuto, eg_transport = None,
      eg_encoder = Some (Encoder_new (sample_config\<lparr>ec_height := 1\<rparr>) sample_candidate), eg_encoder_choice = Auto,
      eg_bitrate = 1000000, eg_codec = H264, eg_measured_fps = f64_0, eg_output = (9, 4), eg_transform = Normal,
      eg_backend = BackendExt, eg_backend_name = ''ext'', eg_screens = []\<rparr>"

definition sample_loop :: Loop where
  "sample_loop =
     engine_start sample_engine
       (upd_inner (\<lambda>i. i\<lparr>in_streaming := True, in_selected := Some ''HDMI-1''\<rparr>) (Service_new sample_db ''key'')) 0"

definition sample_view :: turn_view where
  "sample_view =
     \<lparr>tv_pump = sample_quiet, tv_others = (\<lambda>_. []), tv_connection_error = False, tv_late_connection_error = False,
      tv_discover = \<lparr>dv_connect_error = Some ''gone'', dv_globals = [], dv_globals_error = None, dv_outputs = [], dv_outputs_error = None\<rparr>,
      tv_capture = sample_compositor [sample_constraints, sample_turned] [1, 2, 3, 4, 5, 6, 7, 8], tv_capture_tick = 0,
      tv_error_chain = [OtherSource], tv_spawn = (\<lambda>_. \<lparr>sv_vaapi_env = None, sv_exists = (\<lambda>_. False), sv_spawn_error = (\<lambda>_. None),
        sv_wait = Ok None, sv_tail = StderrTail_default\<rparr>),
      tv_child = sample_child, tv_enqueue_time = 0, tv_threads = id, tv_rnd = (\<lambda>_ _. None), tv_sent = (\<lambda>_ _. True), tv_now = id\<rparr>"

definition sample_engine_float :: f64_engine_ops where
  "sample_engine_float =
     \<lparr>fo_add = (+), fo_sub = (-), fo_mul = (\<lambda>a b. a), fo_div = (\<lambda>a b. a), fo_round = id, fo_of_u64 = id, fo_secs = of_nat,
      fo_le = (\<lambda>_ _. False), fo_max = max, fo_as_u32 = ucast\<rparr>"

theorem failures_stop_only_stream_witness:
  "\<exists>L'. engine_turn sample_crypto sample_engine_float sample_view sample_loop = Some L' \<and> \<not> is_streaming (lp_service L')
     \<and> in_last_error (sv_inner (lp_service L')) \<noteq> None"
proof -
  note defs = sample_loop_def sample_engine_def sample_view_def engine_start_def Service_new_def Inner_default_def
    service_updates is_streaming_def selected_output_def
  have t: "transport_stage sample_crypto sample_view sample_loop = Some sample_loop"
    by (simp add: transport_stage_def defs)
  have s: "is_streaming (lp_service sample_loop)" by (simp add: defs)
  obtain L' where turn: "engine_turn sample_crypto sample_engine_float sample_view sample_loop = Some L'" "\<not> is_streaming (lp_service L')"
    using t s
    by (simp add: engine_turn_def wayland_protocol_failed_def select_stage_def set_output_def select_output_def
        State_new_def output_labels_def latch_protocol_failure_def is_wayland_protocol_error_def Let_def defs)
  have "tv_others sample_view = (\<lambda>_. [])" by (simp add: sample_view_def)
  from failures_stop_only_stream [OF turn(1) t s this] turn show ?thesis by blast
qed

theorem captured_frame_fits_witness:
  "\<exists>enc. ensure_encoder sample_engine_float (tv_spawn sample_view) sample_engine 2 1 30 f64_0 = (Ok True, sample_engine)
     \<and> eg_encoder sample_engine = Some enc \<and> expected_len (enc_config enc) = 8"
proof -
  let ?c = "sample_captured [7, 6, 5, 255, 3, 2, 1, 255]"
  have e: "ensure_encoder sample_engine_float (tv_spawn sample_view) sample_engine 2 1 30 f64_0 = (Ok True, sample_engine)"
    by (simp add: ensure_encoder_def effective_fps_def sample_engine_float_def sample_engine_def keeps_encoder_def Encoder_new_def
        sample_config_def)
  have "capture_once BackendExt (sample_compositor [sample_constraints, sample_turned] [1, 2, 3, 4, 5, 6, 7, 8]) 0 sample_state (9, 4) Normal
     = Some (CapOk ?c,
       sample_state\<lparr>st_ext := sample_ext\<lparr>ex_transform := Some T180, ex_frame_ready := True\<rparr>\<rparr>,
       [CreateSource (9, 4), CreateSession, CreatePool 8, CreateBuffer 2 1 8 Xrgb8888, CreateFrame, AttachBuffer,
        DamageBuffer 2 1, CaptureFrame, DestroyFrame, DestroySession, DestroySource, DestroyBuffer, DestroyPool], 2)"
    by (simp add: capture_once_def sample_ext_capture)
  from captured_frame_fits [OF this, of sample_engine_float "tv_spawn sample_view" sample_engine 30 f64_0 True sample_engine] e
  show ?thesis by (auto simp: sample_captured_def)
qed

section \<open>The loop as a run of locked sections\<close>

text \<open>
  What concerns the trust store and the sessions is the service, the revocations between their two sections and the
  endpoint.  A step on these is one locked section: of another thread, satisfying \<open>P\<close>; of the engine, which
  reports something to the service or takes the revoked ids and disconnects them; or an event of the endpoint,
  judged by the trust store as it is at that moment.
\<close>

definition quiet :: "Service \<Rightarrow> Service \<Rightarrow> bool" where
  "quiet s s' \<longleftrightarrow> sv_pairing s' = sv_pairing s \<and> sv_host_public_key s' = sv_host_public_key s
     \<and> in_revoked_pending (sv_inner s') = in_revoked_pending (sv_inner s)"

type_synonym core = "Service \<times> bytes list \<times> HostEndpoint option"

inductive lock_step :: "crypto_ext \<Rightarrow> (outside \<Rightarrow> bool) \<Rightarrow> core \<Rightarrow> core \<Rightarrow> bool" for X P where
  outside: "P op \<Longrightarrow> outside_step (s, fl) op = (s', fl') \<Longrightarrow> lock_step X P (s, fl, t) (s', fl', t)"
| report: "quiet s s' \<Longrightarrow> lock_step X P (s, fl, t) (s', fl, t)"
| drain: "take_revoked s = (ids, s') \<Longrightarrow> lock_step X P (s, fl, Some h) (s', fl, Some (disconnect_all ids h))"
| event: "engine_event X (sv_pairing s) ev \<Longrightarrow> lock_step X P (s, fl, Some h) (s, fl, Some (host_step X h ev))"

inductive_cases lock_stepE: "lock_step X P c c'"

definition core_of :: "Loop \<Rightarrow> core" where
  "core_of L = (lp_service L, lp_inflight L, eg_transport (lp_engine L))"

lemma core_of_update [simp]:
  "core_of (L\<lparr>lp_last_frame := a\<rparr>) = core_of L" "core_of (L\<lparr>lp_timestamp := b\<rparr>) = core_of L"
  "core_of (L\<lparr>lp_last_peers := n\<rparr>) = core_of L" "core_of (L\<lparr>lp_applied := w\<rparr>) = core_of L"
  "core_of (L\<lparr>lp_out := out\<rparr>) = core_of L"
  by (simp_all add: core_of_def)

definition runs :: "crypto_ext \<Rightarrow> (outside \<Rightarrow> bool) \<Rightarrow> core \<Rightarrow> core \<Rightarrow> bool" where
  "runs X P = (lock_step X P)\<^sup>*\<^sup>*"

lemma runs_refl [simp, intro]: "runs X P c c"
  by (simp add: runs_def)

lemma runs_trans: "runs X P c c' \<Longrightarrow> runs X P c' c'' \<Longrightarrow> runs X P c c''"
  unfolding runs_def by (rule rtranclp_trans)

lemma runs_step: "runs X P c c' \<Longrightarrow> lock_step X P c' c'' \<Longrightarrow> runs X P c c''"
  unfolding runs_def by (rule rtranclp.rtrancl_into_rtrancl)

lemma runs_outside:
  assumes "list_all P ops"
  shows "runs X P (lp_service L, lp_inflight L, t) (lp_service (run_outside ops L), lp_inflight (run_outside ops L), t)"
proof -
  have "runs X P (s, fl, t) (s', fl', t)" if "foldl outside_step (s, fl) ops = (s', fl')" for s fl s' fl'
    using assms that
  proof (induction ops arbitrary: s fl)
    case (Cons op ops)
    obtain s1 fl1 where step: "outside_step (s, fl) op = (s1, fl1)" by (cases "outside_step (s, fl) op")
    with Cons have "lock_step X P (s, fl, t) (s1, fl1, t)" "runs X P (s1, fl1, t) (s', fl', t)" by (auto intro: outside)
    then show ?case by (meson runs_refl runs_step runs_trans)
  qed simp
  then show ?thesis by (simp add: run_outside_def split: prod.split)
qed

definition view_all :: "(outside \<Rightarrow> bool) \<Rightarrow> turn_view \<Rightarrow> bool" where
  "view_all P v \<longleftrightarrow> (\<forall>p. list_all P (tv_others v p))"

text \<open>How a stage is put together: one access after the other, between changes of the loop's own variables.\<close>

lemma runs_before:
  assumes "list_all P ops" and "runs X P c (core_of L)"
  shows "runs X P c (core_of (run_outside ops L))"
proof (rule runs_trans [OF assms(2)])
  have "lp_engine (run_outside ops L) = lp_engine L" by (simp add: run_outside_def split: prod.split)
  then show "runs X P (core_of L) (core_of (run_outside ops L))"
    using runs_outside [OF assms(1), of X L "eg_transport (lp_engine L)"] by (simp add: core_of_def)
qed

lemma runs_others:
  "view_all P v \<Longrightarrow> runs X P c (core_of L) \<Longrightarrow> runs X P c (core_of (others_run v p L))"
  unfolding others_run_def by (rule runs_before) (simp_all add: view_all_def)

lemma runs_locked:
  assumes "view_all P v" and "\<And>s. quiet s (f s)" and "runs X P c (core_of L)"
  shows "runs X P c (core_of (locked v p f L))"
proof -
  have "lock_step X P (core_of (others_run v p L)) (core_of (locked v p f L))"
    using report [OF assms(2), of X P "lp_service (others_run v p L)"] by (simp add: locked_def core_of_def Let_def)
  with runs_others [OF assms(1,3)] show ?thesis by (rule runs_step)
qed

lemma runs_engine:
  "eg_transport engine = eg_transport (lp_engine L) \<Longrightarrow> runs X P c (core_of L) \<Longrightarrow> runs X P c (core_of (L\<lparr>lp_engine := engine\<rparr>))"
  by (simp add: core_of_def)

lemmas runs_intros = runs_locked runs_others runs_engine

lemmas quiet_defs = quiet_def service_updates set_encoder_def Let_def

text \<open>The pump: before each datagram the other threads, then its events.\<close>

lemma runs_pump_others:
  "view_all P v \<Longrightarrow> m \<le> n \<Longrightarrow>
   runs X P (lp_service (pump_others v m L), lp_inflight (pump_others v m L), t)
            (lp_service (pump_others v n L), lp_inflight (pump_others v n L), t)"
proof (induction n)
  case (Suc n)
  have "runs X P (lp_service (pump_others v n L), lp_inflight (pump_others v n L), t)
      (lp_service (pump_others v (Suc n) L), lp_inflight (pump_others v (Suc n) L), t)"
    using runs_outside [of P "tv_others v (At_datagram n)" X "pump_others v n L" t] Suc.prems(1)
    by (simp add: view_all_def others_run_def)
  with Suc show ?case by (cases "m = Suc n") (auto intro: runs_trans)
qed simp

lemma pump_runs:
  fixes v L
  defines "store \<equiv> \<lambda>n. sv_pairing (lp_service (pump_others v n L))"
    and "at \<equiv> \<lambda>n h. (lp_service (pump_others v n L), lp_inflight (pump_others v n L), Some h)"
  assumes "view_all P v" and "pump_loop X n left env host (\<lambda>k. trust_authorizer X (store (Suc k))) = Some (r, host', sent)"
  shows "runs X P (at n host) (at (n + left) host')"
  using assms(4)
proof (induction left arbitrary: n host r sent)
  case (Suc left)
  let ?io = "env n" and ?auth = "trust_authorizer X (store (Suc n))"
  let ?h1 = "prune_pending (pio_now ?io) host"
  have rest: "runs X P (at (Suc n) h) (at (n + Suc left) h)" for h
    using runs_pump_others [OF assms(3), of "Suc n" "n + Suc left" X L "Some h"] by (simp add: at_def)
  have "runs X P (at n host) (at (Suc n) host)"
    using runs_pump_others [OF assms(3), of n "Suc n" X L "Some host"] by (simp add: at_def)
  moreover have "lock_step X P (at (Suc n) host) (at (Suc n) ?h1)"
    unfolding at_def using event [of X _ "HostPrune (pio_now ?io)" P] by simp
  ultimately have first: "runs X P (at n host) (at (Suc n) ?h1)" by (rule runs_step)
  show ?case
  proof (cases "pio_recv ?io")
    case (Datagram buf addr)
    then obtain out h2 where pkt: "handle_packet X (pio_eph ?io) (pio_nonce ?io) (pio_clk ?io) ?h1 (take MAX_DATAGRAM buf) addr ?auth
        = Some (out, h2)"
      using Suc.prems by (auto simp: Let_def split: option.splits)
    let ?ev = "HostPacket (pio_eph ?io) (pio_nonce ?io) (pio_clk ?io) (take MAX_DATAGRAM buf) addr ?auth"
    have "engine_event X (sv_pairing (lp_service (pump_others v (Suc n) L))) ?ev" by (simp add: store_def)
    from event [OF this, of P "lp_inflight (pump_others v (Suc n) L)" ?h1] host_step_packet [OF pkt]
    have "lock_step X P (at (Suc n) ?h1) (at (Suc n) h2)" by (simp only: at_def)
    with first have second: "runs X P (at n host) (at (Suc n) h2)" by (rule runs_step)
    have "h2 = host' \<or> (\<exists>r sent. pump_loop X (Suc n) left env h2 (\<lambda>k. trust_authorizer X (store (Suc k))) = Some (r, host', sent))"
      using Suc.prems pkt Datagram by (auto simp: Let_def split: HostOutcome.splits option.splits prod.splits)
    then have "runs X P (at (Suc n) h2) (at (n + Suc left) host')" using Suc.IH [of "Suc n" h2] rest by fastforce
    with second show ?thesis by (rule runs_trans)
  qed (use Suc.prems first rest [of ?h1] in \<open>auto simp: Let_def intro: runs_trans\<close>)
qed simp

text \<open>The transport stage, cut at the moment it has taken the revoked ids.\<close>

definition drained :: "turn_view \<Rightarrow> Loop \<Rightarrow> HostEndpoint \<Rightarrow> core" where
  "drained v L host =
     (let L = others_run v At_drain L
      in (snd (take_revoked (lp_service L)), lp_inflight L, Some (disconnect_all (in_revoked_pending (sv_inner (lp_service L))) host)))"

lemma transport_drains:
  assumes "view_all P v" and "eg_transport (lp_engine L) = Some host"
  shows "runs X P (core_of L) (drained v L host)"
proof (rule runs_step)
  let ?L = "others_run v At_drain L"
  show "runs X P (core_of L) (core_of ?L)" by (rule runs_others [OF assms(1) runs_refl])
  show "lock_step X P (core_of ?L) (drained v L host)"
    using drain [of "lp_service ?L" "in_revoked_pending (sv_inner (lp_service ?L))" "snd (take_revoked (lp_service ?L))" X P "lp_inflight ?L" host]
      assms(2) by (simp add: drained_def core_of_def Let_def take_revoked_def)
qed

lemma transport_stage_runs:
  assumes "transport_stage X v L = Some L'" and "view_all P v" and "eg_transport (lp_engine L) = Some host"
  shows "runs X P (drained v L host) (core_of L')"
proof -
  let ?L1 = "others_run v At_drain L"
  let ?L2 = "?L1\<lparr>lp_service := snd (take_revoked (lp_service ?L1))\<rparr>"
  let ?auth = "\<lambda>k. trust_authorizer X (sv_pairing (lp_service (pump_others v (Suc k) ?L2)))"
  obtain r host' out where pump: "HostEndpoint_pump X 16 (tv_pump v) (disconnect_all (in_revoked_pending (sv_inner (lp_service ?L1))) host) ?auth
      = Some (r, host', out)"
    using assms(1,3) by (auto simp: transport_stage_def Let_def take_revoked_def split: option.splits)
  let ?L3 = "pump_others v 16 ?L2"
  obtain engine count sent where L': "L' = locked v At_peers (\<lambda>s. set_stream_peers s count)
      (?L3\<lparr>lp_engine := engine, lp_last_peers := count, lp_out := sent\<rparr>)" "eg_transport engine = Some host'"
    using assms(1,3) pump by (auto simp: transport_stage_def Let_def take_revoked_def split: option.splits)
  have "runs X P (drained v L host) (core_of (?L3\<lparr>lp_engine := engine, lp_last_peers := count, lp_out := sent\<rparr>))"
    using pump_runs [OF assms(2), of X 0 16 "tv_pump v" _ ?L2 r host' out] pump L'(2)
    by (simp add: HostEndpoint_pump_def drained_def core_of_def Let_def)
  then show ?thesis unfolding L'(1)
    by (rule runs_locked [OF assms(2), rotated]) (simp add: quiet_defs)
qed

lemma reconnect_transport: "reconnect v self selected = (r, self') \<Longrightarrow> eg_transport self' = eg_transport self"
  using reconnect_cases [of v self selected] by auto

lemma reconnect_stage_runs:
  assumes "view_all P v"
  shows "runs X P (core_of L) (core_of (reconnect_stage v L))"
proof -
  let ?L = "others_run v (At_reconnect 0) L"
  obtain r engine where r: "reconnect (tv_discover v) (lp_engine L) (selected_output (lp_service ?L)) = (r, engine)" by fastforce
  from reconnect_transport [OF r] show ?thesis
    by (cases r) (auto simp: reconnect_stage_def r Let_def quiet_defs intro!: runs_intros assms split: list.split)
qed

lemma select_stage_runs:
  assumes "select_stage v L = (b, L')" and "view_all P v"
  shows "runs X P (core_of L) (core_of L')"
proof (cases "selected_output (lp_service (others_run v (At_select 0) L))")
  case None
  with assms show ?thesis by (auto simp: select_stage_def intro!: runs_intros)
next
  case (Some name)
  obtain r engine where out: "set_output (lp_engine L) name = (r, engine)" by (cases "set_output (lp_engine L) name")
  note keeps = set_output_keeps(4) [OF out]
  from assms(1) Some out keeps show ?thesis
    by (cases r) (auto simp: select_stage_def latch_protocol_failure_def Let_def quiet_defs intro!: runs_intros assms(2) split: if_splits)
qed

lemma fail_encoder_runs: "view_all P v \<Longrightarrow> runs X P c (core_of L) \<Longrightarrow> runs X P c (core_of (fail_encoder v L e))"
  by (auto simp: fail_encoder_def Let_def quiet_defs intro!: runs_intros)

lemma report_encoder_error_runs:
  "view_all P v \<Longrightarrow> runs X P c (core_of L) \<Longrightarrow> runs X P c (core_of (report_encoder_error v e L))"
  by (auto simp: report_encoder_error_def Let_def quiet_defs intro!: runs_intros)

lemma advance_timestamp_runs:
  "view_all P v \<Longrightarrow> runs X P c (core_of L) \<Longrightarrow> runs X P c (core_of (advance_timestamp v L))"
  by (auto simp: advance_timestamp_def Let_def intro!: runs_intros)

lemma pace_stage_runs: "view_all P v \<Longrightarrow> runs X P c (core_of L) \<Longrightarrow> runs X P c (core_of (pace_stage F v L))"
  by (auto simp: pace_stage_def note_capture_def Let_def quiet_defs intro!: runs_intros)

text \<open>Sending is a run of the endpoint's events.\<close>

lemma send_to_all_runs:
  "send_to_all X rnd sent k h ids t kf pt payload = (n, h', out) \<Longrightarrow> runs X P (s, fl, Some h) (s, fl, Some h')"
proof (induction ids arbitrary: k h n out)
  case (Cons d ids)
  obtain r h1 out1 where send: "send_frame X (rnd k) (sent k) h d t kf pt payload = (r, h1, out1)" by (metis prod_cases3)
  with Cons.prems obtain n' out' where rest: "send_to_all X rnd sent (k + 1) h1 ids t kf pt payload = (n', h', out')"
    by (auto split: prod.splits)
  have "lock_step X P (s, fl, Some h) (s, fl, Some h1)"
    using event [of X s "HostSend (rnd k) (sent k) d t kf pt payload" P fl h] send by simp
  with Cons.IH [OF rest] show ?case by (meson runs_refl runs_step runs_trans)
qed simp

lemma ship_units_runs:
  "ship_units X rnd sent w k enc h ids t = (r, enc', h', out) \<Longrightarrow> runs X P (s, fl, Some h) (s, fl, Some h')"
proof (induction "length (enc_rx enc)" arbitrary: enc k h r out rule: less_induct)
  case less
  obtain q enc1 where nxt: "next_access_unit_result w enc = (q, enc1)" by (cases "next_access_unit_result w enc")
  show ?case
  proof (cases "\<exists>au. q = Ok (Some au)")
    case True
    then obtain au where q: "q = Ok (Some au)" by blast
    then have len: "length (enc_rx enc1) < length (enc_rx enc)" using next_output [OF nxt] by auto
    obtain n h1 out1 where send: "send_to_all X rnd sent k h ids t (au_keyframe au) (codec_payload_type au) (payload_for enc1 au) = (n, h1, out1)"
      by (metis prod_cases3)
    obtain r2 out2 where "ship_units X rnd sent w (k + length ids) enc1 h1 ids t = (r2, enc', h', out2)"
      using less.prems nxt q send by (subst (asm) ship_units.simps) (auto split: prod.splits)
    from runs_trans [OF send_to_all_runs [OF send] less.hyps [OF len this]] show ?thesis .
  next
    case False
    then have "h' = h" using less.prems nxt by (subst (asm) ship_units.simps) (auto split: sum.splits option.splits)
    then show ?thesis by simp
  qed
qed

lemma encode_stage_runs:
  assumes "encode_stage X v host enc rgba L = (b, L')" and "eg_transport (lp_engine L) = Some host" and "view_all P v"
  shows "runs X P (core_of L) (core_of L')"
proof -
  let ?L = "advance_timestamp v L"
  have start: "runs X P (core_of L) (core_of ?L)" by (rule advance_timestamp_runs [OF assms(3) runs_refl])
  obtain q enc1 where e: "encode (tv_child v) (tv_enqueue_time v) enc rgba = (q, enc1)" by (cases "encode (tv_child v) (tv_enqueue_time v) enc rgba")
  show ?thesis
  proof (cases q)
    case (Inl err)
    with assms(1) e start show ?thesis by (auto simp: encode_stage_def Let_def intro!: fail_encoder_runs assms(3))
  next
    case (Inr outcome)
    obtain r enc2 host' out where s: "ship_units X (tv_rnd v) (tv_sent v) (cv_wait (tv_child v)) 0 (tv_threads v enc1) host (peer_ids host)
        (lp_timestamp ?L) = (r, enc2, host', out)" by (metis prod_cases4)
    let ?L2 = "?L\<lparr>lp_engine := (lp_engine ?L)\<lparr>eg_transport := Some host', eg_encoder := Some enc2\<rparr>, lp_out := lp_out ?L @ out\<rparr>"
    have "eg_transport (lp_engine ?L) = Some host" using assms(2) by (simp add: advance_timestamp_def Let_def)
    then have "runs X P (core_of ?L) (core_of ?L2)" using ship_units_runs [OF s] by (simp add: core_of_def)
    with start have two: "runs X P (core_of L) (core_of ?L2)" by (rule runs_trans)
    show ?thesis
    proof (cases r)
      case (Inl err)
      then have "L' = fail_encoder v ?L2 (''encoder: '' @ EncoderError_display err)"
        using assms(1) e Inr s by (simp add: encode_stage_def Let_def)
      with two show ?thesis by (simp add: fail_encoder_runs [OF assms(3)])
    next
      case shipped: (Inr n)
      let ?L3 = "if n > 0 then locked v (At_stream 3) (\<lambda>s. record_encoded s (of_nat n)) ?L2 else ?L2"
      have three: "runs X P (core_of L) (core_of ?L3)"
        using two runs_locked [OF assms(3) _ two, of "\<lambda>s. record_encoded s (of_nat n)"] by (simp add: quiet_defs)
      have "L' = locked v (At_stream 4) (\<lambda>s. set_encoder_with_drops s (Some (cand_name (enc_candidate enc2)))
          (is_software enc2) (enc_frames_in enc2) (enc_frames_out enc2) (enc_frames_dropped enc2)) ?L3"
        using assms(1) e Inr s shipped by (simp add: encode_stage_def Let_def)
      then show ?thesis using runs_locked [OF assms(3) _ three] by (simp add: quiet_defs)
    qed
  qed
qed

lemma stream_stage_runs:
  assumes "stream_stage X F v frame L = (b, L')" and "view_all P v"
  shows "runs X P (core_of L) (core_of L')"
proof (cases "\<exists>host. eg_transport (lp_engine L) = Some host \<and> peer_count host \<noteq> 0")
  case True
  then obtain host where host: "eg_transport (lp_engine L) = Some host" "peer_count host \<noteq> 0" by blast
  let ?N = "others_run v (At_stream 0) L"
  let ?M = "others_run v (At_stream 1) ?N"
  obtain r engine where e: "ensure_encoder F (tv_spawn v) (lp_engine L) (fr_width frame) (fr_height frame)
      (max (fps_target (lp_service ?N)) 1) (fo_max F (service_measured_fps (lp_service ?M)) (eg_measured_fps (lp_engine L))) = (r, engine)"
    by fastforce
  note keeps = ensure_encoder_transport [OF e]
  have two: "runs X P (core_of L) (core_of (?M\<lparr>lp_engine := engine\<rparr>))" using keeps by (intro runs_intros assms(2)) auto
  show ?thesis
  proof (cases "\<exists>ok enc. r = Ok ok \<and> eg_encoder engine = Some enc")
    case True
    then obtain enc where "encode_stage X v host enc (fr_rgba frame) (?M\<lparr>lp_engine := engine\<rparr>) = (b, L')"
      using assms(1) host e by (auto simp: stream_stage_def Let_def)
    from encode_stage_runs [OF this _ assms(2)] keeps host(1) two show ?thesis by (auto intro: runs_trans)
  next
    case False
    have "runs X P (core_of L) (core_of (?M\<lparr>lp_engine := engine\<lparr>eg_encoder := None\<rparr>\<rparr>))" using keeps by (intro runs_intros assms(2)) auto
    with False assms(1) host e two show ?thesis
      by (auto simp: stream_stage_def Let_def split: option.splits sum.splits
          intro!: report_encoder_error_runs advance_timestamp_runs assms(2))
  qed
next
  case False
  with assms(1) show ?thesis by (auto simp: stream_stage_def split: option.splits if_splits)
qed

lemma capture_stage_runs:
  assumes "capture_stage X F v L = Some L'" and "view_all P v"
  shows "runs X P (core_of L) (core_of L')"
proof -
  let ?c = "capture_once (eg_backend (lp_engine L)) (tv_capture v) (tv_capture_tick v) (eg_state (lp_engine L))
      (eg_output (lp_engine L)) (eg_transform (lp_engine L))"
  obtain outcome state reqs n where c: "?c = Some (outcome, state, reqs, n)"
    using assms(1) by (auto simp: capture_stage_def Let_def split: option.splits)
  let ?L1 = "L\<lparr>lp_engine := (lp_engine L)\<lparr>eg_state := state\<rparr>\<rparr>"
  have one: "runs X P (core_of L) (core_of ?L1)" by (simp add: runs_engine)
  show ?thesis
  proof (cases outcome)
    case (CapOk captured)
    let ?L2 = "locked v At_captured (\<lambda>s. record_capture (f64_ops.truncate F) (tv_now v 1) s (cf_timings captured)) ?L1"
    obtain b L3 where s: "stream_stage X F v (cf_frame captured) ?L2 = (b, L3)" by (cases "stream_stage X F v (cf_frame captured) ?L2")
    have "runs X P (core_of L) (core_of ?L2)" by (rule runs_locked [OF assms(2) _ one]) (simp add: quiet_defs)
    with stream_stage_runs [OF s assms(2)] have "runs X P (core_of L) (core_of L3)" by (metis runs_trans)
    moreover have "L' = (if b then pace_stage F v L3 else L3)"
      using assms(1) c CapOk s by (simp add: capture_stage_def Let_def split: bool.splits)
    ultimately show ?thesis by (simp add: pace_stage_runs [OF assms(2)])
  next
    case (CapErr e)
    then show ?thesis using assms c one
      by (auto simp: capture_stage_def latch_protocol_failure_def quiet_defs intro!: runs_intros split: if_splits)
  qed (use assms c in \<open>simp add: capture_stage_def Let_def\<close>)
qed

text \<open>A turn behind its transport stage, and a whole turn.\<close>

lemma engine_turn_runs:
  assumes "engine_turn X F v L = Some L'" and "view_all P v"
  obtains L1 where "transport_stage X v L = Some L1" "runs X P (core_of L1) (core_of L')"
proof -
  obtain L1 where t: "transport_stage X v L = Some L1" using assms(1) by (auto simp: engine_turn_def split: option.splits)
  let ?L = "others_run v At_check L1"
  have first: "runs X P (core_of L1) (core_of ?L)" by (rule runs_others [OF assms(2) runs_refl])
  obtain b L2 where s: "select_stage v ?L = (b, L2)" by (cases "select_stage v ?L")
  have "runs X P (core_of ?L) (core_of L')"
  proof (cases "is_streaming (lp_service ?L) \<and> \<not> wayland_protocol_failed (tv_connection_error v) (lp_engine ?L)")
    case False
    then have "L' = ?L\<lparr>lp_last_frame := tv_now v 0\<rparr> \<or> L' = reconnect_stage v ?L"
      using assms(1) t by (auto simp: engine_turn_def Let_def split: if_splits)
    then show ?thesis using reconnect_stage_runs [OF assms(2), of X ?L] by auto
  next
    case True
    then have "if b then capture_stage X F v L2 = Some L' else L' = L2"
      using assms(1) t s by (cases b) (simp_all add: engine_turn_def Let_def)
    then show ?thesis
      using select_stage_runs [OF s assms(2), of X] capture_stage_runs [OF _ assms(2), of X F L2 L'] runs_trans
      by (cases b) fastforce+
  qed
  with first have "runs X P (core_of L1) (core_of L')" by (rule runs_trans)
  with t show ?thesis by (rule that)
qed

lemma turn_runs:
  assumes "engine_turn X F v L = Some L'" and "view_all P v" and "eg_transport (lp_engine L) = Some host"
  shows "runs X P (core_of L) (drained v L host) \<and> runs X P (drained v L host) (core_of L')"
  using engine_turn_runs [OF assms(1,2)] transport_stage_runs [OF _ assms(2,3)] transport_drains [OF assms(2,3)]
  by (metis runs_trans)

section \<open>What the locked sections keep\<close>

text \<open>Other threads run the program with the same primitives.  \<open>revokes d\<close> is a command to revoke \<open>d\<close>.\<close>

fun outside_ok :: "crypto_ext \<Rightarrow> outside \<Rightarrow> bool" where
  "outside_ok X (Handles V f req) \<longleftrightarrow> ve_crypto V = X"
| "outside_ok X _ \<longleftrightarrow> True"

fun revokes :: "string \<Rightarrow> outside \<Rightarrow> bool" where
  "revokes d (Handles V f req) \<longleftrightarrow> (case rq_command req of CmdRevoke args \<Rightarrow> ra_device args = d | _ \<Rightarrow> False)"
| "revokes d _ \<longleftrightarrow> False"

abbreviation outside_view :: "crypto_ext \<Rightarrow> turn_view \<Rightarrow> bool" where
  "outside_view X \<equiv> view_all (outside_ok X)"

text \<open>A command that is no revocation leaves the list of the engine alone, and changes the trust store only as pairing.\<close>

lemma service_handle_store:
  assumes "service_handle V f s req = Some (r, s', g)" and "\<And>args. rq_command req \<noteq> CmdRevoke args"
  obtains (same) "sv_pairing s' = sv_pairing s" "in_revoked_pending (sv_inner s') = in_revoked_pending (sv_inner s)"
  | (code) o1 g1 where "new_code (ve_crypto V) (ve_draws V) (ve_salt V) (ve_clock V) (ve_save V) f (sv_pairing s) = Some (o1, sv_pairing s', g1)"
      "in_revoked_pending (sv_inner s') = in_revoked_pending (sv_inner s)"
  | (accept) inp nm pk o1 g1 where "accept_code (ve_crypto V) (ve_clock V) (ve_save V) f (sv_pairing s) inp nm pk = (o1, sv_pairing s', g1)"
      "in_revoked_pending (sv_inner s') = in_revoked_pending (sv_inner s)"
proof (cases "rq_command req")
  case (CmdStart args)
  then have "s' = snd (handle_start s (rq_id req) args)" using assms(1) by (auto simp: service_handle_def split: prod.splits)
  then show ?thesis by (intro same) (auto simp: handle_start_def Let_def reset_metrics_def split: option.splits)
next
  case CmdStop
  then show ?thesis using assms(1) by (intro same) (auto simp: service_handle_def handle_stop_def Let_def)
next
  case (CmdSelect args)
  then show ?thesis using assms(1)
    by (intro same) (auto simp: service_handle_def handle_select_def Let_def split: if_splits)
next
  case (CmdPair args)
  then have pair: "handle_pair V f s (rq_id req) args = Some (r, s', g)" using assms(1) by (simp add: service_handle_def Let_def)
  show ?thesis
  proof (cases "pa_action args")
    case PairNew
    with pair obtain o1 db g1 where
        "new_code (ve_crypto V) (ve_draws V) (ve_salt V) (ve_clock V) (ve_save V) f (sv_pairing s) = Some (o1, db, g1)"
        "s' = s\<lparr>sv_pairing := db\<rparr>"
      by (auto simp: handle_pair_def split: option.splits)
    then show ?thesis by (intro code) simp_all
  next
    case PairAccept
    show ?thesis
    proof (cases "pa_code args = None \<or> pa_name args = None \<or> pa_public_key args = None")
      case True
      with pair PairAccept have "s' = s" by (auto simp: handle_pair_def split: option.splits)
      then show ?thesis by (intro same) simp_all
    next
      case False
      then obtain inp nm pk where given: "pa_code args = Some inp" "pa_name args = Some nm" "pa_public_key args = Some pk" by auto
      obtain o1 db g1 where acc: "accept_code (ve_crypto V) (ve_clock V) (ve_save V) f (sv_pairing s) inp nm pk = (o1, db, g1)"
        using prod_cases3 by blast
      with pair PairAccept given have "s' = s\<lparr>sv_pairing := db\<rparr>" by (simp add: handle_pair_def)
      with acc show ?thesis by (intro accept) simp_all
    qed
  qed
next
  case (CmdRevoke args)
  then show ?thesis using assms(2) [of args] by simp
qed ((rule same; insert assms(1); simp add: service_handle_def Let_def)+)

lemma outside_step_store:
  assumes "outside_step (s, fl) op = (s', fl')" and "outside_ok X op" and "db_inv X (sv_pairing s)"
  shows "db_inv X (sv_pairing s')" (is ?inv)
    and "revoked_in d (sv_pairing s') \<Longrightarrow> revoked_in d (sv_pairing s) \<or> revokes d op" (is "_ \<Longrightarrow> ?back")
    and "set (in_revoked_pending (sv_inner s)) \<subseteq> set (in_revoked_pending (sv_inner s'))" (is ?queue)
proof -
  have "?inv \<and> (revoked_in d (sv_pairing s') \<longrightarrow> ?back) \<and> ?queue"
  proof (cases op)
    case (Handles V f req)
    then have X: "ve_crypto V = X" using assms(2) by simp
    show ?thesis
    proof (cases "\<exists>args. rq_command req = CmdRevoke args")
      case True
      then obtain args where args: "rq_command req = CmdRevoke args" by blast
      obtain o1 db g where rev: "revoke (ve_clock V) (ve_save V) f (sv_pairing s) (ra_device args) = (o1, db, g)" using prod_cases3 by blast
      have "s' = s\<lparr>sv_pairing := db\<rparr>" using assms(1) Handles args rev by simp
      with revoke_inv [OF assms(3) rev] revoke_revoked_back [OF rev, of d] show ?thesis by (auto simp: Handles args)
    next
      case False
      show ?thesis
      proof (cases "service_handle V f s req")
        case None
        then have "s' = s" using assms(1) Handles False by (auto split: Command.splits)
        with assms(3) show ?thesis by simp
      next
        case (Some out)
        obtain r s1 g where out: "out = (r, s1, g)" by (cases out)
        then have "s1 = s'" using assms(1) Handles False Some by (auto split: Command.splits)
        with Some out have "service_handle V f s req = Some (r, s', g)" by simp
        moreover have "\<And>args. rq_command req \<noteq> CmdRevoke args" using False by blast
        ultimately show ?thesis
        proof (cases rule: service_handle_store)
          case code
          note here = code [unfolded X]
          from new_code_inv [OF assms(3) here(1)] new_code_revoked_back [OF here(1)] here(2) show ?thesis by simp
        next
          case accept
          note here = accept [unfolded X]
          from accept_code_inv [OF assms(3) here(1)] accept_revoked_back [OF here(1)] here(2) show ?thesis by simp
        qed (use False assms(3) in auto)
      qed
    qed
  qed (use assms(1,3) in \<open>auto simp: push_revoked_def request_shutdown_def split: if_splits\<close>)
  then show ?inv "revoked_in d (sv_pairing s') \<Longrightarrow> ?back" ?queue by blast+
qed

text \<open>The store and the endpoint keep their invariants; a device that is not revoked anew stays out once it is out.\<close>

fun core_sound :: "crypto_ext \<Rightarrow> core \<Rightarrow> bool" where
  "core_sound X (s, fl, t) \<longleftrightarrow> db_inv X (sv_pairing s) \<and> (case t of None \<Rightarrow> True | Some h \<Rightarrow> host_inv h)"

fun kept_out :: "crypto_ext \<Rightarrow> bytes \<Rightarrow> core \<Rightarrow> bool" where
  "kept_out X d (s, fl, t) \<longleftrightarrow>
     (case t of None \<Rightarrow> True | Some h \<Rightarrow> revoked_in (hex_encode X d) (sv_pairing s) \<longrightarrow> absent d h)"

definition fresh_ok :: "crypto_ext \<Rightarrow> bytes \<Rightarrow> outside \<Rightarrow> bool" where
  "fresh_ok X d op \<longleftrightarrow> outside_ok X op \<and> \<not> revokes (hex_encode X d) op"

lemma lock_step_sound:
  assumes "lock_step X P c c'" and "\<And>op. P op \<Longrightarrow> outside_ok X op" and "core_sound X c"
  shows "core_sound X c'"
  using assms(1)
proof cases
  case (outside op s fl s' fl' t)
  then show ?thesis using outside_step_store(1) assms(2,3) by auto
next
  case (report s s' fl t)
  then show ?thesis using assms(3) by (simp add: quiet_def)
next
  case (drain s ids s' h fl)
  then show ?thesis using assms(3) disconnect_all_inv by (auto simp: take_revoked_def)
next
  case (event s ev fl h)
  then show ?thesis using assms(3) host_step_inv by auto
qed

lemma lock_step_kept_out:
  assumes "lock_step X (fresh_ok X d) c c'" and "core_sound X c" and "kept_out X d c"
  shows "kept_out X d c'"
  using assms(1)
proof cases
  case (outside op s fl s' fl' t)
  then show ?thesis using outside_step_store(2) [of s fl op s' fl' X "hex_encode X d"] assms(2,3)
    by (auto simp: fresh_ok_def split: option.splits)
next
  case (report s s' fl t)
  then show ?thesis using assms(3) by (auto simp: quiet_def split: option.splits)
next
  case (drain s ids s' h fl)
  then show ?thesis using assms(3) absent_disconnect_all by (auto simp: take_revoked_def)
next
  case (event s ev fl h)
  then show ?thesis using engine_event_keeps_out assms(2,3) by auto
qed

interpretation lock_sound: invariant_relation "lock_step X (outside_ok X)" "core_sound X" for X
  by unfold_locales (blast intro: lock_step_sound)

interpretation lock_out: invariant_relation "lock_step X (fresh_ok X d)" "\<lambda>c. core_sound X c \<and> kept_out X d c" for X d
  by unfold_locales (auto simp: fresh_ok_def intro: lock_step_sound lock_step_kept_out)

text \<open>A turn disconnects what is queued at its beginning, and keeps it out unless it is revoked anew or re-paired.\<close>

lemma queued_disconnected:
  assumes "view_all (fresh_ok X d) v" and "d \<in> set (in_revoked_pending (sv_inner (lp_service L)))"
    and "eg_transport (lp_engine L) = Some host" and "core_sound X (core_of L)"
  shows "kept_out X d (drained v L host)"
proof -
  have "set (in_revoked_pending (sv_inner s)) \<subseteq> set (in_revoked_pending (sv_inner s'))"
    if "foldl outside_step (s, fl) ops = (s', fl')" "list_all (outside_ok X) ops" "db_inv X (sv_pairing s)" for s fl s' fl' ops
    using that
  proof (induction ops arbitrary: s fl)
    case (Cons op ops)
    obtain s1 fl1 where step: "outside_step (s, fl) op = (s1, fl1)" by (cases "outside_step (s, fl) op")
    have "db_inv X (sv_pairing s1)" "set (in_revoked_pending (sv_inner s)) \<subseteq> set (in_revoked_pending (sv_inner s1))"
      using outside_step_store(1,3) [OF step, of X] Cons.prems by simp_all
    with Cons.IH [of s1 fl1] Cons.prems step show ?case by auto
  qed simp
  moreover have "list_all (outside_ok X) (tv_others v At_drain)"
    using assms(1) by (auto simp: view_all_def fresh_ok_def list_all_iff)
  ultimately have "d \<in> set (in_revoked_pending (sv_inner (lp_service (others_run v At_drain L))))"
    using assms(2,4) by (fastforce simp: others_run_def run_outside_def core_of_def split: prod.splits)
  then show ?thesis using absent_disconnect_all by (simp add: drained_def Let_def)
qed

lemma turn_disconnects:
  assumes "engine_turn X F v L = Some L'" and "view_all (fresh_ok X d) v" and "eg_transport (lp_engine L) = Some host"
    and "core_sound X (core_of L)" and "d \<in> set (in_revoked_pending (sv_inner (lp_service L)))"
  shows "kept_out X d (core_of L')"
proof -
  note parts = turn_runs [OF assms(1-3), unfolded runs_def]
  have "core_sound X (drained v L host)"
    using parts lock_step_sound [of X "fresh_ok X d"] assms(4)
    by (auto simp: fresh_ok_def elim: rtranclp_induct)
  with queued_disconnected [OF assms(2,5,3,4)] lock_out.reach_inv parts show ?thesis by blast
qed

section \<open>The loop as a run of the revocation system\<close>

fun sys_rel :: "core \<Rightarrow> system \<Rightarrow> bool" where
  "sys_rel (s, fl, t) sys \<longleftrightarrow> sy_service sys = s \<and> sy_inflight sys = fl \<and> t = Some (sy_host sys)"

lemma quiet_step:
  assumes "quiet s s'"
  shows "sys_step X \<lparr>sy_service = s, sy_host = h, sy_inflight = f, sy_unsaved = u\<rparr> \<lparr>sy_service = s', sy_host = h, sy_inflight = f, sy_unsaved = u\<rparr>"
proof -
  have "s' = s\<lparr>sv_inner := sv_inner s', sv_shutdown := sv_shutdown s'\<rparr>"
    using assms by (cases s; cases s') (simp add: quiet_def)
  then show ?thesis
    using state_step [of "sv_inner s'" "\<lparr>sy_service = s, sy_host = h, sy_inflight = f, sy_unsaved = u\<rparr>" X "sv_shutdown s'"] assms
    by (simp add: quiet_def)
qed

lemma outside_step_run:
  assumes "outside_ok X op" and "outside_step (sy_service sys, sy_inflight sys) op = (s', fl')"
  shows "\<exists>u. sys_run X sys (sys\<lparr>sy_service := s', sy_inflight := fl', sy_unsaved := u\<rparr>)"
proof (cases op)
  case (Handles V f req)
  have stay: "sys_run X sys (sys\<lparr>sy_service := sy_service sys, sy_inflight := sy_inflight sys, sy_unsaved := sy_unsaved sys\<rparr>)"
    by simp
  show ?thesis
  proof (cases "\<exists>args. rq_command req = CmdRevoke args")
    case True
    then obtain args where args: "rq_command req = CmdRevoke args" by blast
    obtain o1 db g where rev: "revoke (ve_clock V) (ve_save V) f (sy_db sys) (ra_device args) = (o1, db, g)" using prod_cases3 by blast
    note out = assms(2) [unfolded Handles]
    consider e where "o1 = Err e" | dev bs where "o1 = Ok dev" "decode_device_id (dev_id dev) = Some bs"
      | dev where "o1 = Ok dev" "decode_device_id (dev_id dev) = None" by (cases o1) auto
    then show ?thesis
    proof cases
      case 1
      then show ?thesis using revoke_fails_step [of _ _ _ sys "ra_device args" _ db g X] rev out args
        by (intro exI [of _ "ra_device args # sy_unsaved sys"] r_into_rtranclp) (cases sys; auto)
    next
      case 2
      then show ?thesis using revoke_step [of _ _ _ sys "ra_device args" dev db g bs X] rev out args
        by (intro exI [of _ "sy_unsaved sys"] r_into_rtranclp) (cases sys; auto split: option.splits)
    next
      case 3
      then show ?thesis using revoke_panics_step [of _ _ _ sys "ra_device args" dev db g X] rev out args
        by (intro exI [of _ "ra_device args # sy_unsaved sys"] r_into_rtranclp) (cases sys; auto)
    qed
  next
    case False
    show ?thesis
    proof (cases "service_handle V f (sy_service sys) req")
      case None
      then have "s' = sy_service sys" "fl' = sy_inflight sys" using assms(2) Handles False by (auto split: Command.splits)
      with stay show ?thesis by blast
    next
      case (Some res)
      obtain r s1 g where "res = (r, s1, g)" by (cases res)
      then have "service_handle V f (sy_service sys) req = Some (r, s', g)" "fl' = sy_inflight sys"
        using assms(2) Handles False Some by (auto split: Command.splits)
      with service_handle_run [of V f sys req r s' g X] assms(1) Handles show ?thesis by simp
    qed
  qed
next
  case (Pushes i)
  show ?thesis
  proof (cases "i < length (sy_inflight sys)")
    case True
    let ?b = "sy_inflight sys ! i" and ?rest = "take i (sy_inflight sys) @ drop (Suc i) (sy_inflight sys)"
    have "sy_inflight sys = take i (sy_inflight sys) @ ?b # drop (Suc i) (sy_inflight sys)" using True by (rule id_take_nth_drop)
    then have "set (?b # ?rest) = set (sy_inflight sys)" by (metis Un_insert_right list.simps(15) set_append)
    then have "sys_step X sys (sys\<lparr>sy_inflight := ?b # ?rest\<rparr>)" by (rule reorder_step)
    moreover have "sys_step X (sys\<lparr>sy_inflight := ?b # ?rest\<rparr>) (sys\<lparr>sy_service := s', sy_inflight := fl'\<rparr>)"
      using push_step [of "sys\<lparr>sy_inflight := ?b # ?rest\<rparr>" ?b ?rest X] True Pushes assms(2) by simp
    ultimately have "sys_run X sys (sys\<lparr>sy_service := s', sy_inflight := fl'\<rparr>)" by (meson r_into_rtranclp rtranclp.rtrancl_into_rtrancl)
    then show ?thesis by (intro exI [of _ "sy_unsaved sys"]) simp
  next
    case False
    with Pushes assms(2) show ?thesis by (intro exI [of _ "sy_unsaved sys"]) auto
  qed
next
  case Stops
  have "sys_step X sys (sys\<lparr>sy_service := (sy_service sys)\<lparr>sv_inner := sv_inner (sy_service sys), sv_shutdown := True\<rparr>\<rparr>)"
    by (rule state_step) simp
  then show ?thesis using Stops assms(2) by (intro exI [of _ "sy_unsaved sys"] r_into_rtranclp) (auto simp: request_shutdown_def)
qed

lemma lock_step_simulated:
  assumes "sys_rel c sys" and "lock_step X (outside_ok X) c c'"
  shows "\<exists>sys'. sys_run X sys sys' \<and> sys_rel c' sys'"
  using assms(2)
proof cases
  case (outside op s fl s' fl' t)
  with assms(1) outside_step_run [of X op sys s' fl'] show ?thesis by fastforce
next
  case (report s s' fl t)
  then have sys: "sys = \<lparr>sy_service = s, sy_host = sy_host sys, sy_inflight = fl, sy_unsaved = sy_unsaved sys\<rparr>" and t: "t = Some (sy_host sys)"
    using assms(1) by auto
  from quiet_step [OF report(3), of X "sy_host sys" fl "sy_unsaved sys"] t report(2) show ?thesis
    unfolding sys [symmetric] by (intro exI [of _ "\<lparr>sy_service = s', sy_host = sy_host sys, sy_inflight = fl, sy_unsaved = sy_unsaved sys\<rparr>"]) auto
next
  case (drain s ids s' h fl)
  with assms(1) drain_step [of sys ids s' X] show ?thesis
    by (intro exI [of _ "sys\<lparr>sy_service := s', sy_host := disconnect_all ids (sy_host sys)\<rparr>"]) auto
next
  case (event s ev fl h)
  with assms(1) host_event_step [of X sys ev] show ?thesis
    by (intro exI [of _ "sys\<lparr>sy_host := host_step X (sy_host sys) ev\<rparr>"]) auto
qed

interpretation engine_sim: forward_simulation "lock_step X (outside_ok X)" "sys_step X" sys_rel for X
  by unfold_locales (rule lock_step_simulated)

interpretation engine: invariant_simulation "lock_step X (outside_ok X)" "sys_step X" sys_rel "\<lambda>s. hex_two_digits X \<and> sys_inv X s" for X
  by unfold_locales

text \<open>Every run of the loop is a run of locked sections.\<close>

definition turns_ok :: "crypto_ext \<Rightarrow> (turn_view \<times> outside list \<times> bool) list \<Rightarrow> bool" where
  "turns_ok X vs \<longleftrightarrow> (\<forall>(v, before, signalled) \<in> set vs. outside_view X v \<and> list_all (outside_ok X) before)"

lemma runs_host:
  "runs X P c c' \<Longrightarrow> (snd (snd c) = None) = (snd (snd c') = None)"
  unfolding runs_def by (induction rule: rtranclp_induct) (auto elim!: lock_stepE)

lemma run_engine_runs:
  assumes "run_engine X F vs L = Some (L', ended)" and "turns_ok X vs" and "eg_transport (lp_engine L) = Some host"
  shows "runs X (outside_ok X) (core_of L) (core_of L') \<and> (\<exists>host'. eg_transport (lp_engine L') = Some host')"
  using assms
proof (induction X F vs L arbitrary: host rule: run_engine.induct)
  case (2 X F v before signalled vs L)
  let ?M = "run_outside before L"
  have host: "eg_transport (lp_engine ?M) = Some host" using 2(4) by (simp add: run_outside_def split: prod.split)
  have ok: "view_all (outside_ok X) v" "list_all (outside_ok X) before" "turns_ok X vs"
    using 2(3) by (auto simp: turns_ok_def)
  have first: "runs X (outside_ok X) (core_of L) (core_of ?M)" by (rule runs_before [OF ok(2) runs_refl])
  show ?case
  proof (cases "is_shutting_down (lp_service ?M) \<or> signalled")
    case True
    then have "L' = ?M" using 2(2) by (simp add: Let_def)
    with first host show ?thesis by simp
  next
    case False
    then obtain L2 where L2: "engine_turn X F v ?M = Some L2" "run_engine X F vs L2 = Some (L', ended)"
      using 2(2) by (auto simp: Let_def split: option.splits)
    have turn: "runs X (outside_ok X) (core_of ?M) (core_of L2)" using turn_runs [OF L2(1) ok(1) host] runs_trans by blast
    then obtain host2 where "eg_transport (lp_engine L2) = Some host2" using host runs_host [OF turn] by (auto simp: core_of_def)
    from 2(1) [OF refl False L2 ok(3) this] first turn show ?thesis by (meson runs_trans)
  qed
qed simp

lemma engine_start_related:
  assumes "eg_transport engine = Some host"
  shows "\<exists>s. sys_run X (sys_init db key host) s \<and> sys_rel (core_of (engine_start engine (Service_new db key) now)) s"
proof -
  let ?L = "engine_start engine (Service_new db key) now"
  have "sys_step X (sys_init db key host) \<lparr>sy_service = lp_service ?L, sy_host = host, sy_inflight = [], sy_unsaved = []\<rparr>"
    using quiet_step [of "Service_new db key" "lp_service ?L"] by (simp add: sys_init_def engine_start_def quiet_defs)
  then show ?thesis using assms
    by (intro exI [of _ "\<lparr>sy_service = lp_service ?L, sy_host = host, sy_inflight = [], sy_unsaved = []\<rparr>"])
      (auto simp: core_of_def engine_start_def)
qed

text \<open>What holds after every run: the invariant of the system, a well-formed trust store and bounded handshakes.\<close>

lemma engine_refines:
  assumes "run_engine X F vs (engine_start engine (Service_new db key) now) = Some (L, ended)"
    and "eg_transport engine = Some host" and "turns_ok X vs"
    and "db_inv X db" and "HostEndpoint_bind io ident = Ok host" and "hex_two_digits X"
  shows "\<exists>s. sys_run X (sys_init db key host) s \<and> sys_rel (core_of L) s \<and> sys_inv X s"
proof -
  let ?start = "engine_start engine (Service_new db key) now"
  obtain s0 where s0: "sys_run X (sys_init db key host) s0" "sys_rel (core_of ?start) s0"
    using engine_start_related [OF assms(2)] by blast
  have "eg_transport (lp_engine ?start) = Some host" using assms(2) by (simp add: engine_start_def)
  from run_engine_runs [OF assms(1,3) this] have "(lock_step X (outside_ok X))\<^sup>*\<^sup>* (core_of ?start) (core_of L)"
    by (simp add: runs_def)
  from engine.inv_carried [OF this s0(2)] sys_run_inv [OF s0(1) assms(6) sys_init_inv [OF assms(4,5)]] assms(6)
  obtain s where "sys_run X s0 s" "sys_rel (core_of L) s" "sys_inv X s" by blast
  with s0(1) show ?thesis by (meson rtranclp_trans)
qed

lemma engine_state_sound:
  assumes "run_engine X F vs (engine_start engine (Service_new db key) now) = Some (L, ended)"
    and "eg_transport engine = Some host" and "turns_ok X vs"
    and "db_inv X db" and "HostEndpoint_bind io ident = Ok host" and "hex_two_digits X"
  shows "db_inv X (sv_pairing (lp_service L)) \<and> (\<exists>host'. eg_transport (lp_engine L) = Some host' \<and> host_inv host')"
  using engine_refines [OF assms] by (auto simp: core_of_def sys_inv_def)

lemma absent_out: "absent d host \<longleftrightarrow> d \<notin> set (peer_ids host) \<and> (\<forall>(a, p) \<in> set (pending host). pn_device_id p \<noteq> d)"
  by (auto simp: absent_def peer_ids_def map_of_eq_None_iff)

text \<open>
  C30 The engine loop refines the revocation system, and every turn carries the revocations out.  Control threads may run
  between any two accesses of the engine to the service, also between the datagrams of one turn, and a
  revocation may be between its two locked sections at any of them.  Then, after any number of turns: the
  service, the endpoint and the revocations under way are those of a run of that system from its initial state,
  so every handshake was judged by the trust store at that moment, and a revoked device that still has a session or
  handshake is queued, under way, or its revocation has failed.  And whatever happens during the next
  turn, it leaves no session and no handshake of a device that is queued when it begins and revoked when it
  ends, provided no command revokes that device once more during the turn (it could have been re-paired and
  connected in between, and is then queued again).
\<close>

theorem engine_refines_system:
  assumes "run_engine X F vs (engine_start engine (Service_new db key) now) = Some (L, ended)"
    and "eg_transport engine = Some host" and "turns_ok X vs"
    and "db_inv X db" and "HostEndpoint_bind io ident = Ok host" and "hex_two_digits X"
  shows "(\<exists>s. sys_run X (sys_init db key host) s \<and> sy_service s = lp_service L
            \<and> eg_transport (lp_engine L) = Some (sy_host s) \<and> sy_inflight s = lp_inflight L \<and> scheduled X s)
         \<and> (\<forall>v L' d. engine_turn X F v L = Some L' \<longrightarrow> view_all (fresh_ok X d) v
              \<longrightarrow> d \<in> set (in_revoked_pending (sv_inner (lp_service L)))
              \<longrightarrow> revoked_in (hex_encode X d) (sv_pairing (lp_service L'))
              \<longrightarrow> (\<exists>host'. eg_transport (lp_engine L') = Some host'
                    \<and> d \<notin> set (peer_ids host') \<and> (\<forall>(a, p) \<in> set (pending host'). pn_device_id p \<noteq> d)))"
    (is "?run \<and> ?turns")
proof (intro conjI allI impI)
  show ?run using engine_refines [OF assms] by (auto simp: core_of_def sys_inv_def)
next
  fix v L' d
  assume turn: "engine_turn X F v L = Some L'" and v: "view_all (fresh_ok X d) v"
    and queued: "d \<in> set (in_revoked_pending (sv_inner (lp_service L)))"
    and revoked: "revoked_in (hex_encode X d) (sv_pairing (lp_service L'))"
  obtain h where h: "eg_transport (lp_engine L) = Some h" "core_sound X (core_of L)"
    using engine_state_sound [OF assms] by (auto simp: core_of_def)
  obtain h' where h': "eg_transport (lp_engine L') = Some h'"
    using turn_runs [OF turn v h(1)] runs_host [of X "fresh_ok X d" "core_of L" "core_of L'"] h(1) runs_trans
    by (fastforce simp: core_of_def)
  from turn_disconnects [OF turn v h queued] revoked h' have "absent d h'" by (simp add: core_of_def)
  with h' show "\<exists>host'. eg_transport (lp_engine L') = Some host'
      \<and> d \<notin> set (peer_ids host') \<and> (\<forall>(a, p) \<in> set (pending host'). pn_device_id p \<noteq> d)"
    by (simp add: absent_out)
qed

text \<open>A device is revoked while the first turn is in its pump, and its id queued behind the pump; the second turn disconnects it.\<close>

definition sample_revocation :: outside where
  "sample_revocation =
     Handles (sample_venv\<lparr>ve_clock := Some 9\<rparr>) (\<lambda>_. None)
       \<lparr>rq_v = 1, rq_id = ''1'', rq_command = CmdRevoke \<lparr>ra_device = dev_id sample_device\<rparr>\<rparr>"

definition revoking_view :: turn_view where
  "revoking_view = sample_view\<lparr>tv_others := (\<lambda>p. if p = At_datagram 0 then [sample_revocation] else if p = At_peers then [Pushes 0] else [])\<rparr>"

lemma sample_revocation_step:
  assumes "sv_pairing s = sample_paired"
  shows "\<exists>db. outside_step (s, fl) sample_revocation = (s\<lparr>sv_pairing := db\<rparr>, as_bytes ''emersia/'' # fl)
           \<and> revoked_in (hex_encode sample_crypto (as_bytes ''emersia/'')) db"
proof -
  let ?d = "as_bytes ''emersia/''"
  obtain dev db g where rev: "revoke (Some 9) sample_env (\<lambda>_. None) sample_paired (dev_id sample_device) = (Ok dev, db, g)"
    using sample_revoke by blast
  have "map_of (db_devices (pdb_db sample_paired)) (dev_id sample_device) = Some sample_device" "\<not> dev_revoked sample_device"
    by (simp_all add: sample_paired_def sample_device_def)
  then have "revoked_in (hex_encode sample_crypto ?d) db"
    using rev sample_device_hex by (auto simp: revoke_def Let_def revoked_in_def split: option.splits if_splits dest!: save_then_Ok)
  moreover have "decode_device_id (dev_id dev) = Some (Some ?d)"
    using revoke_Ok_id [OF sample_paired_inv rev] sample_device_hex decode_device_id_hex [OF sample_hex_two_digits, of ?d]
    by (simp add: as_bytes_def)
  ultimately show ?thesis using rev assms
    by (intro exI [of _ db]) (simp add: sample_revocation_def sample_venv_def)
qed

lemma sample_pump: "HostEndpoint_pump X 16 sample_quiet host auth = Some (Ok 0, prune_pending 0 host, [])"
  by (simp add: HostEndpoint_pump_def sample_quiet_def Let_def numeral_eq_Suc)

lemma revoking_pump: "pump_others revoking_view 16 L = run_outside [sample_revocation] L"
proof -
  have "pump_others revoking_view (Suc n) L = run_outside [sample_revocation] L" for n
    by (induction n) (simp_all add: others_run_def revoking_view_def run_outside_def split: prod.split)
  from this [of 15] show ?thesis by simp
qed

lemma sample_revoking_turn:
  "\<exists>L. run_engine sample_crypto sample_engine_float [(revoking_view, [], False)]
          (engine_start (sample_engine\<lparr>eg_transport := Some sample_host\<rparr>) (Service_new sample_paired ''k'') 0) = Some (L, False)
     \<and> as_bytes ''emersia/'' \<in> set (in_revoked_pending (sv_inner (lp_service L)))
     \<and> revoked_in (hex_encode sample_crypto (as_bytes ''emersia/'')) (sv_pairing (lp_service L))
     \<and> \<not> in_streaming (sv_inner (lp_service L)) \<and> eg_transport (lp_engine L) \<noteq> None"
proof -
  let ?start = "engine_start (sample_engine\<lparr>eg_transport := Some sample_host\<rparr>) (Service_new sample_paired ''k'') 0"
  have start: "\<not> in_streaming (sv_inner (lp_service ?start))" "sv_pairing (lp_service ?start) = sample_paired"
      "\<not> sv_shutdown (lp_service ?start)" "lp_inflight ?start = []" "eg_transport (lp_engine ?start) = Some sample_host"
    by (simp_all add: engine_start_def Service_new_def Inner_default_def publish_discovery_def)
  let ?drained = "snd (take_revoked (lp_service ?start))"
  obtain db where step: "outside_step (?drained, []) sample_revocation = (?drained\<lparr>sv_pairing := db\<rparr>, [as_bytes ''emersia/''])"
      "revoked_in (hex_encode sample_crypto (as_bytes ''emersia/'')) db"
    using sample_revocation_step [of ?drained "[]"] start(2) by (auto simp: take_revoked_def)
  let ?M = "?start\<lparr>lp_service := ?drained\<rparr>"
  have pumped: "pump_others revoking_view 16 ?M = ?M\<lparr>lp_service := ?drained\<lparr>sv_pairing := db\<rparr>, lp_inflight := [as_bytes ''emersia/'']\<rparr>"
    using step(1) start(4) by (simp add: revoking_pump run_outside_def)
  have calm: "others_run revoking_view At_drain L = L" "others_run revoking_view At_check L = L"
    "others_run revoking_view At_peers L = run_outside [Pushes 0] L" "tv_pump revoking_view = sample_quiet" for L
    by (simp_all add: others_run_def revoking_view_def run_outside_def sample_view_def)
  have "\<exists>L. engine_turn sample_crypto sample_engine_float revoking_view ?start = Some L
     \<and> as_bytes ''emersia/'' \<in> set (in_revoked_pending (sv_inner (lp_service L)))
     \<and> revoked_in (hex_encode sample_crypto (as_bytes ''emersia/'')) (sv_pairing (lp_service L))
     \<and> \<not> in_streaming (sv_inner (lp_service L)) \<and> eg_transport (lp_engine L) \<noteq> None"
    using start step(2) pumped calm
    by (simp add: engine_turn_def transport_stage_def locked_def take_revoked_def sample_pump run_outside_def push_revoked_def
        set_stream_peers_def is_streaming_def Let_def)
  then show ?thesis using start(3) by (auto simp: run_outside_def is_shutting_down_def)
qed

theorem engine_refines_system_witness:
  "\<exists>L L' host'. run_engine sample_crypto sample_engine_float [(revoking_view, [], False)]
          (engine_start (sample_engine\<lparr>eg_transport := Some sample_host\<rparr>) (Service_new sample_paired ''k'') 0) = Some (L, False)
     \<and> as_bytes ''emersia/'' \<in> set (in_revoked_pending (sv_inner (lp_service L)))
     \<and> engine_turn sample_crypto sample_engine_float sample_view L = Some L'
     \<and> eg_transport (lp_engine L') = Some host' \<and> as_bytes ''emersia/'' \<notin> set (peer_ids host')"
proof -
  obtain L where L: "run_engine sample_crypto sample_engine_float [(revoking_view, [], False)]
          (engine_start (sample_engine\<lparr>eg_transport := Some sample_host\<rparr>) (Service_new sample_paired ''k'') 0) = Some (L, False)"
      "as_bytes ''emersia/'' \<in> set (in_revoked_pending (sv_inner (lp_service L)))"
      "revoked_in (hex_encode sample_crypto (as_bytes ''emersia/'')) (sv_pairing (lp_service L))"
      "\<not> in_streaming (sv_inner (lp_service L))" "eg_transport (lp_engine L) \<noteq> None"
    using sample_revoking_turn by blast
  have alone: "tv_others sample_view = (\<lambda>_. [])" "tv_pump sample_view = sample_quiet" by (simp_all add: sample_view_def)
  obtain L' where L': "engine_turn sample_crypto sample_engine_float sample_view L = Some L'" "sv_pairing (lp_service L') = sv_pairing (lp_service L)"
    using L(4,5) alone
    by (auto simp: engine_turn_def transport_stage_def take_revoked_def sample_pump set_stream_peers_def is_streaming_def Let_def)
  have ok: "turns_ok sample_crypto [(revoking_view, [], False)]" "view_all (fresh_ok sample_crypto d) sample_view" for d
    using alone by (simp_all add: turns_ok_def view_all_def revoking_view_def sample_revocation_def sample_venv_def)
  have "eg_transport (sample_engine\<lparr>eg_transport := Some sample_host\<rparr>) = Some sample_host" by simp
  from engine_refines_system [OF L(1) this ok(1) sample_paired_inv sample_bind sample_hex_two_digits, THEN conjunct2, rule_format,
      OF L'(1) ok(2) L(2)] L' L(3)
  obtain host' where "eg_transport (lp_engine L') = Some host'" "as_bytes ''emersia/'' \<notin> set (peer_ids host')" by auto
  with L(1,2) L'(1) show ?thesis by blast
qed

end
