(* ===== verification/Receiver_Model.thy ===== *)
theory Receiver_Model
  imports Engine_Model
begin

text \<open>
  The headless receiver (\<^verbatim>\<open>receiver/mod.rs\<close>, \<^verbatim>\<open>emersia-daemon receive\<close>): its command line, the device side of the
  handshake, the loop that turns datagrams into whole frames and an elementary stream, and the verdict.
  The last section follows a stream from the engine's send queue to the receiver's elementary stream.

  Datagrams are a list, one per receive call; when it is used up every further receive times out.
  Parsing and converting \<^verbatim>\<open>f64\<close> values, ffmpeg and the file system are observed.
\<close>

section \<open>Command line\<close>

datatype Fail = Usage string | Runtime string

definition Fail_is_usage :: "Fail \<Rightarrow> bool" where
  "Fail_is_usage self = (case self of Usage _ \<Rightarrow> True | Runtime _ \<Rightarrow> False)"

definition Fail_message :: "Fail \<Rightarrow> string" where
  "Fail_message self = (case self of Usage m \<Rightarrow> m | Runtime m \<Rightarrow> m)"

text \<open>\<^verbatim>\<open>str::parse::<f64>\<close> and \<^verbatim>\<open>Duration::from_secs_f64\<close>, which panics on negative, huge or undefined values.\<close>

record float_args =
  fa_parse :: "string \<Rightarrow> f64 option"
  fa_duration :: "f64 \<Rightarrow> nat option"

record Opts =
  op_server :: "string option"
  op_device_id :: "string option"
  op_host_key :: "string option"
  op_private_key :: "string option"
  op_frames :: nat
  op_timeout :: nat
  op_save :: "string option"
  op_fps :: "u32 option"
  op_decode :: bool

definition Opts_default :: Opts where
  "Opts_default =
     \<lparr>op_server = None, op_device_id = None, op_host_key = None, op_private_key = None, op_frames = 10,
      op_timeout = 5 * 10 ^ 9, op_save = None, op_fps = None, op_decode = True\<rparr>"

definition parse_u32 :: "string \<Rightarrow> u32 option" where
  "parse_u32 s = map_option of_nat (from_str_radix 10 u32_max s)"

text \<open>The option loop; the outer \<open>None\<close> is the panic of \<^verbatim>\<open>from_secs_f64\<close>.\<close>

fun receive_args :: "float_args \<Rightarrow> string list \<Rightarrow> Opts \<Rightarrow> (Fail + Opts) option" where
  "receive_args A [] o1 = Some (Ok o1)"
| "receive_args A (arg # rest) o1 =
     (if arg = ''--no-decode'' then receive_args A rest (o1\<lparr>op_decode := False\<rparr>)
      else if arg \<notin> {''--server'', ''--device-id'', ''--host-key'', ''--private-key'', ''--frames'', ''--timeout'', ''--save'', ''--fps''}
      then Some (Err (Usage (''unknown argument: '' @ arg)))
      else case rest of
        [] \<Rightarrow> Some (Err (Usage (''missing value for '' @ arg)))
      | value # rest \<Rightarrow>
         (if arg = ''--server'' then receive_args A rest (o1\<lparr>op_server := Some value\<rparr>)
          else if arg = ''--device-id'' then receive_args A rest (o1\<lparr>op_device_id := Some value\<rparr>)
          else if arg = ''--host-key'' then receive_args A rest (o1\<lparr>op_host_key := Some value\<rparr>)
          else if arg = ''--private-key'' then receive_args A rest (o1\<lparr>op_private_key := Some value\<rparr>)
          else if arg = ''--frames''
          then (case from_str_radix 10 u64_max value of
                  None \<Rightarrow> Some (Err (Usage ''--frames must be a number''))
                | Some n \<Rightarrow> receive_args A rest (o1\<lparr>op_frames := n\<rparr>))
          else if arg = ''--timeout''
          then (case fa_parse A value of
                  None \<Rightarrow> Some (Err (Usage ''--timeout must be a number''))
                | Some secs \<Rightarrow>
                   (case fa_duration A secs of
                      None \<Rightarrow> None
                    | Some t \<Rightarrow> receive_args A rest (o1\<lparr>op_timeout := t\<rparr>)))
          else if arg = ''--save'' then receive_args A rest (o1\<lparr>op_save := Some value\<rparr>)
          else (case parse_u32 value of
                  None \<Rightarrow> Some (Err (Usage ''--fps must be a number''))
                | Some n \<Rightarrow> receive_args A rest (o1\<lparr>op_fps := Some n\<rparr>))))"

definition parse_device_id :: "string \<Rightarrow> (Fail + bytes) option" where
  "parse_device_id hex_str =
     (if length hex_str \<noteq> DEVICE_ID_LEN * 2
      then Some (Err (Usage (''--device-id must be '' @ show_nat (DEVICE_ID_LEN * 2) @ '' hex characters'')))
      else map_option (\<lambda>r. ok_or r (Usage (''--device-id is not hex: '' @ hex_str))) (decode_id_loop hex_str 0 DEVICE_ID_LEN))"

section \<open>Receiving\<close>

record RxState =
  rx_client :: ClientEndpoint
  rx_reassembler :: Reassembler
  rx_frames :: nat
  rx_datagrams :: nat
  rx_bytes :: nat
  rx_last_sequence :: "u32 option"
  rx_max_gap :: u32
  rx_elementary :: bytes
  rx_keyframes :: nat
  rx_codec_name :: "string option"

definition RxState_new :: "ClientEndpoint \<Rightarrow> RxState" where
  "RxState_new c =
     \<lparr>rx_client = c, rx_reassembler = Reassembler_default, rx_frames = 0, rx_datagrams = 0, rx_bytes = 0,
      rx_last_sequence = None, rx_max_gap = 0, rx_elementary = [], rx_keyframes = 0, rx_codec_name = None\<rparr>"

definition sequence_gap :: "u32 option \<Rightarrow> u32 \<Rightarrow> u32" where
  "sequence_gap prev sq = (case prev of None \<Rightarrow> 0 | Some p \<Rightarrow> of_nat (unat (sq - p) - 1))"

text \<open>Accounting for one video record.\<close>

definition count_record :: "Codec \<Rightarrow> FrameHeader \<Rightarrow> bytes \<Rightarrow> RxState \<Rightarrow> RxState" where
  "count_record codec header payload st =
     st\<lparr>rx_codec_name := Some (Codec_name codec),
        rx_max_gap := max (rx_max_gap st) (sequence_gap (rx_last_sequence st) (fh_sequence header)),
        rx_last_sequence := Some (fh_sequence header),
        rx_datagrams := rx_datagrams st + 1, rx_bytes := rx_bytes st + length payload\<rparr>"

definition count_frame :: "FrameHeader \<Rightarrow> bytes \<Rightarrow> RxState \<Rightarrow> RxState" where
  "count_frame header whole st =
     st\<lparr>rx_frames := rx_frames st + 1, rx_keyframes := (if fh_keyframe header then rx_keyframes st + 1 else rx_keyframes st),
        rx_elementary := rx_elementary st @ whole\<rparr>"

text \<open>The receive loop; \<open>None\<close> is a panic of the reassembler.\<close>

fun receive_loop :: "crypto_ext \<Rightarrow> nat \<Rightarrow> bytes list \<Rightarrow> RxState \<Rightarrow> RxState option" where
  "receive_loop X limit [] st = Some st"
| "receive_loop X limit (d # ds) st =
     (if limit \<le> rx_frames st then Some st
      else case recv_record X True (Some d) (rx_client st) of
        (Inl e, c) \<Rightarrow> Some (st\<lparr>rx_client := c\<rparr>)
      | (Inr (header, payload), c) \<Rightarrow>
         (let st = st\<lparr>rx_client := c\<rparr>
          in case from_payload_type (fh_payload_type header) of
               None \<Rightarrow> receive_loop X limit ds st
             | Some codec \<Rightarrow>
                (let st = count_record codec header payload st
                 in case Reassembler_push (rx_reassembler st) header payload of
                      None \<Rightarrow> None
                    | Some (out, r) \<Rightarrow>
                       (let st = st\<lparr>rx_reassembler := r\<rparr>
                        in case out of
                             None \<Rightarrow> receive_loop X limit ds st
                           | Some whole \<Rightarrow> receive_loop X limit ds (count_frame header whole st)))))"

section \<open>The verdict\<close>

text \<open>What \<^verbatim>\<open>decode_verify\<close> observes: creating its directory, writing the input, running ffmpeg (its success and
  standard error), and the size of the decoded picture.\<close>

record DecodeView =
  dc_mkdir_error :: "string option"
  dc_write_error :: "string option"
  dc_run :: "string + bool \<times> bytes"
  dc_size :: nat

definition first_line :: "string \<Rightarrow> string option" where
  "first_line s =
     (if s = [] then None
      else let l = takeWhile (\<lambda>c. c \<noteq> newline) s
           in Some (if l \<noteq> s \<and> l \<noteq> [] \<and> last l = CHR 0x0D then butlast l else l))"

definition decode_verify :: "DecodeView \<Rightarrow> string + string" where
  "decode_verify v =
     (case dc_mkdir_error v of
        Some e \<Rightarrow> Err (''temp dir: '' @ e)
      | None \<Rightarrow>
     (case dc_write_error v of
        Some e \<Rightarrow> Err (''writing temp input: '' @ e)
      | None \<Rightarrow>
     (case dc_run v of
        Inl e \<Rightarrow> Err (''could not run ffmpeg: '' @ e)
      | Inr (success, stderr) \<Rightarrow>
          if \<not> success
          then Err (''ffmpeg rejected the stream: ''
                    @ (case first_line (from_utf8_lossy stderr) of Some l \<Rightarrow> l | None \<Rightarrow> ''no detail''))
          else if dc_size v = 0 then Err ''ffmpeg produced no decoded output''
          else Ok (''first frame decoded to PNG, '' @ show_nat (dc_size v) @ '' bytes''))))"

record SaveView =
  sw_mkdir_error :: "string option"
  sw_write_error :: "string option"

definition join_path :: "string \<Rightarrow> string \<Rightarrow> string" where
  "join_path dir file = (if dir = [] then file else if last dir = CHR ''/'' then dir @ file else dir @ ''/'' @ file)"

definition receive_ext :: "RxState \<Rightarrow> string" where
  "receive_ext st = (case rx_codec_name st of Some n \<Rightarrow> n | None \<Rightarrow> ''h264'')"

definition receive_save :: "SaveView \<Rightarrow> Opts \<Rightarrow> RxState \<Rightarrow> Fail + unit" where
  "receive_save s opts st =
     (if rx_elementary st = [] then Ok ()
      else case op_save opts of
        None \<Rightarrow> Ok ()
      | Some dir \<Rightarrow>
         (case sw_mkdir_error s of
            Some e \<Rightarrow> Err (Runtime (''cannot create '' @ dir @ '': '' @ e))
          | None \<Rightarrow>
             (case sw_write_error s of
                Some e \<Rightarrow> Err (Runtime (''cannot write '' @ join_path dir (''stream.'' @ receive_ext st) @ '': '' @ e))
              | None \<Rightarrow> Ok ())))"

definition receive_verdict :: "SaveView \<Rightarrow> DecodeView \<Rightarrow> Opts \<Rightarrow> RxState \<Rightarrow> Fail + unit" where
  "receive_verdict s v opts st =
     (let decoded = (if rx_elementary st \<noteq> [] \<and> op_decode opts then Some (decode_verify v) else None)
      in case receive_save s opts st of
           Inl e \<Rightarrow> Err e
         | Inr _ \<Rightarrow>
            (case decoded of
               Some (Inl why) \<Rightarrow> Err (Runtime (''stream did not decode: '' @ why))
             | _ \<Rightarrow> if rx_frames st = 0 then Err (Runtime ''no frames received'') else Ok ()))"

section \<open>The whole command\<close>

text \<open>
  The surroundings of a run: socket failures of opening and of the sends, randomness, the response datagram, the
  datagrams of the stream, the outcome of creating the directory before the stream and of saving and decoding
  after it.
\<close>

record RunView =
  rv_open_io :: "nat \<Rightarrow> string option"
  rv_ephemeral :: "bytes option"
  rv_init_nonce :: "bytes option"
  rv_init_sent :: bool
  rv_timeout_ok :: bool
  rv_response :: "bytes option"
  rv_confirm_nonce :: "bytes option"
  rv_confirm_sent :: bool
  rv_mkdir_error :: "string option"
  rv_datagrams :: "bytes list"
  rv_save :: SaveView
  rv_decode :: DecodeView

definition required :: "string option \<Rightarrow> string \<Rightarrow> Fail + string" where
  "required v message = ok_or v (Usage message)"

text \<open>The device side of the handshake; the outer \<open>None\<close> is a panic.\<close>

definition receive_handshake ::
  "crypto_ext \<Rightarrow> RunView \<Rightarrow> bytes \<Rightarrow> DeviceIdentity \<Rightarrow> bytes \<Rightarrow> (Fail + ClientEndpoint) option" where
  "receive_handshake X v device_id identity host_static =
     (case ClientEndpoint_new (rv_open_io v) (rv_ephemeral v) device_id identity host_static of
        None \<Rightarrow> None
      | Some (Inl e) \<Rightarrow> Some (Err (Runtime e))
      | Some (Inr client) \<Rightarrow>
         (case send_init X (rv_init_nonce v) (rv_init_sent v) client of
            None \<Rightarrow> None
          | Some (Inl e, client, _) \<Rightarrow> Some (Err (Runtime (TransportError_display e)))
          | Some (Inr _, client, _) \<Rightarrow>
             (case recv_raw (rv_timeout_ok v) (rv_response v) of
                Inl _ \<Rightarrow> Some (Err (Runtime ''no handshake response (is the daemon streaming and this device paired?)''))
              | Inr response \<Rightarrow>
                 (case client_complete X (rv_confirm_nonce v) (rv_confirm_sent v) client response of
                    None \<Rightarrow> None
                  | Some (Inl e, client, _) \<Rightarrow> Some (Err (Runtime (''handshake rejected: '' @ TransportError_display e)))
                  | Some (Inr _, client, _) \<Rightarrow> Some (Ok client)))))"

definition receive_stream :: "crypto_ext \<Rightarrow> RunView \<Rightarrow> Opts \<Rightarrow> ClientEndpoint \<Rightarrow> (Fail + unit) option" where
  "receive_stream X v opts client =
     (case (case op_save opts of None \<Rightarrow> None | Some dir \<Rightarrow> map_option (\<lambda>e. ''cannot create '' @ dir @ '': '' @ e) (rv_mkdir_error v)) of
        Some e \<Rightarrow> Some (Err (Runtime e))
      | None \<Rightarrow> map_option (receive_verdict (rv_save v) (rv_decode v) opts)
                  (receive_loop X (op_frames opts) (rv_datagrams v) (RxState_new client)))"

definition receive_run :: "crypto_ext \<Rightarrow> float_args \<Rightarrow> RunView \<Rightarrow> string list \<Rightarrow> (Fail + unit) option" where
  "receive_run X A v args =
     (if ''-h'' \<in> set args \<or> ''--help'' \<in> set args then Some (Ok ())
      else case receive_args A args Opts_default of
        None \<Rightarrow> None
      | Some (Inl e) \<Rightarrow> Some (Err e)
      | Some (Inr opts) \<Rightarrow>
         (case required (op_server opts) ''--server is required'' of Inl e \<Rightarrow> Some (Err e) | Inr _ \<Rightarrow>
         (case required (op_device_id opts) ''--device-id is required'' of Inl e \<Rightarrow> Some (Err e) | Inr device \<Rightarrow>
         (case required (op_host_key opts) ''--host-key is required'' of Inl e \<Rightarrow> Some (Err e) | Inr host_key \<Rightarrow>
         (case required (op_private_key opts) ''--private-key is required (generate one with `emersia-daemon keygen`)'' of
            Inl e \<Rightarrow> Some (Err e)
          | Inr private_key \<Rightarrow>
             (case parse_device_id device of
                None \<Rightarrow> None
              | Some (Inl e) \<Rightarrow> Some (Err e)
              | Some (Inr device_id) \<Rightarrow>
                 (case parse_public_key_hex X host_key of
                    Inl e \<Rightarrow> Some (Err (Usage (''--host-key: '' @ CryptoError_display e)))
                  | Inr host_static \<Rightarrow>
                     (case from_private_hex X private_key of
                        Inl e \<Rightarrow> Some (Err (Usage (''--private-key: '' @ CryptoError_display e)))
                      | Inr identity \<Rightarrow>
                         (case receive_handshake X v device_id identity host_static of
                            None \<Rightarrow> None
                          | Some (Inl e) \<Rightarrow> Some (Err e)
                          | Some (Inr client) \<Rightarrow> receive_stream X v opts client)))))))))"

section \<open>From the send queue to the elementary stream\<close>

lemma receive_loop_record:
  assumes "rx_frames st < limit" and "recv_record X True (Some d) (rx_client st) = (Ok (header, payload), c)"
    and "from_payload_type (fh_payload_type header) = Some codec"
    and "Reassembler_push (rx_reassembler st) header payload = Some (out, r)"
  shows "\<exists>st'. (\<forall>ds. receive_loop X limit (d # ds) st = receive_loop X limit ds st') \<and> rx_client st' = c \<and> rx_reassembler st' = r
     \<and> rx_frames st' = rx_frames st + (case out of None \<Rightarrow> 0 | Some _ \<Rightarrow> 1)
     \<and> rx_elementary st' = rx_elementary st @ (case out of None \<Rightarrow> [] | Some f \<Rightarrow> f)"
  using assms by (cases out) (auto simp: count_record_def count_frame_def Let_def)

lemma receive_loop_sealed:
  assumes laws: "aead_correct X" "aead_len X"
    and "ce_session (rx_client st) = Some s" and "ahead (ce_window (rx_client st)) sq"
    and "sealed_as X s fq ts key pt n index sq cs packets" and "index + length cs \<le> unat n"
    and "\<And>x. x \<in> set cs \<Longrightarrow> length x \<le> RECORD_MTU - FRAME_HEADER_LEN"
    and "from_payload_type pt = Some codec"
    and "reassemble_all (rx_reassembler st) (fed_fragments fq ts key pt n index sq cs) = Some (fs, r')"
    and "rx_frames st + length fs < limit"
  shows "\<exists>st'. (\<forall>rest. receive_loop X limit (packets @ rest) st = receive_loop X limit rest st')
      \<and> ce_session (rx_client st') = Some s
      \<and> highest (ce_window (rx_client st'))
          = (if cs = [] then highest (ce_window (rx_client st)) else Some (sq + of_nat (length cs) - 1))
      \<and> rx_reassembler st' = r' \<and> rx_frames st' = rx_frames st + length fs
      \<and> rx_elementary st' = rx_elementary st @ concat fs"
  using assms(3-)
proof (induction cs arbitrary: st index sq packets fs)
  case Nil
  then show ?case by (auto simp: sealed_as_def)
next
  case (Cons x cs)
  from Cons.prems(3) obtain d ds where packets: "packets = d # ds" by (cases packets) (auto simp: sealed_as_def)
  note sealed = Cons.prems(3) [unfolded packets]
  obtain rnd rec where rec: "build_record sq fq ts key pt x (of_nat index) n = Ok rec"
    "seal_packet X s HostToDevice sq rnd rec = Ok d" using sealed_as_head [OF sealed] .
  have idx: "(of_nat index :: u16) < n"
    using Cons.prems(4) unat_u16_le [of n] by (simp add: word_less_nat_alt)
  let ?h = "record_header sq fq ts key pt x (of_nat index) n"
  let ?c = "(rx_client st)\<lparr>ce_window := snd (ReplayWindow_commit (ce_window (rx_client st)) sq)\<rparr>"
  have recv: "recv_record X True (Some d) (rx_client st) = (Ok (?h, x), ?c)"
    using recv_record_sealed [OF laws Cons.prems(1,2) rec(1) idx rec(2)] Cons.prems(5) by simp
  obtain out r1 fs1 where push: "Reassembler_push (rx_reassembler st) ?h x = Some (out, r1)"
    and all: "reassemble_all r1 (fed_fragments fq ts key pt n (Suc index) (sq + 1) cs) = Some (fs1, r')"
    and fs: "fs = (case out of None \<Rightarrow> [] | Some f \<Rightarrow> [f]) @ fs1"
    using Cons.prems(7) by (auto split: option.splits)
  have "from_payload_type (fh_payload_type ?h) = Some codec" using Cons.prems(6) by simp
  from receive_loop_record [OF _ recv this push, of limit] Cons.prems(8)
  obtain st1 where st1: "\<forall>rest. receive_loop X limit (packets @ rest) st = receive_loop X limit (ds @ rest) st1" "rx_client st1 = ?c"
    "rx_reassembler st1 = r1" "rx_frames st1 = rx_frames st + (case out of None \<Rightarrow> 0 | Some _ \<Rightarrow> 1)"
    "rx_elementary st1 = rx_elementary st @ (case out of None \<Rightarrow> [] | Some f \<Rightarrow> f)"
    by (auto simp: packets)
  have "\<exists>st'. (\<forall>rest. receive_loop X limit (ds @ rest) st1 = receive_loop X limit rest st')
      \<and> ce_session (rx_client st') = Some s
      \<and> highest (ce_window (rx_client st'))
          = (if cs = [] then highest (ce_window (rx_client st1)) else Some (sq + 1 + of_nat (length cs) - 1))
      \<and> rx_reassembler st' = r' \<and> rx_frames st' = rx_frames st1 + length fs1
      \<and> rx_elementary st' = rx_elementary st1 @ concat fs1"
    by (rule Cons.IH [where index = "Suc index"])
      (use Cons.prems ahead_next sealed_as_tail [OF sealed] st1 all fs in \<open>auto split: option.splits\<close>)
  moreover have "highest (ce_window (rx_client st1)) = Some sq" using st1(2) ahead_commit [OF Cons.prems(2)] by simp
  ultimately show ?case using st1 fs by (auto split: option.splits)
qed

lemma frame_received:
  assumes laws: "aead_correct X" "aead_len X" "aead_total X"
    and peer: "map_of (peers h) d = Some peer" "wf_session (peer_session peer)"
    and env: "\<And>i. rnd i \<noteq> None" "\<And>i. sent i"
    and size: "length (payload_chunks payload) \<le> u16_max" and pt: "from_payload_type pt = Some codec"
    and c: "ce_session (rx_client st) = Some (peer_session peer)" "ahead (ce_window (rx_client st)) (next_sequence h + 1)"
    and r: "ra_current (rx_reassembler st) = None" and limit: "rx_frames st + 1 < limit"
  shows "\<exists>packets st' h'. send_frame X rnd sent h d ts key pt payload
        = (Ok (length (payload_chunks payload)), h', map (\<lambda>p. (p, peer_addr peer)) packets)
     \<and> peers h' = peers h
     \<and> (\<forall>rest. receive_loop X limit (packets @ rest) st = receive_loop X limit rest st')
     \<and> ce_session (rx_client st') = Some (peer_session peer) \<and> ahead (ce_window (rx_client st')) (next_sequence h' + 1)
     \<and> ra_current (rx_reassembler st') = None
     \<and> rx_frames st' = rx_frames st + 1 \<and> rx_elementary st' = rx_elementary st @ payload"
proof -
  let ?cs = "payload_chunks payload" and ?q = "next_sequence h"
  let ?n = "of_nat (length ?cs) :: u16"
  obtain packets where snt: "send_fragments X rnd sent (peer_session peer) ?q ts key pt ?n 0 ?cs (?q + 1)
      = (Ok (), ?q + 1 + of_nat (length ?cs), packets)"
    and sealed: "sealed_as X (peer_session peer) ?q ts key pt ?n 0 (?q + 1) ?cs packets"
    using send_fragments_ok [where rnd = rnd and sent = sent and cs = ?cs, OF laws(3) peer(2) env]
      payload_chunk_length by blast
  let ?h' = "h\<lparr>next_sequence := ?q + 1 + of_nat (length ?cs)\<rparr>"
  have send: "send_frame X rnd sent h d ts key pt payload = (Ok (length ?cs), ?h', map (\<lambda>p. (p, peer_addr peer)) packets)"
    using peer(1) size snt by (simp add: send_frame_def u16_try_from_def Let_def)
  obtain r' where all: "reassemble_all (rx_reassembler st) (fed_fragments ?q ts key pt ?n 0 (?q + 1) ?cs) = Some ([payload], r')"
    "ra_current r' = None"
    using fed_frame [OF refl payload_chunks_not_Nil size, of "rx_reassembler st" ?q ts key pt "?q + 1"] r by auto
  have idx: "0 + length ?cs \<le> unat ?n" using size by simp
  have one: "rx_frames st + length [payload] < limit" using limit by simp
  have small: "length x \<le> RECORD_MTU - FRAME_HEADER_LEN" if "x \<in> set ?cs" for x using payload_chunk_length that by blast
  obtain st' where "\<forall>rest. receive_loop X limit (packets @ rest) st = receive_loop X limit rest st'"
    "ce_session (rx_client st') = Some (peer_session peer)"
    "highest (ce_window (rx_client st')) = Some (?q + 1 + of_nat (length ?cs) - 1)"
    "rx_reassembler st' = r'" "rx_frames st' = rx_frames st + 1" "rx_elementary st' = rx_elementary st @ payload"
    using receive_loop_sealed [OF laws(1,2) c sealed idx small pt all(1) one] by auto
  with send all(2) show ?thesis
    by (intro exI [of _ packets] exI [of _ st'] exI [of _ ?h']) (simp add: ahead_def)
qed

lemma jobs_of_one_device:
  "jobs_of [d] units = map (\<lambda>(au, sets). (d, au_keyframe au, codec_payload_type au, unit_payload sets au)) units"
  by (induction units) (auto simp: jobs_of_def)

lemma send_jobs_received:
  assumes laws: "aead_correct X" "aead_len X" "aead_total X"
    and "map_of (peers h) d = Some peer" "wf_session (peer_session peer)"
    and env: "\<And>k i. rnd k i \<noteq> None" "\<And>k i. sent k i"
    and "\<forall>(dev, key, pt, payload) \<in> set jobs. dev = d \<and> length (payload_chunks payload) \<le> u16_max \<and> from_payload_type pt \<noteq> None"
    and "ce_session (rx_client st) = Some (peer_session peer)" "ahead (ce_window (rx_client st)) (next_sequence h + 1)"
    and "ra_current (rx_reassembler st) = None" and "rx_frames st + length jobs < limit"
  shows "\<exists>n h' out st'. send_jobs X rnd sent k h ts jobs = (n, h', out) \<and> n = length jobs
     \<and> receive_loop X limit (map fst out) st = Some st'
     \<and> rx_frames st' = rx_frames st + length jobs
     \<and> rx_elementary st' = rx_elementary st @ concat (map (\<lambda>(dev, key, pt, payload). payload) jobs)"
  using assms(4,5,8-)
proof (induction jobs arbitrary: k h st)
  case (Cons job jobs)
  obtain dev key pt payload where job: "job = (dev, key, pt, payload)" by (cases job)
  then obtain codec where pt: "dev = d" "length (payload_chunks payload) \<le> u16_max" "from_payload_type pt = Some codec"
    using Cons.prems(3) by auto
  have "rx_frames st + 1 < limit" using Cons.prems(7) by simp
  from frame_received [where rnd = "rnd k" and sent = "sent k" and ts = ts and key = key, OF laws Cons.prems(1,2) env pt(2,3) Cons.prems(4-6) this]
  obtain packets st1 h1 where one: "send_frame X (rnd k) (sent k) h d ts key pt payload
        = (Ok (length (payload_chunks payload)), h1, map (\<lambda>p. (p, peer_addr peer)) packets)" "peers h1 = peers h"
     "\<forall>rest. receive_loop X limit (packets @ rest) st = receive_loop X limit rest st1"
     "ce_session (rx_client st1) = Some (peer_session peer)" "ahead (ce_window (rx_client st1)) (next_sequence h1 + 1)"
     "ra_current (rx_reassembler st1) = None" "rx_frames st1 = rx_frames st + 1" "rx_elementary st1 = rx_elementary st @ payload"
    by blast
  have "\<exists>n h' out st'. send_jobs X rnd sent (k + 1) h1 ts jobs = (n, h', out) \<and> n = length jobs
     \<and> receive_loop X limit (map fst out) st1 = Some st'
     \<and> rx_frames st' = rx_frames st1 + length jobs
     \<and> rx_elementary st' = rx_elementary st1 @ concat (map (\<lambda>(dev, key, pt, payload). payload) jobs)"
    by (rule Cons.IH) (use Cons.prems one in auto)
  then obtain h' out st' where rest: "send_jobs X rnd sent (k + 1) h1 ts jobs = (length jobs, h', out)"
     "receive_loop X limit (map fst out) st1 = Some st'" "rx_frames st' = rx_frames st1 + length jobs"
     "rx_elementary st' = rx_elementary st1 @ concat (map (\<lambda>(dev, key, pt, payload). payload) jobs)" by blast
  then show ?case using one pt job by (simp add: comp_def)
qed simp

text \<open>
  A stream from the encoder to the file: with one connected device, the access units a turn of the engine finds
  ready are sealed and sent, and a receiver that holds the session and gets the datagrams in order ends with
  exactly their payloads, in order, appended to its elementary stream and counts each as one whole frame.
\<close>

theorem stream_end_to_end:
  assumes "aead_correct X" "aead_len X" "aead_total X"
    and "map_of (peers h) d = Some peer" "wf_session (peer_session peer)"
    and "\<And>k i. rnd k i \<noteq> None" "\<And>k i. sent k i"
    and "\<forall>(au, sets) \<in> set (ready_units (enc_rx enc)). length (payload_chunks (unit_payload sets au)) \<le> u16_max"
    and "ship_units X rnd sent w k enc h [d] timestamp = (r, enc', h', out)"
    and "ce_session (rx_client st) = Some (peer_session peer)" "ahead (ce_window (rx_client st)) (next_sequence h + 1)"
    and "ra_current (rx_reassembler st) = None" and "rx_frames st + length (ready_units (enc_rx enc)) < limit"
  shows "\<exists>st'. receive_loop X limit (map fst out) st = Some st'
     \<and> rx_frames st' = rx_frames st + length (ready_units (enc_rx enc))
     \<and> rx_elementary st' = rx_elementary st @ concat (map (\<lambda>(au, sets). unit_payload sets au) (ready_units (enc_rx enc)))"
proof -
  let ?units = "ready_units (enc_rx enc)"
  let ?jobs = "jobs_of [d] ?units"
  note jobs = jobs_of_one_device [of d ?units]
  have "\<forall>(dev, key, pt, payload) \<in> set ?jobs. dev = d \<and> length (payload_chunks payload) \<le> u16_max \<and> from_payload_type pt \<noteq> None"
    using assms(8) payload_types.dec_enc by (auto simp: jobs codec_payload_type_def)
  from send_jobs_received [where rnd = rnd and sent = sent and limit = limit and k = k and ts = timestamp, OF assms(1-7) this assms(10-12)] assms(13)
  obtain n h2 out2 st' where "send_jobs X rnd sent k h timestamp ?jobs = (n, h2, out2)"
     "receive_loop X limit (map fst out2) st = Some st'" "rx_frames st' = rx_frames st + length ?jobs"
     "rx_elementary st' = rx_elementary st @ concat (map (\<lambda>(dev, key, pt, payload). payload) ?jobs)"
    by (auto simp: jobs)
  moreover have "out = out2" using ship_units_jobs [of "[d]" enc X rnd sent w k h timestamp] assms(9) calculation(1) by simp
  ultimately show ?thesis by (auto simp: jobs comp_def case_prod_unfold)
qed

theorem stream_end_to_end_witness:
  "\<exists>st'. receive_loop sample_crypto 10
      (map fst (snd (snd (snd (ship_units sample_crypto (\<lambda>_ _. Some []) (\<lambda>_ _. True) (Ok None) 0
         ((Encoder_new sample_config sample_candidate)\<lparr>enc_rx := [Unit sample_unit [9]]\<rparr>)
         \<lparr>host_identity = \<lparr>secret = [5]\<rparr>, pending = [],
          peers = [([8], \<lparr>peer_addr = sample_addr, peer_session = sample_session, peer_window = ReplayWindow_default\<rparr>)],
          next_sequence = 0xFFFFFFFF\<rparr> [[8]] 90)))))
      (RxState_new \<lparr>ce_handshake = None, ce_session = Some sample_session, ce_window = ReplayWindow_default\<rparr>) = Some st'
    \<and> rx_frames st' = 1 \<and> rx_elementary st' = [9, 0, 0, 1, 101, 136]"
proof -
  let ?peer = "\<lparr>peer_addr = sample_addr, peer_session = sample_session, peer_window = ReplayWindow_default\<rparr>"
  let ?h = "\<lparr>host_identity = \<lparr>secret = [5]\<rparr>, pending = [], peers = [([8], ?peer)], next_sequence = 0xFFFFFFFF\<rparr>"
  let ?st = "RxState_new \<lparr>ce_handshake = None, ce_session = Some sample_session, ce_window = ReplayWindow_default\<rparr>"
  let ?enc = "(Encoder_new sample_config sample_candidate)\<lparr>enc_rx := [Unit sample_unit [9]]\<rparr>"
  have unit: "unit_payload [9] sample_unit = [9, 0, 0, 1, 101, 136]" by (simp add: unit_payload_def sample_unit_def)
  have size: "length (payload_chunks (unit_payload [9] sample_unit)) \<le> u16_max"
    by (simp add: unit payload_chunks_def RECORD_MTU_def FRAME_HEADER_LEN_def length_chunks u16_max_def)
  obtain r enc' h' out where ship: "ship_units sample_crypto (\<lambda>_ _. Some []) (\<lambda>_ _. True) (Ok None) 0 ?enc ?h [[8]] 90 = (r, enc', h', out)"
    by (metis prod_cases4)
  have "\<exists>st'. receive_loop sample_crypto 10 (map fst out) ?st = Some st'
     \<and> rx_frames st' = rx_frames ?st + length (ready_units (enc_rx ?enc))
     \<and> rx_elementary st' = rx_elementary ?st @ concat (map (\<lambda>(au, sets). unit_payload sets au) (ready_units (enc_rx ?enc)))"
    by (rule stream_end_to_end [OF sample_laws(1,4,3) _ _ _ _ _ ship, where peer = ?peer])
      (use size in \<open>simp_all add: ahead_def ReplayWindow_default_def RxState_new_def Reassembler_default_def\<close>)
  then show ?thesis by (simp add: ship unit RxState_new_def)
qed

section \<open>What the summary reports\<close>

text \<open>
  A datagram that does not open, a duplicate for one, ends the loop like a timeout, whatever would follow; and
  two records that arrive in swapped order are reported as a gap of almost \<open>2 ^ 32\<close> datagrams.
\<close>

lemma refused_datagram_ends_reception:
  assumes "rx_frames st < limit" and "recv_record X True (Some d) (rx_client st) = (Err e, c)"
  shows "receive_loop X limit (d # ds) st = Some (st\<lparr>rx_client := c\<rparr>)"
  using assms by simp

lemma swapped_records_gap: "sequence_gap (Some (sq + 1)) sq = 0xFFFFFFFE"
  by (simp add: sequence_gap_def unsigned_minus_1_eq_mask mask_eq_exp_minus_1)

text \<open>A frame number is drawn between two frames, so consecutive frames without any loss count a gap of one.\<close>

lemma next_frame_gap: "sequence_gap (Some sq) (sq + 2) = 1"
  by (simp add: sequence_gap_def)

end
