(* ===== verification/Control.thy ===== *)
theory Control
  imports Service_Model
begin

text \<open>
  Model of \<^verbatim>\<open>host/crates/emersia-daemon/src/control.rs\<close>: binding the socket, the cap on connections, reading one
  bounded line, and serving a client until it disconnects.  A client is the bytes it sends, followed by the end
  of the stream or a read error (a timeout); the replies are the bytes written.  Between two requests of
  one client other threads change the shared state in any way (\<open>others\<close>).
\<close>

section \<open>Limits and connections\<close>

definition MAX_LINE_BYTES :: nat where "MAX_LINE_BYTES = 64 * 1024"
definition MAX_CONNECTIONS :: nat where "MAX_CONNECTIONS = 16"

datatype RequestLine = Eof | Line string | TooLong

text \<open>The atomic update of the counter, and the release when a permit is dropped.\<close>

definition try_acquire_connection :: "nat \<Rightarrow> nat option" where
  "try_acquire_connection count = (if count < MAX_CONNECTIONS then Some (count + 1) else None)"

definition ConnectionPermit_drop :: "nat \<Rightarrow> nat" where
  "ConnectionPermit_drop count = count - 1"

text \<open>The accept loop: an accepted stream gets a permit and a worker or is shut down at once; a worker that ends
  (also by a panic) drops its permit.  The loop stops at a shutdown or when accept fails.\<close>

record accept_state =
  as_active :: nat
  as_workers :: nat
  as_refused :: nat
  as_result :: "(string + unit) option"

datatype accept_event = AcceptedStream | AcceptWouldBlock | AcceptFailed | WorkerEnds | ShutdownSeen

definition serve_step :: "accept_state \<Rightarrow> accept_event \<Rightarrow> accept_state" where
  "serve_step s ev =
     (case ev of
        WorkerEnds \<Rightarrow>
          if as_workers s = 0 then s
          else s\<lparr>as_active := ConnectionPermit_drop (as_active s), as_workers := as_workers s - 1\<rparr>
      | _ \<Rightarrow>
          if as_result s \<noteq> None then s
          else case ev of
                 AcceptedStream \<Rightarrow>
                   (case try_acquire_connection (as_active s) of
                      None \<Rightarrow> s\<lparr>as_refused := as_refused s + 1\<rparr>
                    | Some n \<Rightarrow> s\<lparr>as_active := n, as_workers := as_workers s + 1\<rparr>)
               | AcceptFailed \<Rightarrow> s\<lparr>as_result := Some (Err ''control socket accept failed'')\<rparr>
               | ShutdownSeen \<Rightarrow> s\<lparr>as_result := Some (Ok ())\<rparr>
               | _ \<Rightarrow> s)"

definition serve_start :: accept_state where
  "serve_start = \<lparr>as_active = 0, as_workers = 0, as_refused = 0, as_result = None\<rparr>"

section \<open>The socket\<close>

record ControlServer =
  cs_path :: path

text \<open>The calls: create the directory (0), its mode (1), remove a stale socket (2), bind (3), the socket's mode (4);
  \<open>listening\<close> is whether the probe connects, \<open>cmode\<close> the mode a new socket gets.\<close>

definition ControlServer_bind ::
  "(nat \<Rightarrow> string option) \<Rightarrow> bool \<Rightarrow> nat \<Rightarrow> fs \<Rightarrow> path \<Rightarrow> (string + ControlServer) \<times> fs" where
  "ControlServer_bind io listening cmode f p =
     (let dir = butlast p;
          bind_at = (\<lambda>f. if io 3 \<noteq> None \<or> f p \<noteq> None then (Err (''failed to bind '' @ path_display p), f)
                         else let f = f(p \<mapsto> FileNode cmode [])
                              in case set_permissions (io 4) f p 384 of
                                   Inl _ \<Rightarrow> (Err (''failed to restrict '' @ path_display p), f)
                                 | Inr f \<Rightarrow> (Ok \<lparr>cs_path = p\<rparr>, f));
          replace = (\<lambda>f. if f p = None then bind_at f
                         else if listening
                         then (Err (''another emersia-daemon is already listening on '' @ path_display p), f)
                         else if io 2 \<noteq> None \<or> \<not> is_file (f p)
                         then (Err (''failed to remove stale socket '' @ path_display p), f)
                         else bind_at (f(p := None)))
      in if p = [] then replace f
         else case (io 0, create_dir_all f dir) of
                (None, Some g1) \<Rightarrow>
                  (case set_permissions (io 1) g1 dir 448 of
                     Inl _ \<Rightarrow> (Err (''failed to restrict '' @ path_display dir), g1)
                   | Inr g2 \<Rightarrow> replace g2)
              | _ \<Rightarrow> (Err (''failed to create '' @ path_display dir), f))"

definition ControlServer_drop :: "bool \<Rightarrow> fs \<Rightarrow> ControlServer \<Rightarrow> fs" where
  "ControlServer_drop fails f self = (if fails \<or> \<not> is_file (f (cs_path self)) then f else f(cs_path self := None))"

section \<open>Serving a client\<close>

text \<open>\<^verbatim>\<open>SO_PEERCRED\<close>: the peer's uid, if it can be had, must be the daemon's.\<close>

definition peer_is_same_uid :: "u32 option \<Rightarrow> u32 \<Rightarrow> bool" where
  "peer_is_same_uid cred uid = (case cred of Some peer \<Rightarrow> peer = uid | None \<Rightarrow> False)"

text \<open>\<open>data\<close> is what the client still sends, \<open>failure\<close> what follows it: a read error or the end of the stream.\<close>

definition read_until_newline :: "nat \<Rightarrow> bytes \<Rightarrow> bytes" where
  "read_until_newline limit data =
     (let window = take limit data
      in if 10 \<in> set window then takeWhile (\<lambda>b. b \<noteq> 10) window @ [10] else window)"

definition read_request_line :: "string option \<Rightarrow> bytes \<Rightarrow> (string + RequestLine) \<times> bytes" where
  "read_request_line failure data =
     (let buf = read_until_newline (MAX_LINE_BYTES + 1) data;
          rest = drop (length buf) data
      in if length data \<le> MAX_LINE_BYTES \<and> 10 \<notin> set data \<and> failure \<noteq> None then (Err (the failure), rest)
         else if buf = [] then (Ok Eof, rest)
         else if length buf > MAX_LINE_BYTES \<or> last buf \<noteq> 10 then (Ok TooLong, rest)
         else case from_utf8 (butlast buf) of
                None \<Rightarrow> (Err ''invalid utf-8 sequence'', rest)
              | Some line \<Rightarrow> (Ok (Line line), rest))"

definition error_response :: "string \<Rightarrow> ProtocolError \<Rightarrow> Response" where
  "error_response rid err =
     RespErr \<lparr>re_v = PROTOCOL_VERSION, re_id = rid,
       re_error = ErrorInfo_new (case err of VersionError _ _ \<Rightarrow> Denied | JsonError _ \<Rightarrow> InvalidArgs) (ProtocolError_display err)\<rparr>"

text \<open>Encode and write one reply; \<open>fails\<close> when writing or flushing does.\<close>

definition write_response :: "json_codec \<Rightarrow> string option \<Rightarrow> Response \<Rightarrow> string + bytes" where
  "write_response J fails response =
     (case encode_response J response of
        Inl e \<Rightarrow> Err (ProtocolError_display e)
      | Inr text \<Rightarrow> (case fails of Some e \<Rightarrow> Err e | None \<Rightarrow> Ok (as_bytes text)))"

definition too_long_response :: Response where
  "too_long_response =
     err_response [] InvalidArgs (''control request exceeds '' @ show_nat MAX_LINE_BYTES @ '' bytes'')"

record conn_env =
  cn_codec :: json_codec
  cn_service_env :: "nat \<Rightarrow> svc_env"
  cn_others :: "nat \<Rightarrow> Service \<Rightarrow> Service"
  cn_write :: "nat \<Rightarrow> string option"
  cn_failure :: "string option"

lemma length_read_until: "length (read_until_newline n data) \<le> length data"
proof -
  have "length (takeWhile P xs) < length xs" if "x \<in> set xs" "\<not> P x" for P x and xs :: bytes
    using that by (induction xs) auto
  from this [of 10 "take n data" "\<lambda>b. b \<noteq> 10"] show ?thesis
    by (auto simp: read_until_newline_def Let_def intro: le_trans [OF Suc_leI])
qed

lemma read_line_consumes:
  assumes "read_request_line failure data = (Ok (Line line), rest)"
  shows "length rest < length data"
proof -
  have "read_until_newline (MAX_LINE_BYTES + 1) data \<noteq> []"
      "rest = drop (length (read_until_newline (MAX_LINE_BYTES + 1) data)) data"
    using assms by (auto simp: read_request_line_def Let_def split: if_splits option.splits)
  moreover have "data \<noteq> []" using calculation(1) length_read_until [of "MAX_LINE_BYTES + 1" data] by auto
  ultimately show ?thesis by simp
qed

function conn_loop ::
  "conn_env \<Rightarrow> nat \<Rightarrow> bytes \<Rightarrow> Service \<Rightarrow> fs \<Rightarrow> ((string + unit) \<times> Service \<times> fs \<times> bytes) option" where
  "conn_loop C n data service f =
     (case read_request_line (cn_failure C) data of
        (Inl e, rest) \<Rightarrow> Some (Err ''failed to read a control request'', service, f, [])
      | (Inr Eof, rest) \<Rightarrow> Some (Ok (), service, f, [])
      | (Inr TooLong, rest) \<Rightarrow>
          (case write_response (cn_codec C) (cn_write C n) too_long_response of
             Inl e \<Rightarrow> Some (Err e, service, f, [])
           | Inr out \<Rightarrow> Some (Ok (), service, f, out))
      | (Inr (Line line), rest) \<Rightarrow>
          (let line = trim line in
           if line = [] then conn_loop C n rest service f
           else
             let service = cn_others C n service in
             case (case decode_request (cn_codec C) line of
                     Inr req \<Rightarrow> service_handle (cn_service_env C n) f service req
                   | Inl err \<Rightarrow> Some (error_response [] err, service, f)) of
               None \<Rightarrow> None
             | Some (response, service, f) \<Rightarrow>
                 (case write_response (cn_codec C) (cn_write C n) response of
                    Inl e \<Rightarrow> Some (Err e, service, f, [])
                  | Inr out \<Rightarrow>
                      (case conn_loop C (Suc n) rest service f of
                         None \<Rightarrow> None
                       | Some (r, service, f, later) \<Rightarrow> Some (r, service, f, out @ later)))))"
  by pat_completeness auto
termination
  by (relation "measure (\<lambda>(C, n, data, service, f). length data)") (auto dest: read_line_consumes [OF sym] read_line_consumes)

declare conn_loop.simps [simp del]

definition handle_connection ::
  "conn_env \<Rightarrow> u32 option \<Rightarrow> u32 \<Rightarrow> (nat \<Rightarrow> string option) \<Rightarrow> bytes \<Rightarrow> Service \<Rightarrow> fs
     \<Rightarrow> ((string + unit) \<times> Service \<times> fs \<times> bytes) option" where
  "handle_connection C cred uid io data service f =
     (if \<not> peer_is_same_uid cred uid then Some (Err ''rejected peer with mismatched UID'', service, f, [])
      else if io 0 \<noteq> None then Some (Err ''failed to set connection read timeout'', service, f, [])
      else if io 1 \<noteq> None then Some (Err ''failed to clone connection'', service, f, [])
      else conn_loop C 0 data service f)"

section \<open>Reading a line\<close>

lemma as_bytes_append [simp]: "as_bytes (s @ t) = as_bytes s @ as_bytes t"
  by (simp add: as_bytes_def)

lemma byte_of_newline: "byte_of c = 10 \<longleftrightarrow> c = newline"
proof -
  have "byte_of newline = 10" by (simp add: newline_def byte_of_def)
  then show ?thesis by (metis char_of_byte_of)
qed

lemma newline_byte: "as_bytes [newline] = [10]"
  using byte_of_newline [of newline] by (simp add: as_bytes_def)

lemma no_newline_byte: "newline \<notin> set s \<Longrightarrow> 10 \<notin> set (as_bytes s)"
  using byte_of_newline by (auto simp: as_bytes_def)

lemma takeWhile_prefix:
  "10 \<notin> set xs \<Longrightarrow> takeWhile (\<lambda>b. b \<noteq> 10) (xs @ (10 :: u8) # ys) = xs"
  by (induction xs) auto

lemma read_until_line:
  assumes "10 \<notin> set xs" and "length xs < limit"
  shows "read_until_newline limit (xs @ 10 # ys) = xs @ [10]"
proof -
  have "take limit (xs @ 10 # ys) = xs @ 10 # take (limit - length xs - 1) ys"
    using assms(2) by (cases "limit - length xs") (simp_all add: take_Cons')
  then show ?thesis using takeWhile_prefix [OF assms(1)] by (simp add: read_until_newline_def)
qed

text \<open>A valid line within the limit is read as it was sent, and nothing of the next one is touched.\<close>

lemma read_request_line_Line:
  assumes "newline \<notin> set s" and "valid_utf8 (as_bytes s)" and "length s < MAX_LINE_BYTES"
  shows "read_request_line failure (as_bytes (s @ [newline]) @ rest) = (Ok (Line s), rest)"
proof -
  let ?xs = "as_bytes s"
  have "read_until_newline (MAX_LINE_BYTES + 1) (?xs @ 10 # rest) = ?xs @ [10]"
    using assms by (intro read_until_line no_newline_byte) simp_all
  then show ?thesis using assms(2,3) newline_byte
    by (simp add: read_request_line_def from_utf8_def Let_def not_less del: as_bytes_def)
qed

text \<open>The bound on what one read takes in, whatever the client sends.\<close>

lemma read_until_bounded: "length (read_until_newline limit data) \<le> limit"
proof -
  have "length (takeWhile P xs) < length xs" if "x \<in> set xs" "\<not> P x" for P x and xs :: bytes
    using that by (induction xs) auto
  from this [of 10 "take limit data" "\<lambda>b. b \<noteq> 10"] show ?thesis
    by (auto simp: read_until_newline_def Let_def min_def split: if_splits)
qed

lemma one_line_plain: "one_line s \<Longrightarrow> s \<noteq> [] \<and> plain_char (hd s) \<and> plain_char (last s)"
  by (auto simp: one_line_def plain_char_def)

lemma trim_one_line: "one_line s \<Longrightarrow> trim s = s"
  using one_line_plain by (intro trim_plain) auto

section \<open>Framing\<close>

text \<open>What a client's requests should give: each handled in order on the state as other threads left it, the replies one
  after the other.\<close>

fun serve_requests :: "conn_env \<Rightarrow> nat \<Rightarrow> Request list \<Rightarrow> Service \<Rightarrow> fs \<Rightarrow> (Service \<times> fs \<times> bytes) option" where
  "serve_requests C n [] service f = Some (service, f, [])"
| "serve_requests C n (req # reqs) service f =
     (case service_handle (cn_service_env C n) f (cn_others C n service) req of
        None \<Rightarrow> None
      | Some (response, service, f) \<Rightarrow>
         (case write_response (cn_codec C) (cn_write C n) response of
            Inl _ \<Rightarrow> None
          | Inr out \<Rightarrow> map_option (\<lambda>(service, f, later). (service, f, out @ later)) (serve_requests C (Suc n) reqs service f)))"

definition request_bytes :: "json_codec \<Rightarrow> Request \<Rightarrow> bytes" where
  "request_bytes J req = (case encode_request J req of Inl _ \<Rightarrow> [] | Inr line \<Rightarrow> as_bytes line)"

text \<open>A request a client of this version can send: it can be printed, within the line limit.\<close>

definition sendable :: "json_codec \<Rightarrow> Request \<Rightarrow> bool" where
  "sendable J req \<longleftrightarrow> rq_v req = PROTOCOL_VERSION
     \<and> (case rq_to_string J req of Inl _ \<Rightarrow> False | Inr s \<Rightarrow> length s < MAX_LINE_BYTES)"

lemma conn_loop_request:
  assumes "codec_lines (cn_codec C)" and "sendable (cn_codec C) req"
  shows "\<exists>line. read_request_line (cn_failure C) (request_bytes (cn_codec C) req @ rest) = (Ok (Line line), rest)
           \<and> trim line = line \<and> line \<noteq> [] \<and> decode_request (cn_codec C) line = Ok req"
proof -
  let ?J = "cn_codec C"
  obtain s where s: "rq_to_string ?J req = Ok s" "length s < MAX_LINE_BYTES"
    using assms(2) by (auto simp: sendable_def split: sum.splits)
  have one: "one_line s" and parse: "rq_from_str ?J s = Ok req" using assms(1) s(1) by (auto simp: codec_lines_def)
  have "read_request_line (cn_failure C) (as_bytes (s @ [newline]) @ rest) = (Ok (Line s), rest)"
    using one s(2) by (intro read_request_line_Line) (auto simp: one_line_def)
  moreover have "decode_request ?J s = Ok req"
    using parse trim_one_line [OF one] assms(2) by (simp add: decode_request_def sendable_def)
  ultimately show ?thesis using one s(1) trim_one_line [OF one]
    by (auto simp: request_bytes_def encode_request_def one_line_def)
qed

lemma conn_loop_requests:
  assumes "codec_lines (cn_codec C)" and "\<forall>req \<in> set reqs. sendable (cn_codec C) req" and "cn_failure C = None"
    and "serve_requests C n reqs service f = Some (service', f', out)"
  shows "conn_loop C n (concat (map (request_bytes (cn_codec C)) reqs)) service f = Some (Ok (), service', f', out)"
  using assms(2,4)
proof (induction reqs arbitrary: n service f out)
  case Nil
  then show ?case using assms(3)
    by (subst conn_loop.simps) (simp add: read_request_line_def read_until_newline_def)
next
  case (Cons req reqs)
  let ?J = "cn_codec C"
  let ?rest = "concat (map (request_bytes ?J) reqs)"
  obtain line where line: "read_request_line (cn_failure C) (request_bytes ?J req @ ?rest) = (Ok (Line line), ?rest)"
      "trim line = line" "line \<noteq> []" "decode_request ?J line = Ok req"
    using conn_loop_request [OF assms(1)] Cons.prems(1) by (metis list.set_intros(1))
  obtain response s1 f1 o1 later where step: "service_handle (cn_service_env C n) f (cn_others C n service) req = Some (response, s1, f1)"
      "write_response ?J (cn_write C n) response = Ok o1" "serve_requests C (Suc n) reqs s1 f1 = Some (service', f', later)"
      "out = o1 @ later"
    using Cons.prems(2) by (auto split: option.splits sum.splits)
  have "conn_loop C (Suc n) ?rest s1 f1 = Some (Ok (), service', f', later)"
    using Cons.prems(1) step(3) by (intro Cons.IH) auto
  then show ?case using line step by (subst conn_loop.simps) simp
qed

section \<open>Properties\<close>

text \<open>
  C26 JSON-lines framing: when a client of the same user sends requests as lines, however they are cut into packets, the
  daemon handles exactly these requests in this order, each on the state other threads have left by then,
  answers each with one line, and ends the connection cleanly; given what serde promises of its output.
\<close>

theorem control_framing:
  assumes "codec_lines (cn_codec C)" and "\<forall>req \<in> set reqs. sendable (cn_codec C) req" and "cn_failure C = None"
    and "serve_requests C 0 reqs service f = Some (service', f', out)"
  shows "handle_connection C (Some uid) uid (\<lambda>_. None) (concat (map (request_bytes (cn_codec C)) reqs)) service f
       = Some (Ok (), service', f', out)"
  using conn_loop_requests [OF assms] by (simp add: handle_connection_def peer_is_same_uid_def)

definition sample_request :: Request where
  "sample_request = \<lparr>rq_v = 1, rq_id = ''1'', rq_command = CmdUnknown\<rparr>"

definition sample_response :: Response where
  "sample_response = err_response ''1'' UnknownCmd ''unknown command''"

definition sample_json :: json_codec where
  "sample_json =
     \<lparr>rq_to_string = (\<lambda>r. if r = sample_request then Ok ''{}'' else Err ''other''),
      rq_from_str = (\<lambda>s. if s = ''{}'' then Ok sample_request else Err ''expected value''),
      rs_to_string = (\<lambda>r. if r = sample_response then Ok ''{0}'' else Err ''other''),
      rs_from_str = (\<lambda>s. if s = ''{0}'' then Ok sample_response else Err ''expected value'')\<rparr>"

definition sample_conn :: conn_env where
  "sample_conn = \<lparr>cn_codec = sample_json, cn_service_env = (\<lambda>_. sample_venv), cn_others = (\<lambda>_ s. s),
     cn_write = (\<lambda>_. None), cn_failure = None\<rparr>"

lemma sample_json_lines: "codec_lines sample_json"
proof -
  have "one_line ''{}''" "one_line ''{0}''" by code_simp+
  then show ?thesis by (auto simp: codec_lines_def sample_json_def split: if_splits)
qed

theorem control_framing_witness:
  "handle_connection sample_conn (Some 7) 7 (\<lambda>_. None)
     (request_bytes sample_json sample_request @ request_bytes sample_json sample_request) (Service_new sample_db ''k'') (\<lambda>_. None)
   = Some (Ok (), Service_new sample_db ''k'', (\<lambda>_. None), as_bytes (''{0}'' @ [newline] @ ''{0}'' @ [newline]))"
proof -
  let ?C = sample_conn
  have h: "service_handle sample_venv (\<lambda>_. None) s sample_request = Some (sample_response, s, \<lambda>_. None)" for s
    by (simp add: service_handle_def sample_request_def sample_response_def)
  have w: "write_response sample_json None sample_response = Ok (as_bytes (''{0}'' @ [newline]))"
    by (simp add: write_response_def encode_response_def sample_json_def)
  have "sendable sample_json sample_request"
    by (simp add: sendable_def sample_json_def MAX_LINE_BYTES_def, simp add: sample_request_def PROTOCOL_VERSION_def)
  then have "handle_connection ?C (Some 7) 7 (\<lambda>_. None) (concat (map (request_bytes (cn_codec ?C)) [sample_request, sample_request]))
      (Service_new sample_db ''k'') (\<lambda>_. None)
     = Some (Ok (), Service_new sample_db ''k'', (\<lambda>_. None), as_bytes (''{0}'' @ [newline]) @ as_bytes (''{0}'' @ [newline]))"
    using sample_json_lines by (intro control_framing) (simp_all add: sample_conn_def h w)
  then show ?thesis by (simp add: sample_conn_def as_bytes_def)
qed

text \<open>The permits: one per worker, and never more than the cap.\<close>

definition permits_inv :: "accept_state \<Rightarrow> bool" where
  "permits_inv s \<longleftrightarrow> as_active s = as_workers s \<and> as_workers s \<le> MAX_CONNECTIONS"

lemma serve_step_inv: "permits_inv s \<Longrightarrow> permits_inv (serve_step s ev)"
  by (cases ev) (auto simp: permits_inv_def serve_step_def try_acquire_connection_def ConnectionPermit_drop_def)

interpretation permits: invariant_machine serve_step permits_inv
  by unfold_locales (rule serve_step_inv)

text \<open>
  C28 However connections come and go, at most 16 clients are served at a time, the counter is exactly the number of
  workers (no permit is lost or released twice), and a connection is refused only when 16 are served.
\<close>

theorem connections_bounded:
  "as_workers (foldl serve_step serve_start evs) \<le> 16
   \<and> as_active (foldl serve_step serve_start evs) = as_workers (foldl serve_step serve_start evs)
   \<and> (as_refused (serve_step (foldl serve_step serve_start evs) ev) \<noteq> as_refused (foldl serve_step serve_start evs)
      \<longrightarrow> as_workers (foldl serve_step serve_start evs) = 16)"
proof -
  let ?s = "foldl serve_step serve_start evs"
  have "permits_inv serve_start" by (simp add: permits_inv_def serve_start_def)
  then have "permits_inv ?s" by (rule permits.run_inv)
  then show ?thesis
    by (cases ev) (auto simp: permits_inv_def serve_step_def try_acquire_connection_def MAX_CONNECTIONS_def)
qed

theorem connections_bounded_witness:
  "as_refused (serve_step (foldl serve_step serve_start (replicate 16 AcceptedStream)) AcceptedStream) = 1
   \<and> as_workers (foldl serve_step serve_start (replicate 16 AcceptedStream)) = 16"
proof -
  have "as_refused (serve_step (foldl serve_step serve_start (replicate 16 AcceptedStream)) AcceptedStream) = 1"
       "as_refused (foldl serve_step serve_start (replicate 16 AcceptedStream)) = 0" by code_simp+
  then show ?thesis using connections_bounded [of "replicate 16 AcceptedStream" AcceptedStream] by simp
qed

text \<open>
  The socket is private and never stolen: a successful bind leaves the socket with mode 0600 in a directory with mode
  0700, and when another daemon answers at the path, the bind fails and the path is left as it was.
\<close>

theorem bind_private:
  assumes "ControlServer_bind io listening cmode f p = (r, g)" and "p \<noteq> []"
  shows "(is_ok r \<longrightarrow> g p = Some (FileNode 384 []) \<and> g (butlast p) = Some (DirNode 448))
       \<and> (listening \<and> is_file (f p) \<longrightarrow> \<not> is_ok r \<and> g p = f p)"
proof -
  have neq: "butlast p \<noteq> p" using assms(2) by (metis append_butlast_last_id append_self_conv not_Cons_self2)
  have dir: "f1 p = f p \<or> f p = None" if "create_dir_all f (butlast p) = Some f1" for f1
    using that by (auto simp: create_dir_all_def split: if_splits)
  have nofile: "g1 (butlast p) \<noteq> Some (FileNode m c)" if "create_dir_all f (butlast p) = Some g1" for g1 m c
    using that by (auto simp: create_dir_all_def list_ex_iff is_file_def split: if_splits option.splits fnode.splits)
  show ?thesis using assms neq dir nofile
    by (auto simp: ControlServer_bind_def Let_def is_file_def set_permissions_def
        split: if_splits option.splits sum.splits fnode.splits)
qed

theorem bind_private_witness:
  "\<exists>g. ControlServer_bind (\<lambda>_. None) False 511 (\<lambda>_. None) [''run'', ''control.sock''] = (Ok \<lparr>cs_path = [''run'', ''control.sock'']\<rparr>, g)
     \<and> g [''run'', ''control.sock''] = Some (FileNode 384 []) \<and> g [''run''] = Some (DirNode 448)"
proof -
  let ?r = "ControlServer_bind (\<lambda>_. None) False 511 (\<lambda>_. None) [''run'', ''control.sock'']"
  have "fst ?r = Ok \<lparr>cs_path = [''run'', ''control.sock'']\<rparr>"
    by (simp add: ControlServer_bind_def create_dir_all_def is_file_def set_permissions_def list_ex_iff Let_def)
  then obtain g where g: "?r = (Ok \<lparr>cs_path = [''run'', ''control.sock'']\<rparr>, g)" by (metis prod.collapse)
  from bind_private [OF g] g show ?thesis by simp
qed

text \<open>A foreign user's connection ends before anything it sent is read: no reply, no effect.\<close>

lemma foreign_peer_rejected:
  "cred \<noteq> Some uid \<Longrightarrow>
   handle_connection C cred uid io data service f = Some (Err ''rejected peer with mismatched UID'', service, f, [])"
  by (auto simp: handle_connection_def peer_is_same_uid_def split: option.splits)

text \<open>A last request without its newline is short, but is answered as one that exceeds the limit.\<close>

theorem unterminated_line_too_long:
  assumes "data \<noteq> []" and "10 \<notin> set data" and "length data \<le> MAX_LINE_BYTES" and "cn_failure C = None"
    and "write_response (cn_codec C) (cn_write C n) too_long_response = Ok out"
  shows "conn_loop C n data service f = Some (Ok (), service, f, out)"
  using assms
  by (subst conn_loop.simps) (auto simp: read_request_line_def read_until_newline_def Let_def dest: last_in_set)

end
