(* ===== verification/Cli_Model.thy ===== *)
theory Cli_Model
  imports Control
begin

text \<open>
  The command-line client (\<^verbatim>\<open>emersia-cli/src/main.rs\<close>): its arguments, the commands they stand for, the one request
  and response on the control socket, and what is printed.  What serde prints of a JSON value is a
  parameter; the socket's outcomes are observed.
\<close>

section \<open>Arguments\<close>

datatype Failure = UsageFailure string | RuntimeFailure string

definition EXIT_OK :: nat where "EXIT_OK = 0"
definition EXIT_FAILURE :: nat where "EXIT_FAILURE = 1"
definition EXIT_USAGE :: nat where "EXIT_USAGE = 2"

text \<open>Each invocation draws ids from a counter that starts at one.\<close>

definition next_id :: "u64 \<Rightarrow> string \<times> u64" where
  "next_id counter = (''c'' @ show_nat (unat counter), counter + 1)"

record Invocation =
  iv_socket :: "string option"
  iv_json :: bool
  iv_command :: Command

definition simple_command :: "string \<Rightarrow> Command option" where
  "simple_command name =
     (if name = ''status'' then Some CmdStatus
      else if name = ''stop'' then Some CmdStop
      else if name = ''events'' then Some CmdEvents
      else if name = ''devices'' then Some CmdDevices
      else None)"

record CliFlags =
  fl_socket :: "string option"
  fl_json :: bool
  fl_fps :: "u32 option"
  fl_device_name :: "string option"
  fl_public_key :: "string option"
  fl_command_name :: "string option"
  fl_positionals :: "string list"

definition CliFlags_none :: CliFlags where
  "CliFlags_none = \<lparr>fl_socket = None, fl_json = False, fl_fps = None, fl_device_name = None, fl_public_key = None,
                    fl_command_name = None, fl_positionals = []\<rparr>"

definition parse_fps :: "string \<Rightarrow> u32 option" where
  "parse_fps s = map_option of_nat (from_str_radix 10 u32_max s)"

text \<open>The option loop; \<open>Ok None\<close> is help or version, which were printed.\<close>

fun cli_scan :: "string list \<Rightarrow> CliFlags \<Rightarrow> Failure + CliFlags option" where
  "cli_scan [] fl = Ok (Some fl)"
| "cli_scan (arg # rest) fl =
     (if arg = ''--version'' \<or> arg = ''-V'' \<or> arg = ''--help'' \<or> arg = ''-h'' then Ok None
      else if arg = ''--json'' then cli_scan rest (fl\<lparr>fl_json := True\<rparr>)
      else if arg \<in> {''--socket'', ''--fps'', ''--name'', ''--public-key''}
      then (case rest of
              [] \<Rightarrow> Err (UsageFailure (''missing value for '' @ arg))
            | value # rest \<Rightarrow>
               (if arg = ''--socket'' then cli_scan rest (fl\<lparr>fl_socket := Some value\<rparr>)
                else if arg = ''--fps''
                then (case parse_fps value of
                        None \<Rightarrow> Err (UsageFailure (''--fps must be a number, got '' @ str_debug value))
                      | Some n \<Rightarrow> cli_scan rest (fl\<lparr>fl_fps := Some n\<rparr>))
                else if arg = ''--name'' then cli_scan rest (fl\<lparr>fl_device_name := Some value\<rparr>)
                else cli_scan rest (fl\<lparr>fl_public_key := Some value\<rparr>)))
      else if arg \<noteq> [] \<and> hd arg = CHR ''-'' \<and> arg \<noteq> ''-'' then Err (UsageFailure (''unknown flag: '' @ arg))
      else if fl_command_name fl = None then cli_scan rest (fl\<lparr>fl_command_name := Some arg\<rparr>)
      else cli_scan rest (fl\<lparr>fl_positionals := fl_positionals fl @ [arg]\<rparr>))"

definition list_debug :: "string list \<Rightarrow> string" where
  "list_debug xs = ''['' @ str_join '', '' (map str_debug xs) @ '']''"

definition option_debug :: "string option \<Rightarrow> string" where
  "option_debug x = (case x of None \<Rightarrow> ''None'' | Some s \<Rightarrow> ''Some('' @ str_debug s @ '')'')"

definition nth_arg :: "string list \<Rightarrow> nat \<Rightarrow> string option" where
  "nth_arg xs i = (if i < length xs then Some (xs ! i) else None)"

text \<open>A word in single quotes.\<close>

definition quoted :: "string \<Rightarrow> string" where
  "quoted s = [CHR 0x27] @ s @ [CHR 0x27]"

definition build_pair :: "string list \<Rightarrow> string option \<Rightarrow> string option \<Rightarrow> Failure + Command" where
  "build_pair positionals device_name public_key =
     (let build = (\<lambda>action. CmdPair \<lparr>pa_action = action, pa_code = nth_arg positionals 1, pa_name = device_name, pa_public_key = public_key\<rparr>)
      in if nth_arg positionals 0 = Some ''new'' then Ok (build PairNew)
         else if nth_arg positionals 0 = Some ''accept''
         then (if nth_arg positionals 1 = None
               then Err (UsageFailure (quoted ''pair accept'' @ '' needs a code (e.g. emersia pair accept 123-456 --name '' @ [CHR 0xE2, CHR 0x80, CHR 0xA6] @ '')''))
               else if device_name = None then Err (UsageFailure (quoted ''pair accept'' @ '' needs --name''))
               else if public_key = None then Err (UsageFailure (quoted ''pair accept'' @ '' needs --public-key''))
               else Ok (build PairAccept))
         else Err (UsageFailure (quoted ''pair'' @ '' needs '' @ quoted ''new'' @ '' or '' @ quoted ''accept'' @ '' (got '' @ option_debug (nth_arg positionals 0) @ '')'')))"

definition build_command ::
  "string \<Rightarrow> string list \<Rightarrow> u32 option \<Rightarrow> string option \<Rightarrow> string option \<Rightarrow> Failure + Command" where
  "build_command name positionals fps device_name public_key =
     (case simple_command name of
        Some command \<Rightarrow>
          if positionals \<noteq> []
          then Err (UsageFailure (quoted name @ '' takes no arguments (got '' @ list_debug positionals @ '')''))
          else Ok command
      | None \<Rightarrow>
          if name = ''screens'' then Ok CmdScreens
          else if name = ''start''
          then (if length positionals > 1 then Err (UsageFailure (quoted ''start'' @ '' takes at most one output name''))
                else Ok (CmdStart \<lparr>sa_output = nth_arg positionals 0, sa_fps = fps\<rparr>))
          else if name = ''pair'' then build_pair positionals device_name public_key
          else if name = ''revoke''
          then (case nth_arg positionals 0 of
                  None \<Rightarrow> Err (UsageFailure (quoted ''revoke'' @ '' needs a device id''))
                | Some device \<Rightarrow> Ok (CmdRevoke \<lparr>ra_device = device\<rparr>))
          else if name = ''select'' then Ok (CmdSelect \<lparr>sel_targets = positionals\<rparr>)
          else Err (UsageFailure (''unknown command: '' @ name)))"

definition cli_parse_args :: "string list \<Rightarrow> Failure + Invocation option" where
  "cli_parse_args args =
     (case cli_scan (drop 1 args) CliFlags_none of
        Inl e \<Rightarrow> Err e
      | Inr None \<Rightarrow> Ok None
      | Inr (Some fl) \<Rightarrow>
         (case fl_command_name fl of
            None \<Rightarrow> Ok None
          | Some name \<Rightarrow>
              if name = ''help'' then Ok None
              else case build_command name (fl_positionals fl) (fl_fps fl) (fl_device_name fl) (fl_public_key fl) of
                     Inl e \<Rightarrow> Err e
                   | Inr command \<Rightarrow> Ok (Some \<lparr>iv_socket = fl_socket fl, iv_json = fl_json fl, iv_command = command\<rparr>)))"

section \<open>One request\<close>

text \<open>What the socket does: errors of connecting, setting the timeout, writing and flushing, and the reply.\<close>

record SocketView =
  so_connect_error :: "string option"
  so_timeout_error :: "string option"
  so_write_error :: "string option"
  so_flush_error :: "string option"
  so_reply :: "string + bytes"

text \<open>\<^verbatim>\<open>BufRead::read_line\<close>: up to and with the first line break, or everything.\<close>

definition read_line :: "bytes \<Rightarrow> string + string" where
  "read_line data =
     (let line = takeWhile (\<lambda>b. b \<noteq> 10) data @ (if 10 \<in> set data then [10] else [])
      in case from_utf8 line of Some s \<Rightarrow> Ok s | None \<Rightarrow> Err ''stream did not contain valid UTF-8'')"

definition send :: "json_codec \<Rightarrow> SocketView \<Rightarrow> string \<Rightarrow> Request \<Rightarrow> Failure + Response" where
  "send J v socket request =
     (case so_connect_error v of
        Some e \<Rightarrow> Err (RuntimeFailure (''could not reach emersia-daemon at '' @ socket @ '': '' @ e @ [newline]
                     @ ''Is the daemon running? (systemctl --user status emersia-daemon)''))
      | None \<Rightarrow>
     (case so_timeout_error v of
        Some e \<Rightarrow> Err (RuntimeFailure (''failed to set read timeout: '' @ e))
      | None \<Rightarrow>
     (case encode_request J request of
        Inl e \<Rightarrow> Err (RuntimeFailure (''failed to encode request: '' @ ProtocolError_display e))
      | Inr line \<Rightarrow>
     (case so_write_error v of
        Some e \<Rightarrow> Err (RuntimeFailure (''failed to send request: '' @ e))
      | None \<Rightarrow>
     (case so_flush_error v of
        Some e \<Rightarrow> Err (RuntimeFailure (''failed to flush request: '' @ e))
      | None \<Rightarrow>
     (case so_reply v of
        Inl e \<Rightarrow> Err (RuntimeFailure (''failed to read response: '' @ e))
      | Inr data \<Rightarrow>
     (case read_line data of
        Inl e \<Rightarrow> Err (RuntimeFailure (''failed to read response: '' @ e))
      | Inr buf \<Rightarrow>
         if buf = [] then Err (RuntimeFailure ''daemon closed the connection without responding'')
         else map_err (\<lambda>e. RuntimeFailure (''malformed response from daemon: '' @ ProtocolError_display e))
                (decode_response J (trim buf)))))))))"

section \<open>Printing\<close>

fun code_token :: "ErrorCode \<Rightarrow> string" where
  "code_token UnknownCmd = ''unknown_cmd''"
| "code_token NotPaired = ''not_paired''"
| "code_token Busy = ''busy''"
| "code_token NoCaptureBackend = ''no_capture_backend''"
| "code_token Denied = ''denied''"
| "code_token InvalidArgs = ''invalid_args''"
| "code_token NotFoundCode = ''not_found''"
| "code_token Internal = ''internal''"

definition describe_error :: "ErrorInfo \<Rightarrow> string" where
  "describe_error error = ''daemon error ['' @ code_token (ei_code error) @ '']: '' @ ei_message error"

definition json_get :: "json \<Rightarrow> string \<Rightarrow> json option" where
  "json_get j key = (case j of JObj kvs \<Rightarrow> map_of kvs key | _ \<Rightarrow> None)"

definition json_str_or :: "json \<Rightarrow> string \<Rightarrow> string \<Rightarrow> string" where
  "json_str_or j key dflt = (case json_get j key of Some (JStr s) \<Rightarrow> s | _ \<Rightarrow> dflt)"

definition json_bool_or :: "json \<Rightarrow> string \<Rightarrow> bool \<Rightarrow> bool" where
  "json_bool_or j key dflt = (case json_get j key of Some (JBool b) \<Rightarrow> b | _ \<Rightarrow> dflt)"

definition json_int_or :: "json \<Rightarrow> string \<Rightarrow> nat \<Rightarrow> nat" where
  "json_int_or j key dflt =
     (case json_get j key of Some (JInt n) \<Rightarrow> if n < 2 ^ 63 then n else dflt | _ \<Rightarrow> dflt)"

definition screen_line :: "json \<Rightarrow> string" where
  "screen_line s =
     ''  '' @ json_str_or s ''name'' ''?'' @ ''  '' @ json_str_or s ''kind'' ''?'' @ ''  ''
     @ show_nat (json_int_or s ''width'' 0) @ ''x'' @ show_nat (json_int_or s ''height'' 0)
     @ ''  transform='' @ json_str_or s ''transform'' ''normal''"

definition device_line :: "json \<Rightarrow> string" where
  "device_line d =
     ''  '' @ json_str_or d ''id'' ''?'' @ ''  '' @ json_str_or d ''name'' ''?'' @ ''  [''
     @ (if json_bool_or d ''revoked'' False then ''revoked'' else ''active'') @ '']''"

definition render_value :: "(json \<Rightarrow> string) \<Rightarrow> json \<Rightarrow> string" where
  "render_value to_text v =
     (case v of JNull \<Rightarrow> ''none'' | JStr s \<Rightarrow> s | JBool b \<Rightarrow> (if b then ''true'' else ''false'') | other \<Rightarrow> to_text other)"

text \<open>The printed lines; \<open>to_text\<close> is the JSON text of a value, and an object lists its keys in iteration order.\<close>

definition print_human :: "(json \<Rightarrow> string) \<Rightarrow> json \<Rightarrow> string list" where
  "print_human to_text payload =
     (case json_get payload ''screens'' of
        Some (JArr arr) \<Rightarrow> if arr = [] then [''no capturable screens''] else ''screens:'' # map screen_line arr
      | _ \<Rightarrow>
     (case json_get payload ''devices'' of
        Some d \<Rightarrow>
          (let arr = (case d of JArr arr \<Rightarrow> arr | _ \<Rightarrow> [])
           in if arr = [] then [''no paired devices''] else ''devices:'' # map device_line arr)
      | None \<Rightarrow>
     (case payload of
        JObj kvs \<Rightarrow>
          (''daemon: '' @ (if json_bool_or payload ''streaming'' False then ''streaming'' else ''idle''))
          # map (\<lambda>(key, v). ''  '' @ key @ '': '' @ render_value to_text v) (filter (\<lambda>(key, v). key \<noteq> ''streaming'') kvs)
      | _ \<Rightarrow> [to_text payload])))"

text \<open>\<open>pretty\<close> is the indented JSON text of a value, and \<open>pretty_error\<close> that of an error.\<close>

definition print_response ::
  "(json \<Rightarrow> string) \<Rightarrow> (json \<Rightarrow> string) \<Rightarrow> (ErrorInfo \<Rightarrow> string) \<Rightarrow> Response \<Rightarrow> bool \<Rightarrow> (Failure + unit) \<times> string list" where
  "print_response to_text pretty pretty_error response raw_json =
     (case response of
        RespOk ok \<Rightarrow> (Ok (), if raw_json then [pretty (ro_ok ok)] else print_human to_text (ro_ok ok))
      | RespErr err \<Rightarrow>
          (Err (RuntimeFailure (describe_error (re_error err))), if raw_json then [pretty_error (re_error err)] else []))"

record CliView =
  cl_codec :: json_codec
  cl_to_text :: "json \<Rightarrow> string"
  cl_pretty :: "json \<Rightarrow> string"
  cl_pretty_error :: "ErrorInfo \<Rightarrow> string"
  cl_runtime_dir :: "string list option"
  cl_socket :: SocketView

definition cli_run :: "CliView \<Rightarrow> string list \<Rightarrow> (Failure + unit) \<times> string list" where
  "cli_run v args =
     (case cli_parse_args args of
        Inl e \<Rightarrow> (Err e, [])
      | Inr None \<Rightarrow> (Ok (), [])
      | Inr (Some invocation) \<Rightarrow>
         (case (case iv_socket invocation of
                  Some p \<Rightarrow> Ok p
                | None \<Rightarrow> map_sum id path_display (default_socket_path (cl_runtime_dir v))) of
            Inl e \<Rightarrow> (Err (RuntimeFailure (''could not determine the control socket path: '' @ e @ ''; is XDG_RUNTIME_DIR set?'')), [])
          | Inr socket \<Rightarrow>
             (let request = \<lparr>rq_v = PROTOCOL_VERSION, rq_id = fst (next_id 1), rq_command = iv_command invocation\<rparr>
              in case send (cl_codec v) (cl_socket v) socket request of
                   Inl e \<Rightarrow> (Err e, [])
                 | Inr response \<Rightarrow>
                     print_response (cl_to_text v) (cl_pretty v) (cl_pretty_error v) response (iv_json invocation))))"

definition cli_main :: "CliView \<Rightarrow> string list \<Rightarrow> nat" where
  "cli_main v args =
     (case fst (cli_run v args) of
        Inr _ \<Rightarrow> EXIT_OK
      | Inl (UsageFailure _) \<Rightarrow> EXIT_USAGE
      | Inl (RuntimeFailure _) \<Rightarrow> EXIT_FAILURE)"

section \<open>Rendering a command\<close>

text \<open>The words that stand for a command: its name, positionals and options.\<close>

fun command_parts :: "Command \<Rightarrow> string \<times> string list \<times> u32 option \<times> string option \<times> string option" where
  "command_parts CmdStatus = (''status'', [], None, None, None)"
| "command_parts CmdScreens = (''screens'', [], None, None, None)"
| "command_parts (CmdStart a) = (''start'', (case sa_output a of None \<Rightarrow> [] | Some w \<Rightarrow> [w]), sa_fps a, None, None)"
| "command_parts CmdStop = (''stop'', [], None, None, None)"
| "command_parts CmdEvents = (''events'', [], None, None, None)"
| "command_parts (CmdPair a) =
     (''pair'', (case pa_action a of PairNew \<Rightarrow> ''new'' | PairAccept \<Rightarrow> ''accept'') # (case pa_code a of None \<Rightarrow> [] | Some c \<Rightarrow> [c]),
      None, pa_name a, pa_public_key a)"
| "command_parts CmdDevices = (''devices'', [], None, None, None)"
| "command_parts (CmdRevoke a) = (''revoke'', [ra_device a], None, None, None)"
| "command_parts (CmdSelect a) = (''select'', sel_targets a, None, None, None)"
| "command_parts CmdUnknown = (''help'', [], None, None, None)"

definition plain_word :: "string \<Rightarrow> bool" where
  "plain_word w \<longleftrightarrow> w = ''-'' \<or> w = [] \<or> hd w \<noteq> CHR ''-''"

definition option_words :: "string \<Rightarrow> string option \<Rightarrow> string list" where
  "option_words flag v = (case v of None \<Rightarrow> [] | Some w \<Rightarrow> [flag, w])"

definition render_command :: "Command \<Rightarrow> string list" where
  "render_command cmd =
     (case command_parts cmd of (name, words, fps, device_name, public_key) \<Rightarrow>
        name # words @ option_words ''--fps'' (map_option (\<lambda>n. show_nat (unat n)) fps)
             @ option_words ''--name'' device_name @ option_words ''--public-key'' public_key)"

definition global_words :: "string option \<Rightarrow> bool \<Rightarrow> string list" where
  "global_words socket raw_json = option_words ''--socket'' socket @ (if raw_json then [''--json''] else [])"

text \<open>
  The commands the client can ask for: not the unknown one, every positional (output, target, pairing code, device
  id) does not begin with a dash or is a lone dash, and \<open>accept\<close> has its three arguments.
\<close>

definition cli_expressible :: "Command \<Rightarrow> bool" where
  "cli_expressible cmd \<longleftrightarrow> cmd \<noteq> CmdUnknown \<and> list_all plain_word (fst (snd (command_parts cmd)))
     \<and> (case cmd of CmdPair a \<Rightarrow> pa_action a = PairAccept \<longrightarrow> pa_code a \<noteq> None \<and> pa_name a \<noteq> None \<and> pa_public_key a \<noteq> None
        | _ \<Rightarrow> True)"

lemma plain_word_not_flag:
  assumes "plain_word w"
  shows "w \<noteq> ''--version'' \<and> w \<noteq> ''-V'' \<and> w \<noteq> ''--help'' \<and> w \<noteq> ''-h'' \<and> w \<noteq> ''--json'' \<and> w \<noteq> ''--socket'' \<and> w \<noteq> ''--fps''
       \<and> w \<noteq> ''--name'' \<and> w \<noteq> ''--public-key'' \<and> \<not> (w \<noteq> [] \<and> hd w = CHR ''-'' \<and> w \<noteq> ''-'')"
  using assms by (auto simp: plain_word_def)

lemma scan_words:
  assumes "list_all plain_word ws" and "fl_command_name fl = Some name"
  shows "cli_scan (ws @ rest) fl = cli_scan rest (fl\<lparr>fl_positionals := fl_positionals fl @ ws\<rparr>)"
  using assms
proof (induction ws arbitrary: fl)
  case (Cons w ws)
  have "plain_word w" using Cons.prems(1) by simp
  with plain_word_not_flag [of w] show ?case using Cons by auto
qed simp

lemma scan_name:
  "plain_word name \<Longrightarrow> fl_command_name fl = None \<Longrightarrow>
   cli_scan (name # rest) fl = cli_scan rest (fl\<lparr>fl_command_name := Some name\<rparr>)"
  using plain_word_not_flag [of name] by auto

lemma parse_fps_show [simp]: "parse_fps (show_nat (unat n)) = Some n"
proof -
  have "unat n \<le> u32_max" using unsigned_less [where 'a = nat and w = n] by (simp add: u32_max_def)
  then have "from_str_radix 10 u32_max (show_nat (unat n)) = Some (unat n)"
    by (intro from_str_radix_show) simp_all
  then show ?thesis by (simp add: parse_fps_def)
qed

lemma scan_options:
  "cli_scan (option_words ''--fps'' (map_option (\<lambda>n. show_nat (unat n)) fps) @ rest) fl
     = cli_scan rest (if fps = None then fl else fl\<lparr>fl_fps := fps\<rparr>)"
  "cli_scan (option_words ''--name'' v @ rest) fl = cli_scan rest (if v = None then fl else fl\<lparr>fl_device_name := v\<rparr>)"
  "cli_scan (option_words ''--public-key'' v @ rest) fl = cli_scan rest (if v = None then fl else fl\<lparr>fl_public_key := v\<rparr>)"
  "cli_scan (option_words ''--socket'' v @ rest) fl = cli_scan rest (if v = None then fl else fl\<lparr>fl_socket := v\<rparr>)"
  by (auto simp: option_words_def split: option.split)

lemma scan_globals:
  "cli_scan (global_words socket raw_json @ rest) fl
     = cli_scan rest ((if socket = None then fl else fl\<lparr>fl_socket := socket\<rparr>)\<lparr>fl_json := fl_json fl \<or> raw_json\<rparr>)"
  by (cases fl) (auto simp: global_words_def scan_options)

lemma command_parts_name: "plain_word (fst (command_parts cmd))"
  by (cases cmd) (simp_all add: plain_word_def)

lemma scan_command:
  assumes "list_all plain_word (fst (snd (command_parts cmd)))" and "fl_command_name fl = None"
  shows "cli_scan (render_command cmd @ rest) fl =
     (case command_parts cmd of (name, words, fps, device_name, public_key) \<Rightarrow>
        cli_scan rest (fl\<lparr>fl_command_name := Some name, fl_positionals := fl_positionals fl @ words,
          fl_fps := (if fps = None then fl_fps fl else fps),
          fl_device_name := (if device_name = None then fl_device_name fl else device_name),
          fl_public_key := (if public_key = None then fl_public_key fl else public_key)\<rparr>))"
proof -
  obtain name words fps device_name public_key where parts: "command_parts cmd = (name, words, fps, device_name, public_key)"
    by (metis prod.exhaust)
  have "plain_word name" using command_parts_name [of cmd] parts by simp
  then show ?thesis using assms parts
    by (cases fl) (simp add: render_command_def scan_name scan_words scan_options del: cli_scan.simps)
qed

lemma build_command_parts:
  assumes "cli_expressible cmd"
  shows "case command_parts cmd of (name, words, fps, device_name, public_key) \<Rightarrow>
           name \<noteq> ''help'' \<and> build_command name words fps device_name public_key = Ok cmd"
proof (cases cmd)
  case (CmdPair a)
  then show ?thesis using assms
    by (cases a; cases "pa_action a") (auto simp: cli_expressible_def build_command_def simple_command_def build_pair_def nth_arg_def split: option.splits)
qed (use assms in \<open>auto simp: cli_expressible_def build_command_def simple_command_def nth_arg_def split: option.splits\<close>)

text \<open>Conversely, whatever the arguments are, what they parse to is such a command.\<close>

lemma scan_step:
  assumes "cli_scan (arg # rest) fl = Ok (Some fl')" and "list_all plain_word (fl_positionals fl)"
  shows "\<exists>rest1 fl1. length rest1 \<le> length rest \<and> cli_scan rest1 fl1 = Ok (Some fl') \<and> list_all plain_word (fl_positionals fl1)"
proof (cases "arg \<in> {''--socket'', ''--fps'', ''--name'', ''--public-key''}")
  case True
  then obtain w rest1 where rest: "rest = w # rest1" using assms(1) by (cases rest) auto
  then have "\<exists>fl1. cli_scan rest1 fl1 = Ok (Some fl') \<and> fl_positionals fl1 = fl_positionals fl"
    using True assms(1)
    by (elim insertE emptyE) (auto split: option.splits intro: exI [of _ "fl\<lparr>fl_socket := Some w\<rparr>"]
        exI [of _ "fl\<lparr>fl_device_name := Some w\<rparr>"] exI [of _ "fl\<lparr>fl_public_key := Some w\<rparr>"])
  with rest assms(2) show ?thesis by (intro exI [of _ rest1]) auto
next
  case False
  show ?thesis
  proof (cases "plain_word arg")
    case True
    with plain_word_not_flag [OF True] assms show ?thesis
      by (intro exI [of _ rest]) (auto split: if_splits)
  next
    case flag: False
    then have "arg = ''--json''" using False assms(1) by (auto simp: plain_word_def split: if_splits)
    with assms show ?thesis by (intro exI [of _ rest] exI [of _ "fl\<lparr>fl_json := True\<rparr>"]) simp
  qed
qed

lemma scan_positionals:
  "cli_scan args fl = Ok (Some fl') \<Longrightarrow> list_all plain_word (fl_positionals fl) \<Longrightarrow> list_all plain_word (fl_positionals fl')"
proof (induction "length args" arbitrary: args fl rule: less_induct)
  case less
  show ?case
  proof (cases args)
    case (Cons arg rest)
    obtain rest1 fl1 where "length rest1 \<le> length rest" "cli_scan rest1 fl1 = Ok (Some fl')" "list_all plain_word (fl_positionals fl1)"
      using scan_step less.prems Cons by blast
    with less.hyps [of rest1 fl1] Cons show ?thesis by simp
  qed (use less.prems in simp)
qed

lemma nth_arg_plain: "list_all plain_word ws \<Longrightarrow> nth_arg ws i = Some w \<Longrightarrow> plain_word w"
  by (auto simp: nth_arg_def list_all_length split: if_splits)

lemma build_pair_expressible:
  assumes "build_pair ws device_name public_key = Ok cmd" and "list_all plain_word ws"
  shows "cli_expressible cmd"
proof -
  have "plain_word ''new''" "plain_word ''accept''" by (simp_all add: plain_word_def)
  with assms nth_arg_plain [OF assms(2)] show ?thesis
    by (auto simp: build_pair_def cli_expressible_def Let_def split: if_splits option.splits)
qed

lemma build_command_expressible:
  assumes "build_command name ws fps device_name public_key = Ok cmd" and "list_all plain_word ws"
  shows "cli_expressible cmd"
proof (cases "name = ''pair''")
  case True
  with assms build_pair_expressible show ?thesis by (simp add: build_command_def simple_command_def)
next
  case False
  with assms nth_arg_plain [OF assms(2)] show ?thesis
    by (auto simp: build_command_def simple_command_def cli_expressible_def split: if_splits option.splits)
qed

lemma parsed_expressible:
  assumes "cli_parse_args args = Ok (Some iv)"
  shows "cli_expressible (iv_command iv)"
proof -
  obtain fl name where scan: "cli_scan (drop 1 args) CliFlags_none = Ok (Some fl)"
      "build_command name (fl_positionals fl) (fl_fps fl) (fl_device_name fl) (fl_public_key fl) = Ok (iv_command iv)"
    using assms by (auto simp: cli_parse_args_def split: sum.splits option.splits if_splits)
  from scan_positionals [OF scan(1)] build_command_expressible [OF scan(2)] show ?thesis
    by (simp add: CliFlags_none_def)
qed

text \<open>
  C37 Asking on the command line is exact: a command is parsed back as it is, with the socket path and the JSON switch and
  the global options before or after it, unless it is the unknown one, has a positional that begins with a dash
  (and is not a lone dash), or is \<^verbatim>\<open>pair accept\<close> without a code, a name or a key; and those are what no argument
  list at all is parsed to.
\<close>

theorem cli_args_roundtrip:
  "if cli_expressible cmd
   then cli_parse_args (prog # global_words socket raw_json @ render_command cmd)
           = Ok (Some \<lparr>iv_socket = socket, iv_json = raw_json, iv_command = cmd\<rparr>)
       \<and> cli_parse_args (prog # render_command cmd @ global_words socket raw_json)
           = Ok (Some \<lparr>iv_socket = socket, iv_json = raw_json, iv_command = cmd\<rparr>)
   else \<forall>args iv. cli_parse_args args = Ok (Some iv) \<longrightarrow> iv_command iv \<noteq> cmd"
proof (cases "cli_expressible cmd")
  case True
  then have words: "list_all plain_word (fst (snd (command_parts cmd)))" by (simp add: cli_expressible_def)
  note parts = build_command_parts [OF True]
  have "cli_parse_args (prog # global_words socket raw_json @ render_command cmd)
           = Ok (Some \<lparr>iv_socket = socket, iv_json = raw_json, iv_command = cmd\<rparr>)"
    using scan_globals [of socket raw_json "render_command cmd" CliFlags_none] scan_command [OF words, of _ "[]"] parts
    by (auto simp: cli_parse_args_def CliFlags_none_def split: prod.splits)
  moreover have "cli_parse_args (prog # render_command cmd @ global_words socket raw_json)
           = Ok (Some \<lparr>iv_socket = socket, iv_json = raw_json, iv_command = cmd\<rparr>)"
    using scan_command [OF words, of CliFlags_none "global_words socket raw_json"] scan_globals [of socket raw_json "[]"] parts
    by (auto simp: cli_parse_args_def CliFlags_none_def split: prod.splits)
  ultimately show ?thesis using True by simp
next
  case False
  with parsed_expressible show ?thesis by auto
qed

text \<open>A command and its arguments as words, parsed back; the witness pairs a device, with the options last.\<close>

theorem cli_args_roundtrip_witness:
  "cli_parse_args [''emersia'', ''pair'', ''accept'', ''123-456'', ''--name'', ''phone'', ''--public-key'', ''ab'', ''--socket'', ''/s'', ''--json'']
     = Ok (Some \<lparr>iv_socket = Some ''/s'', iv_json = True,
         iv_command = CmdPair \<lparr>pa_action = PairAccept, pa_code = Some ''123-456'', pa_name = Some ''phone'', pa_public_key = Some ''ab''\<rparr>\<rparr>)"
proof -
  let ?cmd = "CmdPair \<lparr>pa_action = PairAccept, pa_code = Some ''123-456'', pa_name = Some ''phone'', pa_public_key = Some ''ab''\<rparr>"
  have "cli_expressible ?cmd" by (simp add: cli_expressible_def plain_word_def)
  with cli_args_roundtrip [of ?cmd "''emersia''" "Some ''/s''" True] show ?thesis
    by (simp add: render_command_def global_words_def option_words_def)
qed

section \<open>The client against the daemon\<close>

lemma valid_utf8_append: "valid_utf8 xs \<Longrightarrow> valid_utf8 ys \<Longrightarrow> valid_utf8 (xs @ ys)"
  by (induction xs rule: valid_utf8.induct) (auto simp: nth_append split: if_splits)

lemma trim_line_end:
  assumes "one_line s"
  shows "trim (s @ [newline]) = s"
proof -
  note plain = one_line_plain [OF assms]
  have front: "strip_ws ws_encodings (s @ [newline]) = s @ [newline]" using plain by (intro strip_ws_plain) auto
  have "ws_prefix_len (map rev ws_encodings) (newline # rev s) = 1"
    by (simp add: ws_prefix_len_def ws_encodings_def newline_def)
  then have "strip_ws (map rev ws_encodings) (newline # rev s) = strip_ws (map rev ws_encodings) (rev s)"
    by (subst strip_ws.simps) simp
  also have "\<dots> = rev s" using plain by (intro strip_ws_plain) (auto simp: hd_rev)
  finally show ?thesis using front by (simp add: trim_def)
qed

lemma read_line_one_line:
  assumes "one_line s"
  shows "read_line (as_bytes (s @ [newline]) @ rest) = Ok (s @ [newline])"
proof -
  have s: "newline \<notin> set s" "valid_utf8 (as_bytes s)" using assms by (auto simp: one_line_def)
  have "takeWhile (\<lambda>b. b \<noteq> 10) (as_bytes s @ 10 # rest) = as_bytes s" by (rule takeWhile_prefix [OF no_newline_byte [OF s(1)]])
  moreover have "valid_utf8 (as_bytes s @ [10])" by (rule valid_utf8_append [OF s(2)]) simp
  moreover have "str_of_bytes (as_bytes s @ [10]) = s @ [newline]"
    using newline_byte by (metis as_bytes_append str_of_bytes_as_bytes)
  ultimately show ?thesis by (simp add: read_line_def newline_byte from_utf8_def Let_def)
qed

text \<open>A socket on which every call succeeds and the daemon's bytes arrive.\<close>

definition connected :: "bytes \<Rightarrow> SocketView" where
  "connected out = \<lparr>so_connect_error = None, so_timeout_error = None, so_write_error = None, so_flush_error = None, so_reply = Ok out\<rparr>"

lemma send_reads_reply:
  assumes "codec_lines J" and "rq_to_string J request = Ok line" and "rs_to_string J response = Ok text"
  shows "send J (connected (as_bytes (text @ [newline]))) socket request = Ok response"
proof -
  have one: "one_line text" and parse: "rs_from_str J text = Ok response" using assms(1,3) by (auto simp: codec_lines_def)
  have "read_line (as_bytes (text @ [newline])) = Ok (text @ [newline])" using read_line_one_line [OF one, of "[]"] by simp
  then show ?thesis using assms(2) parse trim_line_end [OF one] trim_one_line [OF one]
    by (simp add: send_def connected_def encode_request_def decode_response_def map_err_def)
qed

abbreviation cli_request :: "Invocation \<Rightarrow> Request" where
  "cli_request iv \<equiv> \<lparr>rq_v = PROTOCOL_VERSION, rq_id = ''c1'', rq_command = iv_command iv\<rparr>"

text \<open>The daemon's side of one command of the client: one line in, one line out.\<close>

lemma daemon_serves_line:
  assumes "codec_lines (cn_codec C)" and "cn_write C 0 = None" and "cn_failure C = None" and "sendable (cn_codec C) req"
    and "service_handle (cn_service_env C 0) f (cn_others C 0 service) req = Some (response, service', f')"
    and "rs_to_string (cn_codec C) response = Ok text"
  shows "handle_connection C (Some uid) uid (\<lambda>_. None) (request_bytes (cn_codec C) req) service f
     = Some (Ok (), service', f', as_bytes (text @ [newline]))"
proof -
  have "serve_requests C 0 [req] service f = Some (service', f', as_bytes (text @ [newline]))"
    using assms(2,5,6) by (simp add: write_response_def encode_response_def)
  from conn_loop_requests [OF assms(1) _ assms(3) this] assms(4) show ?thesis
    by (simp add: handle_connection_def peer_is_same_uid_def)
qed

text \<open>The client's side: it prints the response it reads, and its status tells a result from an error.\<close>

lemma cli_run_reply:
  assumes "cli_parse_args args = Ok (Some iv)" and "iv_socket iv = Some path" and "codec_lines (cl_codec v)"
    and "sendable (cl_codec v) (cli_request iv)" and "rs_to_string (cl_codec v) response = Ok text"
    and "cl_socket v = connected (as_bytes (text @ [newline]))"
  shows "cli_run v args = print_response (cl_to_text v) (cl_pretty v) (cl_pretty_error v) response (iv_json iv)"
    and "cli_main v args = (case response of RespOk _ \<Rightarrow> EXIT_OK | RespErr _ \<Rightarrow> EXIT_FAILURE)"
proof -
  have id: "fst (next_id 1) = ''c1''" by code_simp
  obtain line where "rq_to_string (cl_codec v) (cli_request iv) = Ok line" using assms(4) by (auto simp: sendable_def split: sum.splits)
  from send_reads_reply [OF assms(3) this assms(5)] have "send (cl_codec v) (cl_socket v) path (cli_request iv) = Ok response"
    using assms(6) by simp
  then show run: "cli_run v args = print_response (cl_to_text v) (cl_pretty v) (cl_pretty_error v) response (iv_json iv)"
    using assms(1,2) id by (simp add: cli_run_def Let_def)
  then show "cli_main v args = (case response of RespOk _ \<Rightarrow> EXIT_OK | RespErr _ \<Rightarrow> EXIT_FAILURE)"
    by (simp add: cli_main_def print_response_def split: Response.split)
qed

text \<open>
  C36 A command given to the client is carried out by the daemon: with a working socket between them, the client's one line
  makes the daemon handle exactly the command of the arguments, under the id \<^verbatim>\<open>c1\<close>, once; the client prints the
  daemon's response to it and exits with success for a result and with the failure code for an error.
\<close>

theorem cli_drives_daemon:
  assumes "cli_parse_args args = Ok (Some iv)" and "iv_socket iv = Some path"
    and "cl_codec v = cn_codec C" and "codec_lines (cn_codec C)" and "cn_write C 0 = None" and "cn_failure C = None"
    and "sendable (cn_codec C) (cli_request iv)"
    and "service_handle (cn_service_env C 0) f (cn_others C 0 service) (cli_request iv) = Some (response, service', f')"
    and "rs_to_string (cn_codec C) response = Ok text"
  shows "\<exists>out. handle_connection C (Some uid) uid (\<lambda>_. None) (request_bytes (cn_codec C) (cli_request iv)) service f
            = Some (Ok (), service', f', out)
          \<and> cli_run (v\<lparr>cl_socket := connected out\<rparr>) args
            = print_response (cl_to_text v) (cl_pretty v) (cl_pretty_error v) response (iv_json iv)
          \<and> cli_main (v\<lparr>cl_socket := connected out\<rparr>) args = (case response of RespOk _ \<Rightarrow> EXIT_OK | RespErr _ \<Rightarrow> EXIT_FAILURE)"
proof -
  let ?v = "v\<lparr>cl_socket := connected (as_bytes (text @ [newline]))\<rparr>"
  have "codec_lines (cl_codec ?v)" "sendable (cl_codec ?v) (cli_request iv)" "rs_to_string (cl_codec ?v) response = Ok text"
    using assms(3,4,7,9) by simp_all
  from cli_run_reply [OF assms(1,2) this] daemon_serves_line [OF assms(4-9)] show ?thesis by auto
qed

text \<open>A codec that knows one request and its answer, and a client on it that asks an idle daemon to stop.\<close>

definition stop_request :: Request where
  "stop_request = \<lparr>rq_v = 1, rq_id = ''c1'', rq_command = CmdStop\<rparr>"

definition stop_response :: Response where
  "stop_response = err_response ''c1'' Busy ''not streaming; nothing to stop''"

definition stop_json :: json_codec where
  "stop_json =
     \<lparr>rq_to_string = (\<lambda>r. if r = stop_request then Ok ''{}'' else Err ''other''),
      rq_from_str = (\<lambda>s. if s = ''{}'' then Ok stop_request else Err ''expected value''),
      rs_to_string = (\<lambda>r. if r = stop_response then Ok ''{0}'' else Err ''other''),
      rs_from_str = (\<lambda>s. if s = ''{0}'' then Ok stop_response else Err ''expected value'')\<rparr>"

definition stop_client :: CliView where
  "stop_client = \<lparr>cl_codec = stop_json, cl_to_text = (\<lambda>_. ''null''), cl_pretty = (\<lambda>_. ''null''), cl_pretty_error = (\<lambda>_. ''{}''),
     cl_runtime_dir = None, cl_socket = connected []\<rparr>"

lemma stop_json_lines: "codec_lines stop_json"
proof -
  have "one_line ''{}''" "one_line ''{0}''" by code_simp+
  then show ?thesis by (auto simp: codec_lines_def stop_json_def split: if_splits)
qed

theorem cli_drives_daemon_witness:
  "\<exists>out. handle_connection (sample_conn\<lparr>cn_codec := stop_json\<rparr>) (Some 7) 7 (\<lambda>_. None) (request_bytes stop_json stop_request)
           (Service_new sample_db ''k'') (\<lambda>_. None)
         = Some (Ok (), Service_new sample_db ''k'', (\<lambda>_. None), out)
       \<and> cli_main (stop_client\<lparr>cl_socket := connected out\<rparr>) [''emersia'', ''--socket'', ''/s'', ''stop''] = EXIT_FAILURE"
proof -
  let ?C = "sample_conn\<lparr>cn_codec := stop_json\<rparr>" and ?iv = "\<lparr>iv_socket = Some ''/s'', iv_json = False, iv_command = CmdStop\<rparr>"
  have req: "\<lparr>rq_v = PROTOCOL_VERSION, rq_id = ''c1'', rq_command = iv_command ?iv\<rparr> = stop_request"
    by (simp add: stop_request_def PROTOCOL_VERSION_def)
  have args: "cli_parse_args [''emersia'', ''--socket'', ''/s'', ''stop''] = Ok (Some ?iv)"
    by (simp add: cli_parse_args_def CliFlags_none_def build_command_def simple_command_def)
  have idle: "upd_inner (\<lambda>i. i\<lparr>in_streaming := False\<rparr>) (Service_new sample_db ''k'') = Service_new sample_db ''k''"
      "in_streaming (sv_inner (Service_new sample_db ''k'')) = False"
    by (simp_all add: Service_new_def Inner_default_def)
  have handle: "service_handle sample_venv (\<lambda>_. None) (Service_new sample_db ''k'') stop_request
      = Some (stop_response, Service_new sample_db ''k'', \<lambda>_. None)"
    using idle by (simp add: service_handle_def stop_request_def handle_stop_def stop_response_def Let_def)
  have sendable: "sendable stop_json stop_request"
    by (simp add: sendable_def stop_json_def MAX_LINE_BYTES_def, simp add: stop_request_def PROTOCOL_VERSION_def)
  note run = cli_drives_daemon [of _ ?iv "''/s''" stop_client ?C "\<lambda>_. None" "Service_new sample_db ''k''" stop_response
      "Service_new sample_db ''k''" "\<lambda>_. None" "''{0}''" 7, OF args, unfolded req]
  have "rs_to_string stop_json stop_response = Ok ''{0}''" by (simp add: stop_json_def)
  with run stop_json_lines sendable handle show ?thesis
    by (auto simp: stop_client_def sample_conn_def stop_response_def err_response_def)
qed

text \<open>The snapshot of \<^verbatim>\<open>events\<close> is printed under the heading of an idle daemon, whatever state it reports.\<close>

lemma events_printed_idle:
  "hd (print_human to_text (JObj [(''snapshot'', status), (''following'', JBool False)])) = ''daemon: idle''"
  by (simp add: print_human_def json_get_def json_bool_or_def)

end
