(* ===== verification/Daemon_Main.thy ===== *)
theory Daemon_Main
  imports Receiver_Model Cli_Model
begin

text \<open>
  The daemon's entry point (\<^verbatim>\<open>emersia-daemon/src/main.rs\<close>): its command line, the start-up of \<^verbatim>\<open>serve\<close> (trust store, host
  identity, engine, control socket) and its shutdown, the one-shot \<^verbatim>\<open>capture\<close>, \<^verbatim>\<open>receive\<close> and \<^verbatim>\<open>keygen\<close>, and the
  exit status.  What is printed for the user is not modelled, except the generated keys.

  Command-line paths stay strings; \<open>vw_resolve\<close> gives the absolute path the file system means by one.
\<close>

section \<open>Command line\<close>

definition DEFAULT_OUT :: string where "DEFAULT_OUT = ''/tmp/emersia-test-frame.png''"

definition DAEMON_EXIT_OK :: nat where "DAEMON_EXIT_OK = 0"
definition DAEMON_EXIT_FAILURE :: nat where "DAEMON_EXIT_FAILURE = 1"
definition DAEMON_EXIT_USAGE :: nat where "DAEMON_EXIT_USAGE = 2"

record CaptureOpts =
  co_out :: string
  co_output :: "string option"
  co_backend :: BackendPref

record ServeOpts =
  so_socket :: "string option"
  so_backend :: BackendPref
  so_stream_port :: "u16 option"
  so_encoder :: EncoderChoice
  so_bitrate :: u32

datatype Mode = ModeServe ServeOpts | ModeCapture CaptureOpts | ModeReceive | ModeKeygen

definition parse_backend :: "string \<Rightarrow> string + BackendPref" where
  "parse_backend value =
     (if value = ''auto'' then Ok PrefAuto
      else if value = ''ext'' then Ok PrefExt
      else if value = ''wlr'' then Ok PrefWlr
      else Err (''invalid value for --backend: '' @ str_debug value @ '' (expected auto, ext or wlr)''))"

definition strip_suffix_char :: "char \<Rightarrow> string \<Rightarrow> string option" where
  "strip_suffix_char c s = (if s \<noteq> [] \<and> last s = c then Some (butlast s) else None)"

text \<open>The products wrap, as the release build's do.\<close>

definition parse_bitrate :: "string \<Rightarrow> string + u32" where
  "parse_bitrate value =
     (let parsed = (case strip_suffix_char (CHR ''M'') value of
                      Some m \<Rightarrow> map_option (\<lambda>v. v * 1000000) (parse_u32 m)
                    | None \<Rightarrow>
                       (case strip_suffix_char (CHR ''k'') value of
                          Some k \<Rightarrow> map_option (\<lambda>v. v * 1000) (parse_u32 k)
                        | None \<Rightarrow> parse_u32 value))
      in case parsed of
           None \<Rightarrow> Err (''--bitrate must be a number, optionally suffixed k or M, got '' @ str_debug value)
         | Some bps \<Rightarrow> if bps = 0 then Err ''--bitrate must be greater than zero'' else Ok bps)"

definition parse_port :: "string \<Rightarrow> string + u16" where
  "parse_port value =
     (case from_str_radix 10 u16_max value of
        None \<Rightarrow> Err (''--stream-port must be a port number, got '' @ str_debug value)
      | Some n \<Rightarrow> if n = 0 then Err ''--stream-port must not be 0'' else Ok (of_nat n))"

definition parse_encoder :: "string \<Rightarrow> string + EncoderChoice" where
  "parse_encoder value =
     ok_or (EncoderChoice_parse value) (''--encoder must be auto, vaapi, nvenc, amf, qsv or sw, got '' @ str_debug value)"

record DaemonFlags =
  df_out :: string
  df_output :: "string option"
  df_socket :: "string option"
  df_backend :: BackendPref
  df_stream_port :: "u16 option"
  df_encoder :: EncoderChoice
  df_bitrate :: u32

definition DaemonFlags_default :: DaemonFlags where
  "DaemonFlags_default =
     \<lparr>df_out = DEFAULT_OUT, df_output = None, df_socket = None, df_backend = PrefAuto, df_stream_port = None,
      df_encoder = Auto, df_bitrate = ec_bitrate EncoderConfig_default\<rparr>"

fun daemon_scan :: "string \<Rightarrow> string list \<Rightarrow> DaemonFlags \<Rightarrow> string + DaemonFlags" where
  "daemon_scan mode [] fl = Ok fl"
| "daemon_scan mode (arg # rest) fl =
     (if arg \<notin> {''--out'', ''--output'', ''--backend'', ''--encoder'', ''--bitrate'', ''--stream-port'', ''--socket''}
      then Err (''unknown argument for '' @ quoted mode @ '': '' @ arg)
      else case rest of
        [] \<Rightarrow> Err (''missing value for '' @ arg)
      | value # rest \<Rightarrow>
         (if arg = ''--out'' then daemon_scan mode rest (fl\<lparr>df_out := value\<rparr>)
          else if arg = ''--output'' then daemon_scan mode rest (fl\<lparr>df_output := Some value\<rparr>)
          else if arg = ''--backend''
          then (case parse_backend value of Inl e \<Rightarrow> Err e | Inr b \<Rightarrow> daemon_scan mode rest (fl\<lparr>df_backend := b\<rparr>))
          else if arg = ''--encoder''
          then (case parse_encoder value of Inl e \<Rightarrow> Err e | Inr c \<Rightarrow> daemon_scan mode rest (fl\<lparr>df_encoder := c\<rparr>))
          else if arg = ''--bitrate''
          then (case parse_bitrate value of Inl e \<Rightarrow> Err e | Inr b \<Rightarrow> daemon_scan mode rest (fl\<lparr>df_bitrate := b\<rparr>))
          else if arg = ''--stream-port''
          then (case parse_port value of Inl e \<Rightarrow> Err e | Inr p \<Rightarrow> daemon_scan mode rest (fl\<lparr>df_stream_port := Some p\<rparr>))
          else daemon_scan mode rest (fl\<lparr>df_socket := Some value\<rparr>)))"

text \<open>\<open>Ok None\<close> is help or version, also when there is no argument.\<close>

definition daemon_parse_args :: "string list \<Rightarrow> string + Mode option" where
  "daemon_parse_args args =
     (case drop 1 args of
        [] \<Rightarrow> Ok None
      | arg1 # rest \<Rightarrow>
         (if arg1 \<in> {''--version'', ''-V'', ''--help'', ''-h''} then Ok None
          else if arg1 = ''receive'' then Ok (Some ModeReceive)
          else if arg1 = ''keygen'' then Ok (Some ModeKeygen)
          else if arg1 \<noteq> ''serve'' \<and> arg1 \<noteq> ''capture'' then Err (''unknown argument: '' @ arg1)
          else case daemon_scan arg1 rest DaemonFlags_default of
            Inl e \<Rightarrow> Err e
          | Inr fl \<Rightarrow> Ok (Some
             (if arg1 = ''serve''
              then ModeServe \<lparr>so_socket = df_socket fl, so_backend = df_backend fl, so_stream_port = df_stream_port fl,
                              so_encoder = df_encoder fl, so_bitrate = df_bitrate fl\<rparr>
              else ModeCapture \<lparr>co_out = df_out fl, co_output = df_output fl, co_backend = df_backend fl\<rparr>))))"

section \<open>Serving\<close>

text \<open>The result of a run; \<open>Running\<close> when the observed events do not end it.\<close>

datatype run_result = Returned "string + unit" | Panicked | Running

text \<open>
  What \<^verbatim>\<open>serve\<close> observes: the environment's directories, reading the trust store, randomness and file-system calls for the
  host key, the compositor, binding the UDP port and the control socket, the turns of the engine with the control
  commands between them, the files those commands leave, and whether removing the socket fails.
\<close>

record ServeView =
  vw_resolve :: "string \<Rightarrow> path"
  vw_runtime_dir :: "path option"
  vw_config_home :: "path option"
  vw_codec :: db_codec
  vw_load_error :: "string option"
  vw_random :: "bytes option"
  vw_key_io :: "nat \<Rightarrow> string option"
  vw_discover :: DiscoverView
  vw_udp_io :: "nat \<Rightarrow> string option"
  vw_bind_io :: "nat \<Rightarrow> string option"
  vw_listening :: bool
  vw_socket_mode :: nat
  vw_start :: nat
  vw_turns :: "(turn_view \<times> outside list \<times> bool) list"
  vw_files :: "fs \<Rightarrow> fs"
  vw_unlink_fails :: bool

definition serve_socket :: "ServeView \<Rightarrow> ServeOpts \<Rightarrow> string + path" where
  "serve_socket v opts =
     (case so_socket opts of
        Some p \<Rightarrow> Ok (vw_resolve v p)
      | None \<Rightarrow> map_err (\<lambda>e. ''failed to determine the control socket path: '' @ e) (default_socket_path (vw_runtime_dir v)))"

definition host_key_path :: "path \<Rightarrow> path" where
  "host_key_path pairing_path = butlast pairing_path @ [''host.key'']"

definition serve_engine :: "ServeView \<Rightarrow> ServeOpts \<Rightarrow> DeviceIdentity \<Rightarrow> string + Engine" where
  "serve_engine v opts identity =
     (case discover (vw_discover v) (so_backend opts) of
        Inl e \<Rightarrow> Err (''capture engine discovery failed: '' @ e)
      | Inr engine \<Rightarrow>
         map_sum id (\<lambda>engine. with_encoder engine (so_encoder opts) (Some (so_bitrate opts)))
           (with_stream_port (vw_udp_io v) engine (so_stream_port opts) identity))"

definition serve_setup ::
  "crypto_ext \<Rightarrow> ServeView \<Rightarrow> ServeOpts \<Rightarrow> fs \<Rightarrow> (string + Engine \<times> Service \<times> ControlServer) \<times> fs" where
  "serve_setup X v opts f =
     (case serve_socket v opts of Inl e \<Rightarrow> (Err e, f) | Inr socket_path \<Rightarrow>
      (case default_db_path (vw_config_home v) of
         Inl e \<Rightarrow> (Err (''failed to determine the pairing database path (is XDG_CONFIG_HOME set?): '' @ PairingError_display e), f)
       | Inr pairing_path \<Rightarrow>
      (case PairingDb_load (vw_codec v) (vw_load_error v) f pairing_path of
         Inl e \<Rightarrow> (Err (''pairing database at '' @ path_display pairing_path @ '': '' @ PairingError_display e), f)
       | Inr pairing_db \<Rightarrow>
      (case load_or_create X (vw_random v) (vw_key_io v) f (host_key_path pairing_path) of
         (Inl e, f) \<Rightarrow> (Err (''host identity at '' @ path_display (host_key_path pairing_path) @ '': '' @ CryptoError_display e), f)
       | (Inr identity, f) \<Rightarrow>
          (let host_public_key = public_key_hex X (inner identity)
           in case serve_engine v opts (into_identity identity) of
                Inl e \<Rightarrow> (Err e, f)
              | Inr engine \<Rightarrow>
                 (let svc = Service_new pairing_db host_public_key
                  in case ControlServer_bind (vw_bind_io v) (vw_listening v) (vw_socket_mode v) f socket_path of
                       (Inl e, f) \<Rightarrow> (Err e, f)
                     | (Inr server, f) \<Rightarrow> (Ok (engine, svc, server), f)))))))"

text \<open>The control server's thread ends with the shutdown and drops the server, which removes the socket; its own result
  is only printed.\<close>

definition run_serve :: "crypto_ext \<Rightarrow> f64_engine_ops \<Rightarrow> ServeView \<Rightarrow> ServeOpts \<Rightarrow> fs \<Rightarrow> run_result \<times> fs" where
  "run_serve X F v opts f =
     (case serve_setup X v opts f of
        (Inl e, f) \<Rightarrow> (Returned (Err e), f)
      | (Inr (engine, svc, server), f) \<Rightarrow>
         (case run_engine X F (vw_turns v) (engine_start engine svc (vw_start v)) of
            None \<Rightarrow> (Panicked, vw_files v f)
          | Some (L, False) \<Rightarrow> (Running, vw_files v f)
          | Some (L, True) \<Rightarrow> (Returned (Ok ()), ControlServer_drop (vw_unlink_fails v) (vw_files v f) server)))"

section \<open>The other modes\<close>

definition run_keygen :: "crypto_ext \<Rightarrow> bytes option \<Rightarrow> string + string list" where
  "run_keygen X rnd =
     (case DeviceIdentity_generate rnd of
        Inl e \<Rightarrow> Err (''no entropy available: '' @ CryptoError_display e)
      | Inr identity \<Rightarrow> Ok [''private_key: '' @ private_key_hex X identity, ''public_key:  '' @ public_key_hex X identity])"

text \<open>The PNG writer: the bytes that reach the file for the header and the pixels, and an error.\<close>

record png_ext =
  pe_header :: "u32 \<Rightarrow> u32 \<Rightarrow> bytes \<times> string option"
  pe_image :: "u32 \<Rightarrow> u32 \<Rightarrow> bytes \<Rightarrow> bytes \<times> string option"

definition is_dir :: "fnode option \<Rightarrow> bool" where
  "is_dir n = (case n of Some (DirNode _) \<Rightarrow> True | _ \<Rightarrow> False)"

text \<open>\<^verbatim>\<open>Frame::save\<close>: the calls are creating the directory (0) and the file (1); a new file gets \<open>cmode\<close>.\<close>

definition Frame_save ::
  "png_ext \<Rightarrow> (nat \<Rightarrow> string option) \<Rightarrow> nat \<Rightarrow> fs \<Rightarrow> Frame \<Rightarrow> path \<Rightarrow> (string + unit) \<times> fs" where
  "Frame_save P io cmode f self p =
     (case (if p = [] then Some f else if io 0 \<noteq> None then None else create_dir_all f (butlast p)) of
        None \<Rightarrow> (Err (''failed to create '' @ path_display (butlast p)), f)
      | Some f \<Rightarrow>
         if io 1 \<noteq> None \<or> is_dir (f p) then (Err (''failed to create '' @ path_display p), f)
         else
           let mode = (case f p of Some (FileNode m _) \<Rightarrow> m | _ \<Rightarrow> cmode);
               written = (\<lambda>content. f(p \<mapsto> FileNode mode content))
           in case pe_header P (fr_width self) (fr_height self) of
                (head, Some e) \<Rightarrow> (Err (''failed to write the PNG header for '' @ path_display p @ '': '' @ e), written head)
              | (head, None) \<Rightarrow>
                 (case pe_image P (fr_width self) (fr_height self) (fr_rgba self) of
                    (px_bytes, Some e) \<Rightarrow>
                      (Err (''failed to write the PNG pixels to '' @ path_display p @ '': '' @ e), written (head @ px_bytes))
                  | (px_bytes, None) \<Rightarrow> (Ok (), written (head @ px_bytes))))"

record ProbeView =
  pv_resolve :: "string \<Rightarrow> path"
  pv_discover :: DiscoverView
  pv_capture :: cap_env
  pv_png :: png_ext
  pv_save_io :: "nat \<Rightarrow> string option"
  pv_file_mode :: nat

definition run_capture :: "ProbeView \<Rightarrow> CaptureOpts \<Rightarrow> fs \<Rightarrow> run_result \<times> fs" where
  "run_capture v opts f =
     (let d = pv_discover v
      in case dv_connect_error d of
        Some e \<Rightarrow> (Returned (Err (''failed to connect to a Wayland compositor (is WAYLAND_DISPLAY set?): '' @ e)), f)
      | None \<Rightarrow>
     (case dv_globals_error d of
        Some e \<Rightarrow> (Returned (Err (''failed while enumerating Wayland globals: '' @ e)), f)
      | None \<Rightarrow>
     (case dv_outputs_error d of
        Some e \<Rightarrow> (Returned (Err (''failed while reading output descriptions: '' @ e)), f)
      | None \<Rightarrow>
         (let state = foldl dispatch (foldl dispatch State_new (dv_globals d)) (dv_outputs d);
              labels = output_labels state;
              has_ext = st_ext_source_mgr state \<noteq> None \<and> st_ext_copy_mgr state \<noteq> None;
              has_wlr = st_wlr_mgr state \<noteq> None
          in case select_output labels (co_output opts) of
               Inl e \<Rightarrow> (Returned (Err e), f)
             | Inr index \<Rightarrow>
                (case choose_backend (co_backend opts) has_ext has_wlr of
                   Inl e \<Rightarrow> (Returned (Err e), f)
                 | Inr backend \<Rightarrow>
                    (let info = st_outputs state ! index
                     in case capture_once backend (pv_capture v) 0 state (oi_proxy info) (oi_transform info) of
                          None \<Rightarrow> (Running, f)
                        | Some (CapPanic, _) \<Rightarrow> (Panicked, f)
                        | Some (CapErr e, _) \<Rightarrow> (Returned (Err e), f)
                        | Some (CapOk captured, _) \<Rightarrow>
                           (case Frame_save (pv_png v) (pv_save_io v) (pv_file_mode v) f (cf_frame captured) (pv_resolve v (co_out opts)) of
                              (Inl e, f) \<Rightarrow> (Returned (Err (''capture succeeded but the frame could not be written to ''
                                              @ co_out opts @ '': '' @ e)), f)
                            | (Inr _, f) \<Rightarrow> (Returned (Ok ()), f))))))))"

section \<open>The process\<close>

record DaemonView =
  dm_crypto :: crypto_ext
  dm_float :: f64_engine_ops
  dm_serve :: ServeView
  dm_probe :: ProbeView
  dm_random :: "bytes option"
  dm_float_args :: float_args
  dm_receive :: RunView

text \<open>\<^verbatim>\<open>run_receive\<close> exits by itself on a usage error, hence the status beside the result.\<close>

definition run_receive :: "DaemonView \<Rightarrow> string list \<Rightarrow> nat + run_result" where
  "run_receive v args =
     (case receive_run (dm_crypto v) (dm_float_args v) (dm_receive v) (drop 2 args) of
        None \<Rightarrow> Inr Panicked
      | Some (Inr _) \<Rightarrow> Inr (Returned (Ok ()))
      | Some (Inl e) \<Rightarrow> if Fail_is_usage e then Inl DAEMON_EXIT_USAGE else Inr (Returned (Err (Fail_message e))))"

text \<open>A panic ends the process with the status 101 of the Rust runtime.\<close>

fun result_status :: "run_result \<Rightarrow> nat option" where
  "result_status (Returned (Inr _)) = Some DAEMON_EXIT_OK"
| "result_status (Returned (Inl _)) = Some DAEMON_EXIT_FAILURE"
| "result_status Panicked = Some 101"
| "result_status Running = None"

definition daemon_main :: "DaemonView \<Rightarrow> string list \<Rightarrow> fs \<Rightarrow> nat option \<times> fs" where
  "daemon_main v args f =
     (case daemon_parse_args args of
        Inl e \<Rightarrow> (Some DAEMON_EXIT_USAGE, f)
      | Inr None \<Rightarrow> (Some DAEMON_EXIT_OK, f)
      | Inr (Some (ModeServe opts)) \<Rightarrow>
          (case run_serve (dm_crypto v) (dm_float v) (dm_serve v) opts f of (r, f) \<Rightarrow> (result_status r, f))
      | Inr (Some (ModeCapture opts)) \<Rightarrow> (case run_capture (dm_probe v) opts f of (r, f) \<Rightarrow> (result_status r, f))
      | Inr (Some ModeReceive) \<Rightarrow>
          ((case run_receive v args of Inl status \<Rightarrow> Some status | Inr r \<Rightarrow> result_status r), f)
      | Inr (Some ModeKeygen) \<Rightarrow>
          (result_status (Returned (map_sum id (\<lambda>_. ()) (run_keygen (dm_crypto v) (dm_random v)))), f))"

section \<open>Start-up\<close>

lemma plain_lower_hex: "is_lower_hex c \<Longrightarrow> plain_char c"
  by (auto simp: is_lower_hex_def is_ascii_digit_def plain_char_def)

lemma trim_hex:
  assumes "list_all is_lower_hex s"
  shows "trim s = s"
proof (cases "s = []")
  case False
  then have "is_lower_hex (hd s)" "is_lower_hex (last s)" using assms by (auto simp: list_all_iff)
  then show ?thesis using False by (intro trim_plain plain_lower_hex)
qed simp

lemma lower_hex_utf8:
  assumes "list_all is_lower_hex s"
  shows "from_utf8 (as_bytes s) = Some s"
proof -
  have "byte_of c < 0x80" if "is_lower_hex c" for c
  proof -
    have "(of_char c :: nat) \<le> 102" using that by (auto simp: is_lower_hex_def is_ascii_digit_def)
    then have "unat (byte_of c) \<le> 102" by (simp add: byte_of_def unat_of_nat)
    then show ?thesis by (simp add: word_less_nat_alt)
  qed
  then have "valid_utf8 (as_bytes s)" using assms by (intro valid_utf8_ascii) (auto simp: as_bytes_def list_all_iff)
  then show ?thesis by (simp add: from_utf8_def)
qed

text \<open>A private key written by the daemon is read back as the same identity.\<close>

lemma load_existing_written:
  assumes "hex_ok X" and "length (secret i) = 32" and "\<And>k. io k = None"
  shows "load_existing X io p (FileNode 384 (as_bytes (hex_encode X (secret i)))) = Ok i"
proof -
  have hex: "list_all is_lower_hex (hex_encode X (secret i))" "hex_decode X (hex_encode X (secret i)) = Some (secret i)"
    using assms(1) by (auto simp: hex_ok_def)
  have "(384 AND 511) AND 63 = (0 :: nat)" by simp
  then show ?thesis using assms(2,3) lower_hex_utf8 [OF hex(1)] trim_hex [OF hex(1)] hex(2)
    by (simp add: load_existing_def Let_def DeviceIdentity_from_private_bytes_def)
qed

lemma restrict_leaf:
  "restrict e f (butlast p) m = Ok g \<Longrightarrow> p \<noteq> [] \<Longrightarrow> g p = f p"
proof -
  assume "restrict e f (butlast p) m = Ok g" and "p \<noteq> []"
  moreover have "butlast p \<noteq> p" using calculation(2) by (metis append_butlast_last_id append_self_conv not_Cons_self2)
  ultimately show "g p = f p"
    by (auto simp: restrict_def set_permissions_def map_err_def split: option.splits fnode.splits sum.splits)
qed

lemma create_fresh_file:
  assumes "create_fresh X rnd io f p = (Ok i, g)" and "f p = None"
  shows "length (secret i) = 32 \<and> g p = Some (FileNode 384 (as_bytes (hex_encode X (secret i))))"
proof -
  have written: "g' q = Some (FileNode 384 c)" if "write_private io' h q c = (Ok (), g')" "h q = None" for io' h q c g'
    using that by (auto simp: write_private_def Let_def split: option.splits)
  have len: "length (secret j) = 32" if "DeviceIdentity_generate rnd = Ok j" for j
    using that by (auto simp: DeviceIdentity_generate_def DeviceIdentity_from_private_bytes_def
        dest: random_bytes_length split: sum.splits)
  have parent: "b p = None" if "create_dir_all f (butlast p) = Some a" "restrict e a (butlast p) m = Ok b" "p \<noteq> []" for e a b m
    using create_dir_all_keeps restrict_leaf that assms(2) by metis
  show ?thesis using assms len
    by (auto simp: create_fresh_def Let_def split: sum.splits if_splits option.splits prod.splits intro: written parent)
qed

lemma load_existing_io: "io' 1 = io 1 \<Longrightarrow> io' 2 = io 2 \<Longrightarrow> load_existing X io' p node = load_existing X io p node"
  unfolding load_existing_def by metis

lemma load_or_create_again:
  assumes "hex_ok X" and "load_or_create X rnd io f p = (Ok h, g)" and "g' p = g p" and "\<And>k. io' k = None"
  shows "load_or_create X rnd' io' g' p = (Ok h, g')"
proof (cases "f p")
  case None
  then obtain i where fresh: "create_fresh X rnd io f p = (Ok i, g)" "h = \<lparr>inner = i\<rparr>"
    using assms(2) by (auto simp: load_or_create_def split: option.splits prod.splits sum.splits)
  from create_fresh_file [OF fresh(1)] None have "length (secret i) = 32" "g' p = Some (FileNode 384 (as_bytes (hex_encode X (secret i))))"
    using assms(3) by auto
  then show ?thesis using load_existing_written [OF assms(1)] assms(4) fresh(2) by (simp add: load_or_create_def)
next
  case (Some node)
  then obtain i where old: "load_existing X io p node = Ok i" "h = \<lparr>inner = i\<rparr>" "g = f"
    using assms(2) by (auto simp: load_or_create_def split: option.splits sum.splits)
  then have "io 1 = None" "io 2 = None"
    by (auto simp: load_existing_def Let_def split: option.splits if_splits prod.splits)
  then have "load_existing X io' p node = load_existing X io p node" using assms(4) by (intro load_existing_io) simp_all
  then show ?thesis using Some old assms(3,4) by (simp add: load_or_create_def)
qed

text \<open>
  C38 Start-up of \<^verbatim>\<open>serve\<close>: when it succeeds, the service runs on the trust store that is on disk and is idle, the host key it
  publishes for pairing is the public key of the very identity with which the stream endpoint answers handshakes, the
  endpoint exists exactly when a port was asked for and has no session yet, the engine has the encoder settings
  of the command line, and the control socket is accessible to the user alone.
\<close>

theorem serve_setup_sound:
  assumes "serve_setup X v opts f = (Ok (engine, svc, server), g)" and "cs_path server \<noteq> []"
  shows "\<exists>base. vw_config_home v = Some base
       \<and> PairingDb_load (vw_codec v) (vw_load_error v) f (base @ [CONFIG_SUBDIR, PAIRING_FILE]) = Ok (sv_pairing svc)
       \<and> \<not> in_streaming (sv_inner svc) \<and> \<not> is_shutting_down svc
       \<and> (case eg_transport engine of
             None \<Rightarrow> so_stream_port opts = None
           | Some host \<Rightarrow> so_stream_port opts \<noteq> None \<and> sv_host_public_key svc = public_key_hex X (host_identity host)
                          \<and> peers host = [] \<and> pending host = [])
       \<and> eg_encoder_choice engine = so_encoder opts \<and> eg_bitrate engine = so_bitrate opts
       \<and> serve_socket v opts = Ok (cs_path server)
       \<and> g (cs_path server) = Some (FileNode 384 []) \<and> g (butlast (cs_path server)) = Some (DirNode 448)"
proof -
  obtain sp pp db i f1 where steps: "serve_socket v opts = Ok sp" "default_db_path (vw_config_home v) = Ok pp"
      "PairingDb_load (vw_codec v) (vw_load_error v) f pp = Ok db"
      "load_or_create X (vw_random v) (vw_key_io v) f (host_key_path pp) = (Ok i, f1)"
      "serve_engine v opts (into_identity i) = Ok engine"
      "ControlServer_bind (vw_bind_io v) (vw_listening v) (vw_socket_mode v) f1 sp = (Ok server, g)"
      "svc = Service_new db (public_key_hex X (inner i))"
    using assms(1) by (auto simp: serve_setup_def Let_def split: sum.splits prod.splits)
  obtain base where base: "vw_config_home v = Some base" "pp = base @ [CONFIG_SUBDIR, PAIRING_FILE]"
    using steps(2) by (auto simp: default_db_path_def split: option.splits)
  have path: "cs_path server = sp"
    using steps(6) by (auto simp: ControlServer_bind_def Let_def split: if_splits option.splits sum.splits)
  have socket: "g sp = Some (FileNode 384 []) \<and> g (butlast sp) = Some (DirNode 448)"
    using bind_private [OF steps(6)] assms(2) path by (simp add: is_ok_def)
  have engine: "case eg_transport engine of
             None \<Rightarrow> so_stream_port opts = None
           | Some host \<Rightarrow> so_stream_port opts \<noteq> None \<and> host_identity host = inner i \<and> peers host = [] \<and> pending host = []"
      "eg_encoder_choice engine = so_encoder opts" "eg_bitrate engine = so_bitrate opts"
    using steps(5) by (auto simp: serve_engine_def with_stream_port_def with_encoder_def HostEndpoint_bind_def into_identity_def Let_def
        split: sum.splits option.splits)
  then show ?thesis using steps(1,3,7) base path socket
    by (auto simp: Service_new_def Inner_default_def is_shutting_down_def split: option.splits)
qed

lemma load_or_create_file:
  "load_or_create X rnd io f p = (Ok h, g) \<Longrightarrow> is_file (g p)"
  by (cases "f p")
    (auto simp: load_or_create_def load_existing_def Let_def is_file_def dest!: create_fresh_file
      split: option.splits sum.splits prod.splits if_splits fnode.splits)

lemma create_dir_all_old: "create_dir_all f dir = Some g \<Longrightarrow> f q \<noteq> None \<Longrightarrow> g q = f q"
  by (auto simp: create_dir_all_def split: if_splits)

lemma create_dir_all_not_file: "create_dir_all f dir = Some g \<Longrightarrow> \<not> is_file (f dir)"
  by (auto simp: create_dir_all_def list_ex_iff split: if_splits dest: bspec [of _ _ "length dir"])

text \<open>Binding the control socket leaves every other file alone.\<close>

lemma bind_keeps_files:
  assumes "ControlServer_bind io listening cmode f p = (Ok server, g)" and "q \<noteq> p" and "is_file (f q)"
  shows "g q = f q"
proof -
  have ne: "f q \<noteq> None" using assms(3) by (cases "f q") (auto simp: is_file_def)
  have dir: "butlast p \<noteq> q" if "create_dir_all f (butlast p) = Some a" for a
    using create_dir_all_not_file [OF that] assms(3) by auto
  have keeps: "a q = f q" if "create_dir_all f (butlast p) = Some a" for a
    using create_dir_all_old [OF that ne] .
  show ?thesis using assms(1,2) dir keeps
    by (auto simp: ControlServer_bind_def set_permissions_def Let_def split: if_splits option.splits sum.splits fnode.splits)
qed

lemma serve_setup_key:
  assumes "serve_setup X v opts f = (Ok (engine, svc, server), g)" and "vw_config_home v = Some base"
  shows "\<exists>i f1. load_or_create X (vw_random v) (vw_key_io v) f (base @ [CONFIG_SUBDIR, ''host.key'']) = (Ok i, f1)
       \<and> sv_host_public_key svc = public_key_hex X (inner i)
       \<and> (cs_path server \<noteq> base @ [CONFIG_SUBDIR, ''host.key''] \<longrightarrow>
            g (base @ [CONFIG_SUBDIR, ''host.key'']) = f1 (base @ [CONFIG_SUBDIR, ''host.key'']))"
proof -
  let ?kp = "base @ [CONFIG_SUBDIR, ''host.key'']"
  obtain sp db i f1 where steps: "load_or_create X (vw_random v) (vw_key_io v) f ?kp = (Ok i, f1)"
      "ControlServer_bind (vw_bind_io v) (vw_listening v) (vw_socket_mode v) f1 sp = (Ok server, g)"
      "svc = Service_new db (public_key_hex X (inner i))"
    using assms by (auto simp: serve_setup_def default_db_path_def host_key_path_def butlast_append Let_def split: sum.splits prod.splits)
  have "cs_path server = sp"
    using steps(2) by (auto simp: ControlServer_bind_def Let_def split: if_splits option.splits sum.splits)
  then show ?thesis using steps bind_keeps_files [OF steps(2), of ?kp] load_or_create_file [OF steps(1)]
    by (auto simp: Service_new_def)
qed

text \<open>
  Devices pin the host key, so it must survive a restart: once a start-up has succeeded, every later start-up that can read
  the key file, left as it was, publishes the same key, whatever the random source then gives.
\<close>

theorem host_key_survives_restart:
  assumes "hex_ok X" and "vw_config_home v1 = Some base" and "vw_config_home v2 = Some base"
    and "serve_setup X v1 opts1 f = (Ok (engine1, svc1, server1), g)"
    and "cs_path server1 \<noteq> base @ [CONFIG_SUBDIR, ''host.key'']"
    and "f2 (base @ [CONFIG_SUBDIR, ''host.key'']) = g (base @ [CONFIG_SUBDIR, ''host.key''])"
    and "\<And>k. vw_key_io v2 k = None"
    and "serve_setup X v2 opts2 f2 = (Ok (engine2, svc2, server2), g2)"
  shows "sv_host_public_key svc2 = sv_host_public_key svc1"
proof -
  obtain i f1 where one: "load_or_create X (vw_random v1) (vw_key_io v1) f (base @ [CONFIG_SUBDIR, ''host.key'']) = (Ok i, f1)"
      "sv_host_public_key svc1 = public_key_hex X (inner i)"
      "f2 (base @ [CONFIG_SUBDIR, ''host.key'']) = f1 (base @ [CONFIG_SUBDIR, ''host.key''])"
    using serve_setup_key [OF assms(4,2)] assms(5,6) by auto
  have "load_or_create X (vw_random v2) (vw_key_io v2) f2 (base @ [CONFIG_SUBDIR, ''host.key'']) = (Ok i, f2)"
    using load_or_create_again [OF assms(1) one(1), of f2] one(3) assms(7) by blast
  then show ?thesis using serve_setup_key [OF assms(8,3)] one(2) by auto
qed

section \<open>A daemon that starts\<close>

definition sample_serve_opts :: ServeOpts where
  "sample_serve_opts = \<lparr>so_socket = None, so_backend = PrefAuto, so_stream_port = Some 9000, so_encoder = Software, so_bitrate = 8000000\<rparr>"

definition sample_serve_view :: "u8 \<Rightarrow> ServeView" where
  "sample_serve_view b =
     \<lparr>vw_resolve = (\<lambda>s. [s]), vw_runtime_dir = Some [''run''], vw_config_home = Some [''cfg''], vw_codec = sample_codec,
      vw_load_error = None, vw_random = Some (replicate 32 b), vw_key_io = (\<lambda>_. None),
      vw_discover = \<lparr>dv_connect_error = None,
        dv_globals = [RegistryEvent (Global 1 ''wl_output'' 4), RegistryEvent (Global 2 ''zwlr_screencopy_manager_v1'' 3)],
        dv_globals_error = None, dv_outputs = [], dv_outputs_error = None\<rparr>,
      vw_udp_io = (\<lambda>_. None), vw_bind_io = (\<lambda>_. None), vw_listening = False, vw_socket_mode = 493, vw_start = 0,
      vw_turns = [], vw_files = id, vw_unlink_fails = False\<rparr>"

lemma sample_serve_engine: "\<exists>engine. serve_engine (sample_serve_view b) sample_serve_opts i = Ok engine"
  by (simp add: serve_engine_def sample_serve_view_def sample_serve_opts_def discover_def registry_dispatch_def State_new_def
      output_labels_def select_output_def with_stream_port_def HostEndpoint_bind_def Let_def)

lemma sample_control_bind:
  assumes "\<not> is_file (f [])" "\<not> is_file (f [''run''])" "\<not> is_file (f [''run'', ''emersia''])"
    "f [''run'', ''emersia'', ''control.sock''] = None"
  shows "\<exists>g. ControlServer_bind (\<lambda>_. None) False 493 f [''run'', ''emersia'', ''control.sock'']
     = (Ok \<lparr>cs_path = [''run'', ''emersia'', ''control.sock'']\<rparr>, g)"
  using assms
  by (auto simp: ControlServer_bind_def create_dir_all_def set_permissions_def is_file_def list_ex_iff Let_def less_Suc_eq
      split: option.splits fnode.splits)

lemma sample_setup:
  assumes "load_or_create sample_crypto (Some (replicate 32 b)) (\<lambda>_. None) f [''cfg'', ''emersia'', ''host.key''] = (Ok i, f1)"
    and "f [''cfg'', ''emersia'', ''pairing.json''] = None"
    and "\<not> is_file (f1 [])" "\<not> is_file (f1 [''run''])" "\<not> is_file (f1 [''run'', ''emersia''])"
    "f1 [''run'', ''emersia'', ''control.sock''] = None"
  shows "\<exists>engine svc g. serve_setup sample_crypto (sample_serve_view b) sample_serve_opts f
     = (Ok (engine, svc, \<lparr>cs_path = [''run'', ''emersia'', ''control.sock'']\<rparr>), g)"
proof -
  obtain engine where e: "serve_engine (sample_serve_view b) sample_serve_opts (into_identity i) = Ok engine"
    using sample_serve_engine by blast
  obtain g where g: "ControlServer_bind (\<lambda>_. None) False 493 f1 [''run'', ''emersia'', ''control.sock'']
     = (Ok \<lparr>cs_path = [''run'', ''emersia'', ''control.sock'']\<rparr>, g)" using sample_control_bind [OF assms(3-6)] by blast
  have socket: "serve_socket (sample_serve_view b) sample_serve_opts = Ok [''run'', ''emersia'', ''control.sock'']"
    by (simp add: serve_socket_def sample_serve_view_def sample_serve_opts_def default_socket_path_def SOCKET_FILE_def map_err_def)
  have view: "vw_config_home (sample_serve_view b) = Some [''cfg'']" "vw_load_error (sample_serve_view b) = None"
      "vw_random (sample_serve_view b) = Some (replicate 32 b)" "vw_key_io (sample_serve_view b) = (\<lambda>_. None)"
      "vw_bind_io (sample_serve_view b) = (\<lambda>_. None)" "\<not> vw_listening (sample_serve_view b)"
      "vw_socket_mode (sample_serve_view b) = 493"
    by (simp_all add: sample_serve_view_def)
  show ?thesis unfolding serve_setup_def socket
    using e g assms(1,2) view
    by (simp add: default_db_path_def CONFIG_SUBDIR_def PAIRING_FILE_def host_key_path_def PairingDb_load_def Let_def)
qed

lemma sample_first_key:
  "\<exists>i f1. load_or_create sample_crypto (Some (replicate 32 b)) (\<lambda>_. None) (\<lambda>_. None) [''cfg'', ''emersia'', ''host.key''] = (Ok i, f1)
     \<and> \<not> is_file (f1 []) \<and> f1 [''run''] = None \<and> f1 [''run'', ''emersia''] = None \<and> f1 [''run'', ''emersia'', ''control.sock''] = None"
  by (simp add: load_or_create_def create_fresh_def DeviceIdentity_generate_def create_dir_all_def restrict_def set_permissions_def
      write_private_def is_file_def list_ex_iff map_err_def Let_def)

theorem serve_setup_sound_witness:
  "\<exists>engine svc server g host. serve_setup sample_crypto (sample_serve_view 7) sample_serve_opts (\<lambda>_. None) = (Ok (engine, svc, server), g)
     \<and> eg_transport engine = Some host \<and> sv_host_public_key svc = public_key_hex sample_crypto (host_identity host)
     \<and> eg_bitrate engine = 8000000 \<and> g (cs_path server) = Some (FileNode 384 [])"
proof -
  obtain i f1 where "load_or_create sample_crypto (Some (replicate 32 7)) (\<lambda>_. None) (\<lambda>_. None) [''cfg'', ''emersia'', ''host.key''] = (Ok i, f1)"
      "\<not> is_file (f1 [])" "f1 [''run''] = None" "f1 [''run'', ''emersia''] = None" "f1 [''run'', ''emersia'', ''control.sock''] = None"
    using sample_first_key by blast
  from sample_setup [OF this(1)] this obtain engine svc g where
    s: "serve_setup sample_crypto (sample_serve_view 7) sample_serve_opts (\<lambda>_. None)
       = (Ok (engine, svc, \<lparr>cs_path = [''run'', ''emersia'', ''control.sock'']\<rparr>), g)" by (auto simp: is_file_def)
  from serve_setup_sound [OF s] s show ?thesis
    by (cases "eg_transport engine") (auto simp: sample_serve_opts_def)
qed

theorem host_key_survives_restart_witness:
  "\<exists>engine1 svc1 server1 g engine2 svc2 server2 g2.
       serve_setup sample_crypto (sample_serve_view 7) sample_serve_opts (\<lambda>_. None) = (Ok (engine1, svc1, server1), g)
     \<and> serve_setup sample_crypto (sample_serve_view 9) sample_serve_opts
         (\<lambda>p. if p = [''cfg'', ''emersia'', ''host.key''] then g p else None) = (Ok (engine2, svc2, server2), g2)
     \<and> sv_host_public_key svc2 = sv_host_public_key svc1"
proof -
  let ?kp = "[''cfg'', ''emersia'', ''host.key'']"
  obtain i f1 where f1: "load_or_create sample_crypto (Some (replicate 32 7)) (\<lambda>_. None) (\<lambda>_. None) ?kp = (Ok i, f1)"
      "\<not> is_file (f1 [])" "f1 [''run''] = None" "f1 [''run'', ''emersia''] = None" "f1 [''run'', ''emersia'', ''control.sock''] = None"
    using sample_first_key by blast
  from sample_setup [OF f1(1)] f1 obtain engine1 svc1 g where
    s1: "serve_setup sample_crypto (sample_serve_view 7) sample_serve_opts (\<lambda>_. None)
       = (Ok (engine1, svc1, \<lparr>cs_path = [''run'', ''emersia'', ''control.sock'']\<rparr>), g)" by (auto simp: is_file_def)
  let ?f2 = "\<lambda>p. if p = ?kp then g p else None"
  have view: "vw_config_home (sample_serve_view b) = Some [''cfg'']" "vw_key_io (sample_serve_view b) = (\<lambda>_. None)"
      "vw_random (sample_serve_view b) = Some (replicate 32 b)" for b
    by (simp_all add: sample_serve_view_def)
  have "g ?kp = f1 ?kp"
    using serve_setup_key [OF s1 view(1)] f1(1) by (auto simp: CONFIG_SUBDIR_def view)
  then have f2: "load_or_create sample_crypto (Some (replicate 32 9)) (\<lambda>_. None) ?f2 ?kp = (Ok i, ?f2)"
    by (intro load_or_create_again [OF sample_laws(8) f1(1)]) simp_all
  from sample_setup [OF f2] obtain engine2 svc2 g2 where
    s2: "serve_setup sample_crypto (sample_serve_view 9) sample_serve_opts ?f2
       = (Ok (engine2, svc2, \<lparr>cs_path = [''run'', ''emersia'', ''control.sock'']\<rparr>), g2)" by (auto simp: is_file_def)
  have "sv_host_public_key svc2 = sv_host_public_key svc1"
    by (rule host_key_survives_restart [OF sample_laws(8) view(1) view(1) s1 _ _ _ s2]) (simp_all add: CONFIG_SUBDIR_def view)
  with s1 s2 show ?thesis by blast
qed

section \<open>Options of serve\<close>

fun backend_word :: "BackendPref \<Rightarrow> string" where
  "backend_word PrefAuto = ''auto''"
| "backend_word PrefExt = ''ext''"
| "backend_word PrefWlr = ''wlr''"

fun encoder_word :: "EncoderChoice \<Rightarrow> string" where
  "encoder_word Auto = ''auto''"
| "encoder_word Vaapi = ''vaapi''"
| "encoder_word Nvenc = ''nvenc''"
| "encoder_word Amf = ''amf''"
| "encoder_word Qsv = ''qsv''"
| "encoder_word Software = ''sw''"

definition serve_words :: "ServeOpts \<Rightarrow> string list" where
  "serve_words opts =
     option_words ''--socket'' (so_socket opts)
     @ option_words ''--stream-port'' (map_option (\<lambda>p. show_nat (unat p)) (so_stream_port opts))
     @ [''--backend'', backend_word (so_backend opts), ''--encoder'', encoder_word (so_encoder opts),
        ''--bitrate'', show_nat (unat (so_bitrate opts))]"

lemma parse_backend_word [simp]: "parse_backend (backend_word b) = Ok b"
  by (cases b) (simp_all add: parse_backend_def)

lemma parse_encoder_word [simp]: "parse_encoder (encoder_word c) = Ok c"
  by (cases c) (simp_all add: parse_encoder_def EncoderChoice_parse_def ok_or_def)

lemma last_show_nat: "last (show_nat n) \<in> set (map digit_char_of [0..<10])"
  by (subst show_radix.simps) auto

lemma digit_char_code: "c \<in> set (map digit_char_of [0..<10]) \<Longrightarrow> (of_char c :: nat) < 58"
  by (auto simp: digit_char_of_def)

lemma parse_bitrate_show [simp]:
  assumes "b \<noteq> 0"
  shows "parse_bitrate (show_nat (unat b)) = Ok b"
proof -
  have "CHR ''M'' \<notin> set (map digit_char_of [0..<10])" "CHR ''k'' \<notin> set (map digit_char_of [0..<10])"
    by (rule notI, drule digit_char_code, simp)+
  then have "strip_suffix_char (CHR ''M'') (show_nat (unat b)) = None" "strip_suffix_char (CHR ''k'') (show_nat (unat b)) = None"
    using last_show_nat [of "unat b"] unfolding strip_suffix_char_def by metis+
  moreover have "parse_u32 (show_nat (unat b)) = Some b" using parse_fps_show [of b] by (simp add: parse_u32_def parse_fps_def)
  ultimately show ?thesis using assms by (simp add: parse_bitrate_def)
qed

lemma parse_port_show [simp]:
  assumes "p \<noteq> 0"
  shows "parse_port (show_nat (unat p)) = Ok p"
proof -
  have "from_str_radix 10 u16_max (show_nat (unat p)) = Some (unat p)"
    using unat_u16_le [of p] by (intro from_str_radix_show) simp_all
  then show ?thesis using assms by (simp add: parse_port_def unat_eq_zero)
qed

text \<open>Every option set of \<^verbatim>\<open>serve\<close> with a port and a rate other than zero can be given on the command line.\<close>

theorem serve_args_roundtrip:
  assumes "so_stream_port opts \<noteq> Some 0" and "so_bitrate opts \<noteq> 0"
  shows "daemon_parse_args (prog # ''serve'' # serve_words opts) = Ok (Some (ModeServe opts))"
  using assms
  by (cases opts; cases "so_socket opts"; cases "so_stream_port opts")
    (simp_all add: daemon_parse_args_def serve_words_def option_words_def DaemonFlags_default_def)

text \<open>The product of a rate in megabits wraps: a rate of 5000 Mbit/s is taken as about 705 Mbit/s.\<close>

lemma bitrate_wraps: "parse_bitrate ''5000M'' = Ok 705032704"
proof -
  have "show_nat 5000 = ''5000''" by (simp add: show_radix.simps digit_char_of_def, code_simp)
  with from_str_radix_show [of 10 5000 u32_max] have "from_str_radix 10 u32_max ''5000'' = Some 5000" by (simp add: u32_max_def)
  then show ?thesis by (simp add: parse_bitrate_def strip_suffix_char_def parse_u32_def)
qed

text \<open>A frame written by the probe is the header and pixels of the PNG writer, and nothing else in the file.\<close>

lemma Frame_save_content:
  assumes "Frame_save P io cmode f fr p = (Ok (), g)"
  shows "\<exists>mode. g p = Some (FileNode mode (fst (pe_header P (fr_width fr) (fr_height fr)) @ fst (pe_image P (fr_width fr) (fr_height fr) (fr_rgba fr))))"
  using assms by (auto simp: Frame_save_def Let_def split: option.splits if_splits prod.splits)

text \<open>A trust store that cannot be read ends \<^verbatim>\<open>serve\<close> before any file, port or socket is touched.\<close>

theorem corrupt_store_stops_serve:
  assumes "vw_config_home v = Some base"
    and "PairingDb_load (vw_codec v) (vw_load_error v) f (base @ [CONFIG_SUBDIR, PAIRING_FILE]) = Err e"
  shows "\<exists>message. run_serve X F v opts f = (Returned (Err message), f)"
  using assms by (auto simp: run_serve_def serve_setup_def default_db_path_def split: sum.splits)

end
