(* ===== verification/Session_Run.thy ===== *)
theory Session_Run
  imports Daemon_Main
begin

text \<open>
  The way of a device through the whole host: it is paired with a code, runs the handshake against the engine's turns and
  receives the stream.  The theory adds no model of its own; it composes \<open>Pairing\<close>, \<open>Service_Model\<close>, \<open>Handshake\<close>,
  \<open>Udp\<close>, \<open>Engine_Model\<close> and \<open>Receiver_Model\<close>.  Between client and host lies a network that delivers.
\<close>

section \<open>Shape of the handshake messages\<close>

lemma response_shape:
  assumes "aead_len X" and "public_len X" and "hkdf_ok X" and "accept_init X er nr srv pkt = Some (Ok out, srv')"
  shows "length (io_response out) \<le> 100 \<and> wf_session (io_session out)"
proof -
  have wf: "wf_session s" if "from_key_material X k slt ctx = Ok s" for k slt ctx s
    using from_key_material_wf [OF assms(3), of k slt ctx] that by auto
  obtain d pde slt k1 s1 where resp: "host_response X er nr d pde slt k1 s1 = Some (Ok out)" "length d \<le> DEVICE_ID_LEN"
    using assms(4) by (auto simp: accept_init_def Let_def split: if_splits option.splits sum.splits)
  then show ?thesis using length_crypto_seal_eq [OF assms(1)] public_key_bytes_length [OF assms(2)] wf
    by (fastforce simp: host_response_def Let_def NONCE_LEN_def DEVICE_ID_LEN_def split: option.splits sum.splits)
qed

lemma confirm_shape:
  assumes "aead_len X" and "HandshakeClient_confirm X rnd s = Some conf"
  shows "\<exists>tag. conf = HANDSHAKE_CONFIRM # tag \<and> length tag = NONCE_LEN + 16"
  using assms length_crypto_seal_eq [OF assms(1)] by (auto simp: HandshakeClient_confirm_def split: sum.splits)

section \<open>Turns that hear one datagram\<close>

definition hears :: "pump_io \<Rightarrow> pump_io \<Rightarrow> bytes \<Rightarrow> socket_addr \<Rightarrow> nat \<Rightarrow> pump_io" where
  "hears a b packet addr k = (if k = 0 then a\<lparr>pio_recv := Datagram packet addr\<rparr> else b\<lparr>pio_recv := RecvRetry\<rparr>)"

abbreviation sv_revoked :: "Service \<Rightarrow> bytes list" where
  "sv_revoked s \<equiv> in_revoked_pending (sv_inner s)"

lemma serve_one_datagram:
  assumes "handle_packet X (pio_eph a) (pio_nonce a) (pio_clk a) (prune_pending (pio_now a) (disconnect_all (sv_revoked s) h))
             packet addr (trust_authorizer X (sv_pairing s)) = Some (out, h1)"
    and "length packet \<le> MAX_DATAGRAM" and "pio_send a = None"
  shows "\<exists>s' n' enc'. serve_transport X (hears a b packet addr) s h n enc
     = Some (s', prune_pending (pio_now b) h1, n', enc', case out of Silent \<Rightarrow> [] | Reply bs \<Rightarrow> [(bs, addr)])
     \<and> sv_pairing s' = sv_pairing s \<and> sv_revoked s' = []"
  using assms
  by (cases out) (auto simp: serve_transport_def take_revoked_def HostEndpoint_pump_def hears_def set_stream_peers_def Let_def numeral_eq_Suc)

lemma disconnect_all_simps [simp]:
  "host_identity (disconnect_all ids h) = host_identity h" "next_sequence (disconnect_all ids h) = next_sequence h"
  by (induction ids arbitrary: h) (simp_all add: disconnect_all_def disconnect_def Let_def)

lemma disconnect_all_pending: "pending (disconnect_all ids h) = filter (\<lambda>(_, p). pn_device_id p \<notin> set ids) (pending h)"
  by (induction ids arbitrary: h) (auto simp: disconnect_all_def disconnect_def Let_def intro: filter_cong)

text \<open>Room for one more handshake, which disconnecting and pruning do not take away.\<close>

definition has_room :: "bytes \<Rightarrow> HostEndpoint \<Rightarrow> bool" where
  "has_room d h \<longleftrightarrow> length (pending h) < MAX_PENDING_HANDSHAKES \<and> count_device d (pending h) < MAX_PENDING_HANDSHAKES_PER_DEVICE"

lemma has_room_filter:
  "has_room d h \<Longrightarrow> pending h' = filter P (pending h) \<Longrightarrow> has_room d h'"
proof -
  assume room: "has_room d h" and h': "pending h' = filter P (pending h)"
  have "count_device d (filter P ps) \<le> count_device d ps" for ps
    by (simp add: count_device_def filter_filter length_filter_conv_card card_mono Collect_mono_iff)
  then show ?thesis using room h' by (metis has_room_def le_less_trans length_filter_le)
qed

lemma has_room_prune [simp]: "has_room d h \<Longrightarrow> has_room d (prune_pending now h)"
  by (erule has_room_filter) (rule pending_prune)

lemma has_room_disconnect [simp]: "has_room d h \<Longrightarrow> has_room d (disconnect_all ids h)"
  by (erule has_room_filter) (rule disconnect_all_pending)

section \<open>Both sides of a connection\<close>

text \<open>The host's answer to a genuine init of an authorized device: a reply, and the handshake is pending under its address.\<close>

lemma host_admits:
  assumes "accept_init X (pio_eph a) (pio_nonce a) (HandshakeServer_new (host_identity h)) packet = Some (Ok out, srv)"
    and "packet = HANDSHAKE_INIT # d @ pk @ rest" and "length d = DEVICE_ID_LEN" "length pk = 32" "32 \<le> length rest"
    and "trust_authorizer X (sv_pairing s) d pk" and "has_room d h"
    and "length packet \<le> MAX_DATAGRAM" "pio_send a = None"
    and "pio_clk a 2 \<le> pio_now b" "pio_now b < pio_clk a 2 + PENDING_HANDSHAKE_TTL" and "host_inv h"
  shows "\<exists>s' h1 n' enc'. serve_transport X (hears a b packet addr) s h n enc = Some (s', h1, n', enc', [(io_response out, addr)])
     \<and> sv_pairing s' = sv_pairing s \<and> sv_revoked s' = []
     \<and> map_of (pending h1) addr = Some \<lparr>pn_device_id = d, pn_device_static = pk, pn_session = io_session out, pn_created_at = pio_clk a 2\<rparr>
     \<and> host_inv h1 \<and> next_sequence h1 = next_sequence h"
proof -
  let ?h = "prune_pending (pio_clk a 0) (prune_pending (pio_now a) (disconnect_all (sv_revoked s) h))"
  let ?p = "prune_pending (pio_clk a 1) ?h"
  let ?pend = "\<lparr>pn_device_id = d, pn_device_static = pk, pn_session = io_session out, pn_created_at = pio_clk a 2\<rparr>"
  let ?h1 = "?p\<lparr>pending := al_insert addr ?pend (pending ?p)\<rparr>"
  have body: "take DEVICE_ID_LEN (d @ pk @ rest) = d" "slice (d @ pk @ rest) DEVICE_ID_LEN (DEVICE_ID_LEN + 32) = pk"
      "\<not> length (d @ pk @ rest) < DEVICE_ID_LEN + 64"
    using assms(3-5) by (simp_all add: slice_def)
  have id: "io_device_id out = d" using accept_init_device_id assms(1,2) body(1) by metis
  have room: "has_room d ?p" using assms(7) by simp
  have inv: "host_inv ?p" using assms(12) disconnect_all_inv by simp
  have "handle_packet X (pio_eph a) (pio_nonce a) (pio_clk a) (prune_pending (pio_now a) (disconnect_all (sv_revoked s) h)) packet addr
      (trust_authorizer X (sv_pairing s)) = Some (Reply (io_response out), ?h1)"
    using assms(1,6) room body id
    by (simp add: handle_packet_def handle_init_def assms(2) has_room_def Let_def)
  from serve_one_datagram [OF this assms(8,9), of b n enc] obtain s' n' enc' where
    turn: "serve_transport X (hears a b packet addr) s h n enc = Some (s', prune_pending (pio_now b) ?h1, n', enc', [(io_response out, addr)])"
      "sv_pairing s' = sv_pairing s" "sv_revoked s' = []" by auto
  have "host_inv ?h1" using inv room by (simp add: host_inv_def has_room_def length_al_insert)
  moreover from this have "map_of (pending (prune_pending (pio_now b) ?h1)) addr = Some ?pend"
    using assms(10,11) inv by (simp add: prune_lookup pending_live_def host_inv_def)
  ultimately show ?thesis using turn
    by (intro exI [of _ s'] exI [of _ "prune_pending (pio_now b) ?h1"] exI [of _ n'] exI [of _ enc']) simp
qed

text \<open>The host's answer to the confirm of a live pending handshake: a session, with no reply.\<close>

lemma host_confirms:
  assumes "map_of (pending h) addr = Some pend" and "host_inv h" and "pn_device_id pend \<notin> set (sv_revoked s)"
    and "trust_authorizer X (sv_pairing s) (pn_device_id pend) (pn_device_static pend)"
    and "verify_confirm X (pn_session pend) packet = Ok ()" and "packet = HANDSHAKE_CONFIRM # tag"
    and "length packet \<le> MAX_DATAGRAM" "pio_send a = None"
    and "\<And>now. now \<in> {pio_now a, pio_clk a 0, pio_clk a 1} \<Longrightarrow> pending_live now pend"
  shows "\<exists>s' h1 n' enc'. serve_transport X (hears a b packet addr) s h n enc = Some (s', h1, n', enc', [])
     \<and> sv_pairing s' = sv_pairing s \<and> sv_revoked s' = []
     \<and> map_of (peers h1) (pn_device_id pend) = Some \<lparr>peer_addr = addr, peer_session = pn_session pend, peer_window = ReplayWindow_default\<rparr>
     \<and> next_sequence h1 = next_sequence h"
proof -
  let ?h0 = "disconnect_all (sv_revoked s) h"
  let ?p = "prune_pending (pio_clk a 1) (prune_pending (pio_clk a 0) (prune_pending (pio_now a) ?h0))"
  let ?peer = "\<lparr>peer_addr = addr, peer_session = pn_session pend, peer_window = ReplayWindow_default\<rparr>"
  let ?h1 = "?p\<lparr>pending := al_remove addr (pending ?p), peers := al_insert (pn_device_id pend) ?peer (peers ?p)\<rparr>"
  have inv0: "host_inv ?h0" using assms(2) by (rule disconnect_all_inv)
  have "map_of (pending ?h0) addr = Some pend"
    using assms(1-3) by (simp add: disconnect_all_pending map_of_filter_wf host_inv_def)
  then have found: "map_of (pending ?p) addr = Some pend" using inv0 assms(9) by (simp add: prune_lookup)
  have types: "HANDSHAKE_CONFIRM \<noteq> HANDSHAKE_INIT" by (simp add: HANDSHAKE_CONFIRM_def HANDSHAKE_INIT_def)
  have "handle_packet X (pio_eph a) (pio_nonce a) (pio_clk a) (prune_pending (pio_now a) ?h0) packet addr
      (trust_authorizer X (sv_pairing s)) = Some (Silent, ?h1)"
    using found assms(4,5) types by (simp add: handle_packet_def handle_confirm_def assms(6) Let_def)
  from serve_one_datagram [OF this assms(7,8), of b n enc] obtain s' n' enc' where
    "serve_transport X (hears a b packet addr) s h n enc = Some (s', prune_pending (pio_now b) ?h1, n', enc', [])"
      "sv_pairing s' = sv_pairing s" "sv_revoked s' = []" by auto
  moreover have "map_of (peers ?h1) (pn_device_id pend) = Some ?peer" using inv0 by (simp add: host_inv_def)
  ultimately show ?thesis
    by (intro exI [of _ s'] exI [of _ "prune_pending (pio_now b) ?h1"] exI [of _ n'] exI [of _ enc']) simp
qed

text \<open>What a connection needs of the primitives for one pair of identities: no shared secret is all zero.\<close>

definition dh_usable :: "crypto_ext \<Rightarrow> DeviceIdentity \<Rightarrow> DeviceIdentity \<Rightarrow> DeviceIdentity \<Rightarrow> DeviceIdentity \<Rightarrow> bool" where
  "dh_usable X device eph host host_eph \<longleftrightarrow>
     agree X device (public_key_bytes X host) \<noteq> None \<and> agree X eph (public_key_bytes X host) \<noteq> None
     \<and> agree X eph (public_key_bytes X host_eph) \<noteq> None"

text \<open>The clock readings of a connection: the confirm is handled within the life of the pending handshake.\<close>

definition timely :: "pump_io \<Rightarrow> pump_io \<Rightarrow> pump_io \<Rightarrow> bool" where
  "timely a b a' \<longleftrightarrow>
     list_all (\<lambda>t. pio_clk a 2 \<le> t \<and> t < pio_clk a 2 + PENDING_HANDSHAKE_TTL) [pio_now b, pio_now a', pio_clk a' 0, pio_clk a' 1]"

text \<open>The three messages of an honest handshake, with their shape.\<close>

lemma handshake_messages:
  assumes laws: "crypto_laws X" "aead_len X"
    and hc: "hc_step hc = StepInit" "length (hc_device_id hc) = DEVICE_ID_LEN" "hc_host_static hc = public_key_bytes X host"
    and dh: "DeviceIdentity_generate er = Ok he" "dh_usable X (hc_static_identity hc) (hc_ephemeral hc) host he"
  obtains pkt rest out srv conf tag where
    "HandshakeClient_init X (Some r1) hc = Some (pkt, hc\<lparr>hc_step := StepResponse\<rparr>)"
    "accept_init X er (Some r2) (HandshakeServer_new host) pkt = Some (Ok out, srv)"
    "HandshakeClient_finish X (hc\<lparr>hc_step := StepResponse\<rparr>) (io_response out) = Some (Ok (io_session out), hc\<lparr>hc_step := StepDone\<rparr>)"
    "HandshakeClient_confirm X (Some r3) (io_session out) = Some conf" "verify_confirm X (io_session out) conf = Ok ()"
    "pkt = HANDSHAKE_INIT # hc_device_id hc @ public_key_bytes X (hc_static_identity hc) @ rest"
    "length (public_key_bytes X (hc_static_identity hc)) = 32" "32 \<le> length rest" "length pkt \<le> MAX_DATAGRAM"
    "conf = HANDSHAKE_CONFIRM # tag" "length conf \<le> MAX_DATAGRAM"
    "length (io_response out) \<le> MAX_DATAGRAM" "wf_session (io_session out)"
proof -
  note parts = laws(1) [unfolded crypto_laws_def]
  obtain x y z where agree: "agree X (hc_static_identity hc) (public_key_bytes X host) = Some x"
      "agree X (hc_ephemeral hc) (public_key_bytes X host) = Some y" "agree X (hc_ephemeral hc) (public_key_bytes X he) = Some z"
    using dh(2) by (auto simp: dh_usable_def)
  obtain pkt out srv conf where run: "HandshakeClient_init X (Some r1) hc = Some (pkt, hc\<lparr>hc_step := StepResponse\<rparr>)"
      "accept_init X er (Some r2) (HandshakeServer_new host) pkt = Some (Ok out, srv)"
      "HandshakeClient_finish X (hc\<lparr>hc_step := StepResponse\<rparr>) (io_response out) = Some (Ok (io_session out), hc\<lparr>hc_step := StepDone\<rparr>)"
      "HandshakeClient_confirm X (Some r3) (io_session out) = Some conf" "verify_confirm X (io_session out) conf = Ok ()"
    using handshake_honest_run [OF laws(1) hc agree(1,2) dh(1) agree(3), of r1 r2 r3] by auto
  obtain tag where pkt: "pkt = HANDSHAKE_INIT # hc_device_id hc @ public_key_bytes X (hc_static_identity hc) @ public_key_bytes X (hc_ephemeral hc) @ tag"
      "length tag = NONCE_LEN + length (hc_device_id hc) + 16"
    using init_shape [OF laws(2) run(1)] by (auto simp: init_body_def)
  obtain tag' where conf: "conf = HANDSHAKE_CONFIRM # tag'" "length tag' = NONCE_LEN + 16" using confirm_shape [OF laws(2) run(4)] by auto
  have resp: "length (io_response out) \<le> 100" "wf_session (io_session out)" using response_shape [OF laws(2) _ _ run(2)] parts by auto
  have plen: "length (public_key_bytes X i) = 32" for i using public_key_bytes_length parts by blast
  show ?thesis
    by (rule that [OF run pkt(1) plen _ _ conf(1) _ _ resp(2)])
      (use pkt conf resp(1) hc(2) plen in \<open>simp_all add: MAX_DATAGRAM_def NONCE_LEN_def DEVICE_ID_LEN_def\<close>)
qed

lemma connect:
  assumes laws: "crypto_laws X" "aead_len X"
    and c: "ce_handshake c = Some hc" "hc_step hc = StepInit" "length (hc_device_id hc) = DEVICE_ID_LEN"
      "hc_host_static hc = public_key_bytes X (host_identity h)"
    and dh: "DeviceIdentity_generate (pio_eph a) = Ok he"
      "dh_usable X (hc_static_identity hc) (hc_ephemeral hc) (host_identity h) he"
    and io: "pio_nonce a = Some nr" "pio_send a = None" "pio_send a' = None" "timely a b a'"
    and h: "host_inv h" "has_room (hc_device_id hc) h"
    and s1: "trust_authorizer X (sv_pairing s) (hc_device_id hc) (public_key_bytes X (hc_static_identity hc))"
    and s2: "trust_authorizer X (sv_pairing s') (hc_device_id hc) (public_key_bytes X (hc_static_identity hc))"
      "hc_device_id hc \<notin> set (sv_revoked s')"
  shows "\<exists>init c1 s1 h1 n1 enc1 resp c2 session conf s2 h2 n2 enc2.
      send_init X (Some r1) True c = Some (Ok (), c1, Some init)
    \<and> serve_transport X (hears a b init addr) s h n enc = Some (s1, h1, n1, enc1, [(resp, addr)])
    \<and> length resp \<le> MAX_DATAGRAM
    \<and> client_complete X (Some r3) True c1 resp = Some (Ok session, c2, Some conf)
    \<and> serve_transport X (hears a' b' conf addr) s' h1 n' enc' = Some (s2, h2, n2, enc2, [])
    \<and> map_of (peers h2) (hc_device_id hc) = Some \<lparr>peer_addr = addr, peer_session = session, peer_window = ReplayWindow_default\<rparr>
    \<and> ce_session c2 = Some session \<and> ce_window c2 = ce_window c \<and> wf_session session"
proof -
  from handshake_messages [OF laws c(2-4) dh, of r1 nr r3] obtain pkt rest out srv conf tag where
    run: "HandshakeClient_init X (Some r1) hc = Some (pkt, hc\<lparr>hc_step := StepResponse\<rparr>)"
      "accept_init X (pio_eph a) (Some nr) (HandshakeServer_new (host_identity h)) pkt = Some (Ok out, srv)"
      "HandshakeClient_finish X (hc\<lparr>hc_step := StepResponse\<rparr>) (io_response out) = Some (Ok (io_session out), hc\<lparr>hc_step := StepDone\<rparr>)"
      "HandshakeClient_confirm X (Some r3) (io_session out) = Some conf" "verify_confirm X (io_session out) conf = Ok ()"
    and pkt: "pkt = HANDSHAKE_INIT # hc_device_id hc @ public_key_bytes X (hc_static_identity hc) @ rest"
      "length (public_key_bytes X (hc_static_identity hc)) = 32" "32 \<le> length rest" "length pkt \<le> MAX_DATAGRAM"
    and conf: "conf = HANDSHAKE_CONFIRM # tag" "length conf \<le> MAX_DATAGRAM"
    and resp: "length (io_response out) \<le> MAX_DATAGRAM" "wf_session (io_session out)" .
  have time: "pio_clk a 2 \<le> pio_now b" "pio_now b < pio_clk a 2 + PENDING_HANDSHAKE_TTL" using io(4) by (auto simp: timely_def)
  let ?pend = "\<lparr>pn_device_id = hc_device_id hc, pn_device_static = public_key_bytes X (hc_static_identity hc),
      pn_session = io_session out, pn_created_at = pio_clk a 2\<rparr>"
  obtain s1 h1 n1 enc1 where one: "serve_transport X (hears a b pkt addr) s h n enc = Some (s1, h1, n1, enc1, [(io_response out, addr)])"
      "map_of (pending h1) addr = Some ?pend" "host_inv h1"
    using host_admits [OF _ pkt(1) c(3) pkt(2,3) s1 h(2) pkt(4) io(2) time h(1), of out srv addr n enc] run(2) io(1) by auto
  have live: "pending_live now ?pend" if "now \<in> {pio_now a', pio_clk a' 0, pio_clk a' 1}" for now
    using that io(4) by (auto simp: timely_def pending_live_def)
  obtain s2 h2 n2 enc2 where two: "serve_transport X (hears a' b' conf addr) s' h1 n' enc' = Some (s2, h2, n2, enc2, [])"
      "map_of (peers h2) (hc_device_id hc) = Some \<lparr>peer_addr = addr, peer_session = io_session out, peer_window = ReplayWindow_default\<rparr>"
    using host_confirms [OF one(2,3) _ _ _ conf io(3) live, of s' X b' n' enc'] s2 run(5) by auto
  let ?c1 = "c\<lparr>ce_handshake := Some (hc\<lparr>hc_step := StepResponse\<rparr>)\<rparr>"
  let ?c2 = "?c1\<lparr>ce_handshake := Some (hc\<lparr>hc_step := StepDone\<rparr>), ce_session := Some (io_session out)\<rparr>"
  have "send_init X (Some r1) True c = Some (Ok (), ?c1, Some pkt)" using c(1) run(1) by (simp add: send_init_def)
  moreover have "client_complete X (Some r3) True ?c1 (io_response out) = Some (Ok (io_session out), ?c2, Some conf)"
    using run(3,4) by (simp add: client_complete_def)
  ultimately show ?thesis using one(1) two resp
    by (intro exI [of _ pkt] exI [of _ ?c1] exI [of _ s1] exI [of _ h1] exI [of _ n1] exI [of _ enc1] exI [of _ "io_response out"]
        exI [of _ ?c2] exI [of _ "io_session out"] exI [of _ conf] exI [of _ s2] exI [of _ h2] exI [of _ n2] exI [of _ enc2]) simp
qed

section \<open>Pairing authorizes\<close>

lemma accept_code_device:
  assumes "accept_code X clock E f db code nm pk = (Ok dev, db', g)"
  shows "map_of (db_devices (pdb_db db')) (derive_device_id X pk) = Some dev \<and> dev_id dev = derive_device_id X pk
       \<and> dev_public_key dev = pk \<and> \<not> dev_revoked dev"
  using assms
proof (cases rule: accept_code_cases)
  case (redeemed p1 c1)
  then show ?thesis using register_device_state [OF redeemed(7)]
    by (auto simp: register_device_def Let_def dest!: save_then_Ok [OF sym])
next
  case (wrong p1 c1)
  then show ?thesis by (auto simp: wrong_code_def Let_def dest!: save_then_Ok [OF sym])
next
  case (dead p1 e)
  then show ?thesis by (auto dest!: save_then_Ok [OF sym])
qed simp

lemma paired_authorized:
  assumes "accept_code X clock E f db code nm pk = (Ok dev, db', g)" and "hex_encode X d = derive_device_id X pk"
    and "eq_ignore_ascii_case pk (hex_encode X key)"
  shows "trust_authorizer X db' d key"
proof -
  have "(derive_device_id X pk, dev) \<in> set (db_devices (pdb_db db'))"
    using accept_code_device [OF assms(1)] by (intro map_of_SomeD) simp
  then have "dev \<in> set (db_devices_list db')" by (force simp: db_devices_list_def)
  then show ?thesis using accept_code_device [OF assms(1)] assms(2,3) by (auto simp: trust_authorizer_def list_ex_iff)
qed

section \<open>From a pairing code to a picture\<close>

text \<open>A receiver whose socket works and that has randomness, and the options that name a paired device and its host.\<close>

definition receiver_ready :: "RunView \<Rightarrow> DeviceIdentity \<Rightarrow> bool" where
  "receiver_ready v eph \<longleftrightarrow>
     (\<forall>k. rv_open_io v k = None) \<and> DeviceIdentity_generate (rv_ephemeral v) = Ok eph \<and> rv_init_nonce v \<noteq> None \<and> rv_init_sent v
     \<and> rv_timeout_ok v \<and> rv_confirm_nonce v \<noteq> None \<and> rv_confirm_sent v"

definition receiver_opts :: "crypto_ext \<Rightarrow> Opts \<Rightarrow> bytes \<Rightarrow> DeviceIdentity \<Rightarrow> DeviceIdentity \<Rightarrow> bool" where
  "receiver_opts X opts d identity host \<longleftrightarrow>
     op_server opts \<noteq> None \<and> op_device_id opts = Some (hex_encode X d) \<and> op_host_key opts = Some (public_key_hex X host)
     \<and> op_private_key opts = Some (private_key_hex X identity) \<and> op_save opts = None \<and> \<not> op_decode opts"

lemma parse_device_id_hex:
  assumes "hex_two_digits X" and "length d = DEVICE_ID_LEN"
  shows "parse_device_id (hex_encode X d) = Some (Ok d)"
proof -
  have "length (concat (map two_digits bs)) = 2 * length bs" for bs by (induction bs) (simp_all add: two_digits_def)
  then show ?thesis using assms decode_id_loop_hex [of 0 DEVICE_ID_LEN d]
    by (simp add: parse_device_id_def hex_two_digits_def ok_or_def)
qed

lemma keys_parse_back:
  assumes "hex_ok X" and "public_len X" and "length (secret identity) = 32"
  shows "parse_public_key_hex X (public_key_hex X host) = Ok (public_key_bytes X host)"
    and "from_private_hex X (private_key_hex X identity) = Ok identity"
  using assms public_key_bytes_length [OF assms(2), of host]
  by (simp_all add: parse_public_key_hex_def public_key_hex_def from_private_hex_def private_key_hex_def hex_ok_def
      DeviceIdentity_from_private_bytes_def)

text \<open>The whole command, once its handshake is answered and its datagrams come.\<close>

lemma receive_run_streams:
  assumes "hex_ok X" "hex_two_digits X" "public_len X" and "length d = DEVICE_ID_LEN" "length (secret identity) = 32"
    and "''-h'' \<notin> set args" "''--help'' \<notin> set args" "receive_args A args Opts_default = Some (Ok opts)"
    and "receiver_opts X opts d identity host"
    and "receive_handshake X v d identity (public_key_bytes X host) = Some (Ok c)"
    and "receive_loop X (op_frames opts) (rv_datagrams v) (RxState_new c) = Some st" and "rx_frames st \<noteq> 0"
  shows "receive_run X A v args = Some (Ok ())"
proof -
  obtain server where "op_server opts = Some server" using assms(9) by (auto simp: receiver_opts_def)
  then show ?thesis
    using assms(6-12) parse_device_id_hex [OF assms(2,4)] keys_parse_back [OF assms(1,3,5)]
    by (simp add: receive_run_def receiver_opts_def required_def ok_or_def receive_stream_def receive_verdict_def receive_save_def)
qed

lemma receiver_client:
  assumes "receiver_ready v eph"
  shows "ClientEndpoint_new (rv_open_io v) (rv_ephemeral v) d identity host_static
     = Some (Ok \<lparr>ce_handshake = Some \<lparr>hc_device_id = d, hc_static_identity = identity, hc_host_static = host_static,
                                     hc_ephemeral = eph, hc_step = StepInit\<rparr>, ce_session = None, ce_window = ReplayWindow_default\<rparr>)"
  using assms by (simp add: receiver_ready_def ClientEndpoint_new_def HandshakeClient_new_def)

lemma receiver_handshake:
  assumes "receiver_ready v eph" and "ClientEndpoint_new (rv_open_io v) (rv_ephemeral v) d identity host_static = Some (Ok c)"
    and "send_init X (rv_init_nonce v) True c = Some (Ok (), c1, Some init)"
    and "client_complete X (rv_confirm_nonce v) True c1 resp = Some (Ok session, c2, Some conf)" and "length resp \<le> MAX_DATAGRAM"
  shows "receive_handshake X (v\<lparr>rv_response := Some resp, rv_datagrams := ds\<rparr>) d identity host_static = Some (Ok c2)"
  using assms by (simp add: receive_handshake_def receiver_ready_def recv_raw_def)

lemma pair_accept_stored:
  assumes "service_handle V f service \<lparr>rq_v = ver, rq_id = rid,
             rq_command = CmdPair \<lparr>pa_action = PairAccept, pa_code = Some code, pa_name = Some nm, pa_public_key = Some pk\<rparr>\<rparr>
           = Some (RespOk ok, s, g)"
  shows "\<exists>dev. accept_code (ve_crypto V) (ve_clock V) (ve_save V) f (sv_pairing service) code nm pk = (Ok dev, sv_pairing s, g)"
  using assms by (auto simp: service_handle_def handle_pair_def err_response_def Let_def split: prod.splits sum.splits)

text \<open>
  C2 From a pairing code to a picture: a device whose key was accepted with a code connects and gets the stream.  When
  \<^verbatim>\<open>pair accept\<close> for its public key (in either case of the digits) was answered with success and the device is not
  revoked since, its init is answered in the turn that hears it, the confirm it sends opens a session under its id in the
  turn that hears that within ten seconds, and the access units the engine then ships to it, delivered in order,
  make the receiver's command succeed with exactly their payloads as its elementary stream.
\<close>

theorem paired_device_streams:
  assumes "crypto_laws X" "aead_len X" "hex_ok X" "hex_two_digits X"
    and "service_handle V f service \<lparr>rq_v = ver, rq_id = rid,
           rq_command = CmdPair \<lparr>pa_action = PairAccept, pa_code = Some code, pa_name = Some nm, pa_public_key = Some pk\<rparr>\<rparr>
         = Some (RespOk ok, s, g)" "ve_crypto V = X"
    and "hex_encode X d = derive_device_id X pk" "length d = DEVICE_ID_LEN"
    and "eq_ignore_ascii_case pk (public_key_hex X identity)" "length (secret identity) = 32"
    and "sv_pairing s' = sv_pairing s" "d \<notin> set (sv_revoked s')"
    and "host_inv h" "has_room d h"
    and "DeviceIdentity_generate (pio_eph a) = Ok he" "dh_usable X identity eph (host_identity h) he"
    and "pio_nonce a \<noteq> None" "pio_send a = None" "pio_send a' = None" "timely a b a'"
    and "receiver_ready v eph" "''-h'' \<notin> set args" "''--help'' \<notin> set args"
    and "receive_args A args Opts_default = Some (Ok opts)" "receiver_opts X opts d identity (host_identity h)"
    and "\<And>k i. rnd k i \<noteq> None" "\<And>k i. sent k i"
    and "\<forall>(au, sets) \<in> set (ready_units (enc_rx encoder)). length (payload_chunks (unit_payload sets au)) \<le> u16_max"
    and "ready_units (enc_rx encoder) \<noteq> []" "length (ready_units (enc_rx encoder)) < op_frames opts"
  shows "\<exists>init c c1 s1 h1 n1 enc1 resp c2 session conf s2 h2 n2 enc2 r encoder2 h3 out st.
      ClientEndpoint_new (rv_open_io v) (rv_ephemeral v) d identity (public_key_bytes X (host_identity h)) = Some (Ok c)
    \<and> send_init X (rv_init_nonce v) True c = Some (Ok (), c1, Some init)
    \<and> serve_transport X (hears a b init addr) s h n enc = Some (s1, h1, n1, enc1, [(resp, addr)])
    \<and> client_complete X (rv_confirm_nonce v) True c1 resp = Some (Ok session, c2, Some conf)
    \<and> serve_transport X (hears a' b' conf addr) s' h1 n' enc' = Some (s2, h2, n2, enc2, [])
    \<and> d \<in> set (peer_ids h2)
    \<and> ship_units X rnd sent w k encoder h2 [d] timestamp = (r, encoder2, h3, out)
    \<and> receive_run X A (v\<lparr>rv_response := Some resp, rv_datagrams := map fst out\<rparr>) args = Some (Ok ())
    \<and> receive_loop X (op_frames opts) (map fst out) (RxState_new c2) = Some st
    \<and> rx_elementary st = concat (map (\<lambda>(au, sets). unit_payload sets au) (ready_units (enc_rx encoder)))"
proof -
  let ?units = "ready_units (enc_rx encoder)"
  let ?hc = "\<lparr>hc_device_id = d, hc_static_identity = identity, hc_host_static = public_key_bytes X (host_identity h),
      hc_ephemeral = eph, hc_step = StepInit\<rparr>"
  let ?c = "\<lparr>ce_handshake = Some ?hc, ce_session = None, ce_window = ReplayWindow_default\<rparr>"
  obtain dev where "accept_code X (ve_clock V) (ve_save V) f (sv_pairing service) code nm pk = (Ok dev, sv_pairing s, g)"
    using pair_accept_stored [OF assms(5)] assms(6) by auto
  then have trust: "trust_authorizer X (sv_pairing s) d (public_key_bytes X identity)"
    by (rule paired_authorized) (use assms(7,9) in \<open>simp_all add: public_key_hex_def\<close>)
  obtain r1 r3 nr where rnds: "rv_init_nonce v = Some r1" "rv_confirm_nonce v = Some r3" "pio_nonce a = Some nr"
    using assms(17,21) by (auto simp: receiver_ready_def)
  obtain init c1 s1 h1 n1 enc1 resp c2 session conf s2 h2 n2 enc2 where con:
      "send_init X (Some r1) True ?c = Some (Ok (), c1, Some init)"
      "serve_transport X (hears a b init addr) s h n enc = Some (s1, h1, n1, enc1, [(resp, addr)])" "length resp \<le> MAX_DATAGRAM"
      "client_complete X (Some r3) True c1 resp = Some (Ok session, c2, Some conf)"
      "serve_transport X (hears a' b' conf addr) s' h1 n' enc' = Some (s2, h2, n2, enc2, [])"
      "map_of (peers h2) d = Some \<lparr>peer_addr = addr, peer_session = session, peer_window = ReplayWindow_default\<rparr>"
      "ce_session c2 = Some session" "ce_window c2 = ReplayWindow_default" "wf_session session"
    using connect [of X ?c ?hc h a he nr a' b s s' r1 addr n enc r3 b' n' enc'] assms(1,2,8,11-20) rnds(3) trust by auto
  obtain r encoder2 h3 out where ship: "ship_units X rnd sent w k encoder h2 [d] timestamp = (r, encoder2, h3, out)" by (metis prod_cases4)
  have "\<exists>st. receive_loop X (op_frames opts) (map fst out) (RxState_new c2) = Some st
      \<and> rx_frames st = rx_frames (RxState_new c2) + length ?units
      \<and> rx_elementary st = rx_elementary (RxState_new c2) @ concat (map (\<lambda>(au, sets). unit_payload sets au) ?units)"
    by (rule stream_end_to_end [OF _ assms(2) _ con(6) _ assms(26,27,28) ship])
      (use assms(1,30) con(7-9) in \<open>simp_all add: crypto_laws_def RxState_new_def Reassembler_default_def ahead_def ReplayWindow_default_def\<close>)
  then obtain st where st: "receive_loop X (op_frames opts) (map fst out) (RxState_new c2) = Some st" "rx_frames st \<noteq> 0"
      "rx_elementary st = concat (map (\<lambda>(au, sets). unit_payload sets au) ?units)"
    using assms(29) by (auto simp: RxState_new_def)
  let ?v = "v\<lparr>rv_response := Some resp, rv_datagrams := map fst out\<rparr>"
  have new: "ClientEndpoint_new (rv_open_io v) (rv_ephemeral v) d identity (public_key_bytes X (host_identity h)) = Some (Ok ?c)"
    by (rule receiver_client [OF assms(21)])
  have "receive_handshake X ?v d identity (public_key_bytes X (host_identity h)) = Some (Ok c2)"
    by (rule receiver_handshake [OF assms(21) new]) (use con(1,3,4) rnds in simp_all)
  then have "receive_run X A ?v args = Some (Ok ())"
    by (intro receive_run_streams [OF assms(3,4) _ assms(8,10,22-25)]) (use assms(1) st in \<open>simp_all add: crypto_laws_def\<close>)
  moreover have "d \<in> set (peer_ids h2)" using con(6) by (force simp: peer_ids_def dest: map_of_SomeD)
  ultimately show ?thesis using con ship st new rnds(1,2) by metis
qed

section \<open>One such run\<close>

definition phone :: DeviceIdentity where "phone = \<lparr>secret = replicate 32 0xAA\<rparr>"

definition quiet_io :: pump_io where
  "quiet_io = \<lparr>pio_now = 0, pio_recv = RecvRetry, pio_clk = (\<lambda>_. 0), pio_eph = Some [9], pio_nonce = Some [], pio_send = None\<rparr>"

definition phone_view :: RunView where
  "phone_view = \<lparr>rv_open_io = (\<lambda>_. None), rv_ephemeral = Some [7], rv_init_nonce = Some [], rv_init_sent = True, rv_timeout_ok = True,
     rv_response = None, rv_confirm_nonce = Some [], rv_confirm_sent = True, rv_mkdir_error = None, rv_datagrams = [],
     rv_save = \<lparr>sw_mkdir_error = None, sw_write_error = None\<rparr>,
     rv_decode = \<lparr>dc_mkdir_error = None, dc_write_error = None, dc_run = Ok (True, []), dc_size = 1\<rparr>\<rparr>"

definition phone_args :: "string list" where
  "phone_args = [''--server'', ''tv:9000'', ''--device-id'', hex_encode sample_crypto (as_bytes ''emersia/''),
     ''--host-key'', public_key_hex sample_crypto (host_identity sample_host),
     ''--private-key'', private_key_hex sample_crypto phone, ''--no-decode'']"

definition phone_opts :: Opts where
  "phone_opts = Opts_default\<lparr>op_server := Some ''tv:9000'', op_device_id := Some (hex_encode sample_crypto (as_bytes ''emersia/'')),
     op_host_key := Some (public_key_hex sample_crypto (host_identity sample_host)),
     op_private_key := Some (private_key_hex sample_crypto phone), op_decode := False\<rparr>"

definition pair_request :: Request where
  "pair_request = \<lparr>rq_v = 1, rq_id = ''1'',
     rq_command = CmdPair \<lparr>pa_action = PairAccept, pa_code = Some ''123-456'', pa_name = Some ''tv'', pa_public_key = Some sample_key\<rparr>\<rparr>"

lemma phone_paired:
  "\<exists>ok s g. service_handle (sample_venv\<lparr>ve_clock := Some 5\<rparr>) (\<lambda>_. None) (Service_new sample_db ''k'') pair_request = Some (RespOk ok, s, g) \<and> sv_revoked s = []"
proof -
  obtain dev db g where "accept_code sample_crypto (Some 5) sample_env (\<lambda>_. None) sample_db ''123-456'' ''tv'' sample_key = (Ok dev, db, g)"
    using sample_redeem by blast
  then show ?thesis
    by (simp add: service_handle_def handle_pair_def pair_request_def sample_venv_def Service_new_def Inner_default_def ok_response_def Let_def)
qed

lemma phone_arguments:
  "receive_args A phone_args Opts_default = Some (Ok phone_opts)" "''-h'' \<notin> set phone_args" "''--help'' \<notin> set phone_args"
  "receiver_opts sample_crypto phone_opts (as_bytes ''emersia/'') phone (host_identity sample_host)" "op_frames phone_opts = 10"
proof -
  show "receive_args A phone_args Opts_default = Some (Ok phone_opts)" by (simp add: phone_args_def phone_opts_def Opts_default_def)
  show "''-h'' \<notin> set phone_args" "''--help'' \<notin> set phone_args" by code_simp+
qed (simp_all add: receiver_opts_def phone_opts_def Opts_default_def)

lemma phone_keys:
  "hex_encode sample_crypto (as_bytes ''emersia/'') = derive_device_id sample_crypto sample_key"
  "public_key_hex sample_crypto phone = sample_key" "length (secret phone) = 32"
  "dh_usable sample_crypto phone \<lparr>secret = pad32 [7]\<rparr> (host_identity sample_host) \<lparr>secret = pad32 [9]\<rparr>"
  by code_simp+

definition no_floats :: float_args where "no_floats = \<lparr>fa_parse = (\<lambda>_. None), fa_duration = (\<lambda>_. None)\<rparr>"

theorem paired_device_streams_witness:
  "\<exists>init c c1 s s1 h1 n1 enc1 resp c2 session conf s2 h2 n2 enc2 r encoder2 h3 out st.
      send_init sample_crypto (Some []) True c = Some (Ok (), c1, Some init)
    \<and> serve_transport sample_crypto (hears quiet_io quiet_io init sample_addr) s sample_host 0 (None :: unit option) = Some (s1, h1, n1, enc1, [(resp, sample_addr)])
    \<and> client_complete sample_crypto (Some []) True c1 resp = Some (Ok session, c2, Some conf)
    \<and> serve_transport sample_crypto (hears quiet_io quiet_io conf sample_addr) s h1 0 (None :: unit option) = Some (s2, h2, n2, enc2, [])
    \<and> ship_units sample_crypto (\<lambda>_ _. Some []) (\<lambda>_ _. True) (Ok None) 0
         ((Encoder_new sample_config sample_candidate)\<lparr>enc_rx := [Unit sample_unit [9]]\<rparr>) h2 [as_bytes ''emersia/''] 90
        = (r, encoder2, h3, out)
    \<and> receive_run sample_crypto no_floats (phone_view\<lparr>rv_response := Some resp, rv_datagrams := map fst out\<rparr>) phone_args = Some (Ok ())
    \<and> receive_loop sample_crypto 10 (map fst out) (RxState_new c2) = Some st \<and> rx_elementary st = [9, 0, 0, 1, 101, 136]"
proof -
  let ?enc = "(Encoder_new sample_config sample_candidate)\<lparr>enc_rx := [Unit sample_unit [9]]\<rparr>"
  let ?V = "sample_venv\<lparr>ve_clock := Some 5\<rparr>"
  have unit: "unit_payload [9] sample_unit = [9, 0, 0, 1, 101, 136]" by (simp add: unit_payload_def sample_unit_def)
  have size: "length (payload_chunks (unit_payload [9] sample_unit)) \<le> u16_max"
    by (simp add: unit payload_chunks_def RECORD_MTU_def FRAME_HEADER_LEN_def length_chunks u16_max_def)
  obtain ok s g where paired: "service_handle ?V (\<lambda>_. None) (Service_new sample_db ''k'') pair_request = Some (RespOk ok, s, g)"
      "sv_revoked s = []" using phone_paired by blast
  have laws: "crypto_laws sample_crypto" "aead_len sample_crypto" "hex_ok sample_crypto" using sample_laws by (simp_all add: crypto_laws_def)
  have host: "host_inv sample_host" "has_room (as_bytes ''emersia/'') sample_host"
    by (simp_all add: host_inv_def has_room_def sample_host_def count_device_def MAX_PENDING_HANDSHAKES_def MAX_PENDING_HANDSHAKES_PER_DEVICE_def al_wf_def)
  have io: "DeviceIdentity_generate (pio_eph quiet_io) = Ok \<lparr>secret = pad32 [9]\<rparr>"
      "DeviceIdentity_generate (Some [7]) = Ok \<lparr>secret = pad32 [7]\<rparr>" by code_simp+
  have io': "pio_nonce quiet_io \<noteq> None" "pio_send quiet_io = None" "timely quiet_io quiet_io quiet_io"
    by (simp_all add: quiet_io_def timely_def PENDING_HANDSHAKE_TTL_def)
  have view: "receiver_ready phone_view \<lparr>secret = pad32 [7]\<rparr>" "rv_init_nonce phone_view = Some []" "rv_confirm_nonce phone_view = Some []"
    using io(2) by (simp_all add: receiver_ready_def phone_view_def)
  note run = paired_device_streams [where d = "as_bytes ''emersia/''" and identity = phone and s' = s and h = sample_host and a = quiet_io
      and a' = quiet_io and b = quiet_io and b' = quiet_io and addr = sample_addr and n = 0 and n' = 0 and enc = "None :: unit option" and enc' = "None :: unit option"
      and v = phone_view and args = phone_args and opts = phone_opts and A = no_floats and encoder = ?enc and rnd = "\<lambda>_ _. Some []"
      and sent = "\<lambda>_ _. True" and w = "Ok None" and k = 0 and timestamp = 90,
      OF laws sample_hex_two_digits paired(1) [unfolded pair_request_def] _ phone_keys(1) _ _ phone_keys(3) _ _ host io(1) phone_keys(4)
        io'(1,2,2,3) view(1) phone_arguments(2,3,1,4)]
  have pre: "ve_crypto ?V = sample_crypto" "length (as_bytes ''emersia/'') = DEVICE_ID_LEN"
      "eq_ignore_ascii_case sample_key (public_key_hex sample_crypto phone)" "as_bytes ''emersia/'' \<notin> set (sv_revoked s)"
    by (simp_all add: sample_venv_def as_bytes_def DEVICE_ID_LEN_def phone_keys(2) eq_ignore_ascii_case_refl paired(2))
  have units: "\<forall>(au, sets) \<in> set (ready_units (enc_rx ?enc)). length (payload_chunks (unit_payload sets au)) \<le> u16_max"
      "ready_units (enc_rx ?enc) \<noteq> []" "length (ready_units (enc_rx ?enc)) < op_frames phone_opts"
    by (simp_all add: unit size [unfolded unit] phone_arguments(5))
  show ?thesis
    using run [OF pre(1-3) refl pre(4) _ _ units(1-3), simplified, unfolded unit view(2,3) phone_arguments(5)]
    by (elim exE conjE) (intro exI conjI; assumption)
qed

section \<open>One key under two ids\<close>

text \<open>
  C40 The id of a device hashes its key as it was typed, while the authorizer compares keys ignoring the case of the digits.  A key
  paired a second time in the other case, when the two texts hash to different ids, gets an id of its own, and revoking
  the first id denies only that one: the same key stays authorized under the other.  The witness computes two such ids.
\<close>

theorem key_case_dodges_revocation:
  assumes "db_inv X db" and "accept_code X clock E f db code nm pk = (Ok dev, db1, g)"
    and "revoke clock' E' f' db1 (derive_device_id X pk0) = (Ok dev0, db2, g')"
    and "derive_device_id X pk0 \<noteq> derive_device_id X pk"
    and "eq_ignore_ascii_case pk0 (hex_encode X key)" "eq_ignore_ascii_case pk (hex_encode X key)"
    and "hex_encode X d0 = derive_device_id X pk0" "hex_encode X d = derive_device_id X pk"
  shows "\<not> trust_authorizer X db2 d0 key \<and> trust_authorizer X db2 d key"
proof
  have "db_inv X db2" by (rule revoke_inv [OF accept_code_inv [OF assms(1,2)] assms(3)])
  moreover obtain dev1 where revoked: "db2 = db1\<lparr>pdb_db := (pdb_db db1)\<lparr>db_devices := bt_insert (derive_device_id X pk0)
      (dev1\<lparr>dev_revoked := True, dev_revoked_at := Some (now_unix clock')\<rparr>) (db_devices (pdb_db db1))\<rparr>\<rparr>"
    using assms(3) by (auto simp: revoke_def Let_def split: option.splits if_splits dest!: save_then_Ok)
  ultimately show "\<not> trust_authorizer X db2 d0 key"
    by (intro revoked_denied) (simp_all add: revoked_in_def assms(7))
  have "map_of (db_devices (pdb_db db2)) (derive_device_id X pk) = Some dev"
    using accept_code_device [OF assms(2)] assms(4) by (simp add: revoked)
  then have "dev \<in> set (db_devices_list db2)" by (force simp: db_devices_list_def dest: map_of_SomeD)
  then show "trust_authorizer X db2 d key"
    using accept_code_device [OF assms(2)] assms(6,8) by (auto simp: trust_authorizer_def list_ex_iff)
qed

text \<open>A hash that tells the two spellings of one key apart.\<close>

definition case_crypto :: crypto_ext where
  "case_crypto = sample_crypto\<lparr>sha256 := (\<lambda>bs. pad32 (rev bs))\<rparr>"

definition upper_key :: string where "upper_key = replicate 64 (CHR ''A'')"

definition case_db :: PairingDb where
  "case_db = \<lparr>pdb_path = [''emersia'', ''pairing.json''],
     pdb_db = \<lparr>db_version = 1,
       db_devices = [(derive_device_id case_crypto sample_key, sample_device\<lparr>dev_id := derive_device_id case_crypto sample_key\<rparr>)],
       db_pending = Some \<lparr>pc_code_hash = hash_code case_crypto ''123456'' ''00'', pc_salt = ''00'', pc_expires_at = 1000, pc_attempts = 0\<rparr>\<rparr>\<rparr>"

lemma case_accept:
  "\<exists>dev g. accept_code case_crypto (Some 5) sample_env (\<lambda>_. None) case_db ''123456'' ''tv'' upper_key
     = (Ok dev, case_db\<lparr>pdb_db := (pdb_db case_db)\<lparr>db_devices := bt_insert (derive_device_id case_crypto upper_key) dev (db_devices (pdb_db case_db)),
          db_pending := None\<rparr>\<rparr>, g)"
proof -
  have key: "is_ok (parse_public_key_hex case_crypto upper_key)" by code_simp
  have code: "PairingCode_parse ''123456'' = Ok (PairingCode ''123456'')" by code_simp
  have name: "trim ''tv'' = ''tv''" "\<not> MAX_NAME_LEN < chars_count ''tv''"
    by (simp_all add: trim_plain plain_char_def MAX_NAME_LEN_def chars_count_def)
  have path: "pdb_path case_db = [''emersia'', ''pairing.json'']" by (simp add: case_db_def)
  have reg: "accept_code case_crypto (Some 5) sample_env (\<lambda>_. None) case_db ''123456'' ''tv'' upper_key
      = register_device case_crypto 5 sample_env (\<lambda>_. None) case_db ''tv'' upper_key"
    using key by (auto simp: accept_code_def case_db_def code name now_unix_def MAX_CODE_ATTEMPTS_def elim: is_okE)
  have "is_ok (fst (db_save sample_env (\<lambda>_. None) self'))" if "pdb_path self' = pdb_path case_db" for self'
    using sample_save_ok that path by simp
  from register_device_ok [OF this, where X = case_crypto and now = 5 and name = "''tv''" and pk = upper_key] obtain dev db1 g where
    ok: "register_device case_crypto 5 sample_env (\<lambda>_. None) case_db ''tv'' upper_key = (Ok dev, db1, g)" by metis
  with register_device_state [OF ok [symmetric]] show ?thesis
    unfolding reg by (auto simp: register_device_def Let_def dest!: save_then_Ok)
qed

theorem key_case_dodges_revocation_witness:
  "\<exists>dev db1 g dev0 db2 g'. accept_code case_crypto (Some 5) sample_env (\<lambda>_. None) case_db ''123456'' ''tv'' upper_key = (Ok dev, db1, g)
     \<and> revoke (Some 9) sample_env (\<lambda>_. None) db1 (derive_device_id case_crypto sample_key) = (Ok dev0, db2, g')
     \<and> \<not> trust_authorizer case_crypto db2 (replicate 8 0x61) (replicate 32 0xAA)
     \<and> trust_authorizer case_crypto db2 (replicate 8 0x41) (replicate 32 0xAA)"
proof -
  let ?id = "derive_device_id case_crypto"
  have ids: "?id sample_key \<noteq> ?id upper_key" "eq_ignore_ascii_case sample_key (hex_encode case_crypto (replicate 32 0xAA))"
      "eq_ignore_ascii_case upper_key (hex_encode case_crypto (replicate 32 0xAA))"
      "hex_encode case_crypto (replicate 8 0x61) = ?id sample_key" "hex_encode case_crypto (replicate 8 0x41) = ?id upper_key"
    by code_simp+
  obtain dev db1 g where acc: "accept_code case_crypto (Some 5) sample_env (\<lambda>_. None) case_db ''123456'' ''tv'' upper_key = (Ok dev, db1, g)"
      and db1: "db1 = case_db\<lparr>pdb_db := (pdb_db case_db)\<lparr>db_devices := bt_insert (?id upper_key) dev (db_devices (pdb_db case_db)), db_pending := None\<rparr>\<rparr>"
    using case_accept by blast
  have "map_of (db_devices (pdb_db db1)) (?id sample_key) = Some (sample_device\<lparr>dev_id := ?id sample_key\<rparr>)"
      "\<not> dev_revoked (sample_device\<lparr>dev_id := ?id sample_key\<rparr>)" "pdb_path db1 = [''emersia'', ''pairing.json'']"
    using ids(1) by (simp_all add: db1 case_db_def sample_device_def)
  then obtain dev0 db2 g' where rev: "revoke (Some 9) sample_env (\<lambda>_. None) db1 (?id sample_key) = (Ok dev0, db2, g')"
    using revoke_saved [of db1 "?id sample_key" _ sample_env "\<lambda>_. None" "Some 9"] sample_save_ok by metis
  have "db_inv case_crypto case_db"
    by (simp add: db_inv_def device_ok_def case_db_def sample_device_def MAX_CODE_ATTEMPTS_def bt_wf_def)
  from key_case_dodges_revocation [OF this acc rev ids] show ?thesis using acc rev by blast
qed

end
