(* ===== verification/Receiver_Report.thy ===== *)
theory Receiver_Report
  imports Receiver_Model
begin

text \<open>
  The closing report of the receiver (\<^verbatim>\<open>run\<close> of \<^verbatim>\<open>receiver/mod.rs\<close>, from the elapsed time to the result) and what
  its figures mean: the counters of the receive loop are consistent with one another for every stream of datagrams,
  and the elementary stream consists of bytes that were received.  Times and rates are opaque floating-point values,
  formatted by parameters.
\<close>

section \<open>The lines of the report\<close>

record report_float =
  rf_positive :: "f64 \<Rightarrow> bool"
  rf_of_nat :: "nat \<Rightarrow> f64"
  rf_div :: "f64 \<Rightarrow> f64 \<Rightarrow> f64"
  rf_fixed :: "nat \<Rightarrow> f64 \<Rightarrow> string"

definition measured_rate :: "report_float \<Rightarrow> f64 \<Rightarrow> RxState \<Rightarrow> f64" where
  "measured_rate F secs st =
     (if rf_positive F secs then rf_div F (rf_of_nat F (rx_frames st)) secs else rf_of_nat F 0)"

definition per_frame :: "nat \<Rightarrow> RxState \<Rightarrow> nat" where
  "per_frame amount st = amount div max (rx_frames st) 1"

definition summary_lines :: "report_float \<Rightarrow> f64 \<Rightarrow> f64 \<Rightarrow> Opts \<Rightarrow> RxState \<Rightarrow> string list" where
  "summary_lines F handshake_ms secs opts st =
     [''--- summary ---'',
      ''handshake: '' @ rf_fixed F 1 handshake_ms @ '' ms'',
      ''codec:     '' @ (case rx_codec_name st of Some c \<Rightarrow> c | None \<Rightarrow> ''none''),
      ''frames:    '' @ show_nat (rx_frames st) @ '' ('' @ show_nat (rx_keyframes st) @ '' keyframe(s))'',
      ''per frame: '' @ show_nat (per_frame (rx_datagrams st) st) @ '' datagrams, ''
         @ show_nat (per_frame (rx_bytes st) st div 1024) @ '' KiB'',
      ''datagrams: '' @ show_nat (rx_datagrams st),
      ''bytes:     '' @ show_nat (rx_bytes st) @ '' (''
         @ rf_fixed F 1 (rf_div F (rf_of_nat F (rx_bytes st)) (rf_of_nat F (1024 * 1024))) @ '' MiB)'',
      ''elapsed:   '' @ rf_fixed F 2 secs @ '' s'',
      ''measured:  '' @ rf_fixed F 1 (measured_rate F secs st) @ '' fps'',
      ''max gap:   '' @ show_nat (unat (rx_max_gap st)) @ '' datagram(s)'']
     @ (case op_fps opts of Some want \<Rightarrow> [''target:    '' @ show_nat (unat want) @ '' fps''] | None \<Rightarrow> [])"

text \<open>The line on decoding goes to the standard output or, when it failed, to the standard error.\<close>

definition decoded_lines :: "(string + string) option \<Rightarrow> string list \<times> string list" where
  "decoded_lines decoded =
     (case decoded of
        Some (Inr info) \<Rightarrow> ([''decoded:   '' @ info], [])
      | Some (Inl why) \<Rightarrow> ([], [''emersia-daemon receive: DECODE FAILED: '' @ why])
      | None \<Rightarrow> ([], []))"

text \<open>Standard output and standard error of the end of a run; nothing is printed when the stream cannot be written.\<close>

definition receive_report ::
  "report_float \<Rightarrow> f64 \<Rightarrow> f64 \<Rightarrow> SaveView \<Rightarrow> DecodeView \<Rightarrow> Opts \<Rightarrow> RxState \<Rightarrow> string list \<times> string list" where
  "receive_report F handshake_ms secs s v opts st =
     (let decoded = (if rx_elementary st \<noteq> [] \<and> op_decode opts then Some (decode_verify v) else None)
      in case receive_save s opts st of
           Inl _ \<Rightarrow> ([], [])
         | Inr _ \<Rightarrow>
            (case decoded_lines decoded of (out, err) \<Rightarrow> (summary_lines F handshake_ms secs opts st @ out, err)))"

text \<open>A decode failure is on the standard error exactly when it is the error of the command.\<close>

lemma decode_failure_reported:
  assumes "receive_save s opts st = Ok ()"
  shows "receive_verdict s v opts st = Err (Runtime (''stream did not decode: '' @ why))
     \<longleftrightarrow> snd (receive_report F ms secs s v opts st) = [''emersia-daemon receive: DECODE FAILED: '' @ why]"
  using assms by (auto simp: receive_verdict_def receive_report_def decoded_lines_def Let_def split: sum.splits)

section \<open>The counters are consistent\<close>

primrec fragment_bytes :: "bytes option list \<Rightarrow> nat" where
  "fragment_bytes [] = 0"
| "fragment_bytes (f # fs) = (case f of None \<Rightarrow> 0 | Some b \<Rightarrow> length b) + fragment_bytes fs"

definition held_bytes :: "Reassembler \<Rightarrow> nat" where
  "held_bytes r = (case ra_current r of None \<Rightarrow> 0 | Some p \<Rightarrow> fragment_bytes (pf_fragments p))"

lemma fragment_bytes_replicate [simp]: "fragment_bytes (replicate n None) = 0"
  by (induction n) simp_all

lemma fragment_bytes_update:
  "i < length fs \<Longrightarrow> fs ! i = None \<Longrightarrow> fragment_bytes (fs[i := Some b]) = fragment_bytes fs + length b"
  by (induction fs arbitrary: i) (auto split: nat.splits)

lemma length_concat_fragments:
  "length (concat (map (\<lambda>f. case f of None \<Rightarrow> [] | Some b \<Rightarrow> b) fs)) = fragment_bytes fs"
  by (induction fs) (simp_all split: option.splits)

lemma fragment_bytes_pending_for: "fragment_bytes (pf_fragments (pending_for r h)) \<le> held_bytes r"
  by (simp add: pending_for_def held_bytes_def Let_def split: option.splits)

abbreviation delivered_bytes :: "bytes option \<Rightarrow> nat" where
  "delivered_bytes out \<equiv> (case out of None \<Rightarrow> 0 | Some whole \<Rightarrow> length whole)"

lemma place_holds_received:
  assumes "place_fragment p i payload = Some (out, cur)"
  shows "delivered_bytes out + held_bytes (r\<lparr>ra_current := cur\<rparr>) \<le> fragment_bytes (pf_fragments p) + length payload"
proof (cases "pf_fragments p ! i")
  case None
  with assms show ?thesis
    by (auto simp: place_fragment_def held_bytes_def fragment_bytes_update length_concat_fragments Let_def
        split: if_splits simp del: length_concat)
next
  case (Some b)
  with assms show ?thesis by (auto simp: place_fragment_def held_bytes_def split: if_splits)
qed

lemma push_holds_received:
  assumes "Reassembler_push r h payload = Some (out, r')"
  shows "delivered_bytes out + held_bytes r' \<le> held_bytes r + length payload"
proof (cases "place_fragment (pending_for r h) (unat (fh_frag_index h)) payload")
  case None
  with assms show ?thesis by (auto simp: Reassembler_push_def held_bytes_def split: if_splits)
next
  case (Some res)
  obtain out' cur where res: "res = (out', cur)" by (cases res)
  have "delivered_bytes out' + held_bytes (r\<lparr>ra_current := cur\<rparr>) \<le> held_bytes r + length payload"
    using place_holds_received [OF Some [unfolded res], of r] fragment_bytes_pending_for [of r h] by linarith
  moreover have "(out, r') = (None, r) \<or> (out, r') = (Some payload, r\<lparr>ra_current := None\<rparr>) \<or> (out, r') = (out', r\<lparr>ra_current := cur\<rparr>)"
    using assms Some res by (auto simp: Reassembler_push_def split: if_splits)
  ultimately show ?thesis by (auto simp: held_bytes_def)
qed

definition rx_inv :: "nat \<Rightarrow> RxState \<Rightarrow> bool" where
  "rx_inv limit st \<longleftrightarrow>
     wf_reassembler (rx_reassembler st) \<and> rx_keyframes st \<le> rx_frames st \<and> rx_frames st \<le> min limit (rx_datagrams st)
     \<and> length (rx_elementary st) + held_bytes (rx_reassembler st) \<le> rx_bytes st"

lemma rx_inv_new: "rx_inv limit (RxState_new c)"
  by (simp add: rx_inv_def RxState_new_def held_bytes_def) (simp add: Reassembler_default_def)

lemma rx_inv_record:
  assumes "rx_inv limit st" and "rx_frames st < limit"
  shows "\<exists>out r. Reassembler_push (rx_reassembler st) header payload = Some (out, r)
     \<and> rx_inv limit (case out of
           None \<Rightarrow> (count_record codec header payload st)\<lparr>rx_reassembler := r\<rparr>
         | Some whole \<Rightarrow> count_frame header whole ((count_record codec header payload st)\<lparr>rx_reassembler := r\<rparr>))"
proof -
  obtain out r where push: "Reassembler_push (rx_reassembler st) header payload = Some (out, r)" "wf_reassembler r"
    using Reassembler_push_ok assms(1) by (metis rx_inv_def)
  with assms push_holds_received [OF push(1)] show ?thesis
    by (auto simp: rx_inv_def count_record_def count_frame_def split: option.splits)
qed

lemma receive_loop_inv:
  assumes "rx_inv limit st"
  shows "\<exists>st'. receive_loop X limit ds st = Some st' \<and> rx_inv limit st' \<and> rx_datagrams st' \<le> rx_datagrams st + length ds"
  using assms
proof (induction ds arbitrary: st)
  case (Cons d ds)
  obtain res c where recv: "recv_record X True (Some d) (rx_client st) = (res, c)" by (cases "recv_record X True (Some d) (rx_client st)")
  let ?st = "st\<lparr>rx_client := c\<rparr>"
  have inv: "rx_inv limit ?st" using Cons.prems by (simp add: rx_inv_def)
  show ?case
  proof (cases "limit \<le> rx_frames st \<or> \<not> is_ok res")
    case True
    then show ?thesis using recv Cons.prems inv by (cases res) (auto simp: is_ok_def)
  next
    case False
    then obtain header payload where res: "res = Ok (header, payload)" by (cases res) (auto simp: is_ok_def)
    show ?thesis
    proof (cases "from_payload_type (fh_payload_type header)")
      case None
      then show ?thesis using Cons.IH [OF inv] False recv res by force
    next
      case (Some codec)
      have "rx_frames ?st < limit" using False by simp
      from rx_inv_record [OF inv this, of header payload codec] obtain out r where
        push: "Reassembler_push (rx_reassembler st) header payload = Some (out, r)" and
        inv': "rx_inv limit (case out of None \<Rightarrow> (count_record codec header payload ?st)\<lparr>rx_reassembler := r\<rparr>
           | Some whole \<Rightarrow> count_frame header whole ((count_record codec header payload ?st)\<lparr>rx_reassembler := r\<rparr>))" by auto
      from Cons.IH [OF inv'] show ?thesis using False recv res Some push
        by (cases out) (auto simp: count_record_def count_frame_def)
    qed
  qed
qed simp

text \<open>
  C39 The figures of the report are consistent for every client and every sequence of datagrams, forged ones included: the loop
  ends without a panic, counts no more keyframes than frames, no more frames than asked for or than records, no more
  records than datagrams arrived, and the elementary stream it writes is never longer than the payload bytes it
  received; the printed number of records per frame is at least one as soon as there is a frame.
\<close>

theorem report_consistent:
  "\<exists>st. receive_loop X limit datagrams (RxState_new c) = Some st
     \<and> rx_keyframes st \<le> rx_frames st \<and> rx_frames st \<le> limit
     \<and> rx_frames st \<le> rx_datagrams st \<and> rx_datagrams st \<le> length datagrams
     \<and> length (rx_elementary st) \<le> rx_bytes st
     \<and> (per_frame (rx_datagrams st) st = 0 \<longleftrightarrow> rx_datagrams st = 0)"
proof -
  obtain st where st: "receive_loop X limit datagrams (RxState_new c) = Some st" "rx_inv limit st"
      "rx_datagrams st \<le> rx_datagrams (RxState_new c) + length datagrams"
    using receive_loop_inv [OF rx_inv_new] by blast
  then have "per_frame (rx_datagrams st) st = 0 \<longleftrightarrow> rx_datagrams st = 0"
    by (auto simp: per_frame_def rx_inv_def div_eq_0_iff max_def)
  with st show ?thesis by (auto simp: rx_inv_def RxState_new_def)
qed

end
