(* ===== verification/Spec2Isabelle.thy ===== *)
theory Spec2Isabelle
  imports Session_Run Receiver_Report
begin

text \<open>
  Verification of the emersia host, a Linux daemon that captures a Wayland output, encodes it with ffmpeg and streams it
  over an encrypted UDP transport to paired devices, together with its command-line client and the test receiver.
  Sources are under \<^verbatim>\<open>src/host/crates\<close>: \<^verbatim>\<open>emersia-daemon/src\<close> (the daemon), \<^verbatim>\<open>emersia-protocol/src/lib.rs\<close> (the control
  protocol) and \<^verbatim>\<open>emersia-cli/src/main.rs\<close> (the client).

  \<^bold>\<open>Parts and how they interact.\<close>  The client turns its arguments into one JSON line on a Unix socket
  (\<open>Cli_Model\<close>).  The control server accepts up to 16 clients of the same user, reads bounded lines and hands each
  request to the service (\<open>Control\<close>, \<open>Protocol\<close>).  The service holds the shared state, answers commands, and owns the
  trust store of paired devices (\<open>Service_Model\<close>, \<open>Pairing\<close>).  The engine's loop, on another thread, takes revocations
  from the service, serves the UDP endpoint, captures a frame, feeds the encoder and ships finished access units to
  every connected device (\<open>Engine_Model\<close>, over \<open>Capture_Model\<close>, \<open>Frame_Model\<close>, \<open>Encoder_Model\<close>, \<open>Codec\<close>).  The endpoint
  runs the three-message handshake, keeps sessions, and cuts frames into sealed records
  (\<open>Udp\<close>, \<open>Handshake\<close>, \<open>Transport\<close>, \<open>Crypto\<close>).  The receiver is the device side (\<open>Receiver_Model\<close>), and the entry point
  puts the daemon together (\<open>Daemon_Main\<close>); \<open>Session_Run\<close> runs them all once, from a pairing code to a picture.

  \<^bold>\<open>Theories and sources.\<close>
  \<^item> \<open>Emersia_Prelude\<close>: machine integers, results as sums, bytes and big-endian encodings, UTF-8, \<^verbatim>\<open>trim\<close>,
    integer parsing and printing, paths, ordered maps, debug printing of strings: what the sources use of Rust's library.
  \<^item> \<open>Interfaces\<close>: the locales \<open>wire_codec\<close> (a decoder that inverts an encoder), \<open>invariant_relation\<close> and \<open>invariant_machine\<close> (a step
    relation, or a step function, that keeps an invariant; the second is a sublocale of the first), \<open>forward_simulation\<close> and
    \<open>invariant_simulation\<close> (steps matched by steps of a specification, with its invariant), \<open>keyed_store\<close> (lookup after
    insert and remove) and \<open>replay_filter\<close>; \<open>Udp\<close> adds \<open>trust_store\<close>, what the endpoint relies on in its authorizer.  Each
    is interpreted on the model's own definitions in the theory that provides them.
  \<^item> \<open>Crypto\<close> (\<^verbatim>\<open>crypto.rs\<close>): identities, key schedule, sealing, pairing codes, the host key file.  The primitives of the
    third-party crates are the fields of \<open>crypto_ext\<close>, with what the code relies on as named predicates
    (\<open>aead_correct\<close>, \<open>dh_commutes\<close>, \<open>hex_ok\<close>, ...); \<open>Sample_Crypto\<close> has a concrete instance that satisfies them, for
    the witnesses.
  \<^item> \<open>Transport\<close> (\<^verbatim>\<open>transport/mod.rs\<close>): frame header, records, the 64-bit replay window with its refinement of a
    specification on unwrapped numbers, fragmentation and reassembly.
  \<^item> \<open>Handshake\<close> (\<^verbatim>\<open>transport/handshake.rs\<close>): client and server with their panics as an outer \<open>None\<close>.
  \<^item> \<open>Udp\<close> (\<^verbatim>\<open>transport/udp.rs\<close>): host and device endpoints; the socket is the list of datagrams in and out; runs of
    the host are folds of \<open>host_step\<close> over events.
  \<^item> \<open>Pairing\<close> (\<^verbatim>\<open>pairing.rs\<close>): codes, redemption, revocation, and the database file with every file-system call that can
    fail; \<open>db_step\<close> runs its operations.
  \<^item> \<open>Codec\<close> (\<^verbatim>\<open>codec.rs\<close>): the incremental Annex-B parser and the Exp-Golomb reader.
  \<^item> \<open>Frame_Model\<close> (\<^verbatim>\<open>frame.rs\<close>, \<^verbatim>\<open>shm.rs\<close>) and \<open>Capture_Model\<close> (\<^verbatim>\<open>capture/mod.rs\<close>, \<^verbatim>\<open>ext.rs\<close>, \<^verbatim>\<open>wlr.rs\<close>): pixel
    conversion, output transforms, buffers, and both capture sequences against an arbitrary compositor.
  \<^item> \<open>Protocol\<close> (\<^verbatim>\<open>emersia-protocol\<close>), \<open>Service_Model\<close> (\<^verbatim>\<open>service.rs\<close>: shared state and handlers), \<open>Control\<close>
    (\<^verbatim>\<open>control.rs\<close>); the JSON text is a parameter \<open>json_codec\<close> with serde's promises as \<open>codec_lines\<close>.
  \<^item> \<open>Revocation\<close>: control commands and engine work as an inductive step relation \<open>sys_step\<close> on service and endpoint, with
    a revocation split at the two locks it takes.
  \<^item> \<open>Encoder_Model\<close> (\<^verbatim>\<open>encoder.rs\<close>): selection of an encoder, the child's writer, reader and diagnostics threads as an
    inductive interleaving \<open>pipe_step\<close>, and the shutdown.
  \<^item> \<open>Engine_Model\<close> (\<^verbatim>\<open>service.rs\<close>: engine): discovery, reconnection and every stage of a turn of \<^verbatim>\<open>run_engine\<close>; other
    threads run their locked sections (\<open>outside_step\<close>) between any two accesses of the loop to the service, also between the
    datagrams of a turn; \<open>lock_step\<close> has one locked section per step and is simulated by \<open>sys_step\<close>.  With no other
    thread, the transport stage is \<open>serve_transport\<close> of \<open>Service_Model\<close> (\<open>transport_stage_alone\<close>).
  \<^item> \<open>Receiver_Model\<close> and \<open>Receiver_Report\<close> (\<^verbatim>\<open>receiver/mod.rs\<close>: the command, and its closing summary), \<open>Cli_Model\<close>
    (\<^verbatim>\<open>emersia-cli\<close>), \<open>Daemon_Main\<close> (\<^verbatim>\<open>main.rs\<close>).
  \<^item> \<open>Session_Run\<close>: no code of its own; one session across service, endpoint, engine and receiver.

  \<^bold>\<open>What the properties show.\<close>  Transport: nothing is accepted twice, fragments in any order reassemble exactly,
  the bitmap refines its specification, accepted packets are authentic.  Handshake and endpoint: honest runs agree,
  answers go to authorized devices only, sessions appear only by a verified confirm, pending handshakes are bounded,
  disconnected devices stay out.  Pairing: at most five comparisons with a code also when nothing can be saved, codes work once, revoked devices stay
  revoked until the code is redeemed for them, saving is atomic.  Media: chunking does not matter to the parser, transforms are undone
  exactly, captures are well formed and return, the encoder's threads neither lose nor reorder, its shutdown ends.
  Service and control: state invariant, framing, connection cap.  Across components: a revocation reaches
  live sessions in every interleaving, the engine's loop refines the system of that proof with commands between any two
  of its accesses, and each of its turns disconnects what is queued, failures of a turn stop only the stream, a device paired with a code connects and receives exactly the access units shipped to it, commands of the client
  are carried out by the daemon, start-up publishes the key that answers handshakes.  The receiver's figures are consistent
  for any datagrams.  Three properties state errors of the code: an unsaved revocation keeps its session, a key typed in the other
  case dodges a revocation, and the encoder reports its own kill as a failure.  The last section of this theory
  follows a revocation from the shell to the endpoint.

  \<^bold>\<open>Conventions.\<close>  Errors are sums, panics an outer \<open>None\<close> (or \<open>CapPanic\<close>, \<open>Panicked\<close>).  Integers keep their width and
  wrap as in a release build.  Randomness is an argument that may be missing; \<open>io k = Some e\<close> makes the \<open>k\<close>-th
  system call of an operation fail; clocks, sockets, the compositor and ffmpeg are inputs.  Hash maps are association
  lists with distinct keys.  Loops that may not end take their events from a list or stream: the event loop of a capture is a
  \<open>partial_function\<close> and proved to return as long as the clock goes on; the encoder's drain and the waits of its
  teardown are recursive over what is observed and proved to end; no fuel stands for a result.

  \<^bold>\<open>Not modelled.\<close>  Help and progress texts and their timing figures (pure output); plain accessors; the
  installation of signal handlers (a signal is an input of the engine's loop); logging; the numeric content of \<^verbatim>\<open>f64\<close>
  arithmetic (a parameter); third-party crates (parameters); the Android client, tests and packaging.
\<close>

section \<open>A revocation from the shell\<close>

lemma revoke_answer_scheduled:
  assumes "hex_two_digits X" and "db_inv X (sv_pairing service)" and "length d = 8"
    and "service_handle V f service \<lparr>rq_v = ver, rq_id = rid, rq_command = CmdRevoke \<lparr>ra_device = hex_encode X d\<rparr>\<rparr>
           = Some (RespOk ok, service', f')"
  shows "d \<in> set (in_revoked_pending (sv_inner service')) \<and> revoked_in (hex_encode X d) (sv_pairing service')"
proof -
  obtain dev db bs where rev: "revoke (ve_clock V) (ve_save V) f (sv_pairing service) (hex_encode X d) = (Ok dev, db, f')"
      "decode_device_id (dev_id dev) = Some bs" "service' = push_revoked bs (service\<lparr>sv_pairing := db\<rparr>)"
    using assms(4) by (auto simp: service_handle_def handle_revoke_def err_response_def Let_def split: prod.splits sum.splits option.splits)
  have "bs = Some d" using rev(2) revoke_Ok_id [OF assms(2) rev(1)] decode_device_id_hex [OF assms(1,3)] by simp
  moreover have "revoked_in (hex_encode X d) db"
    using rev(1) by (auto simp: revoke_def Let_def revoked_in_def split: option.splits if_splits dest!: save_then_Ok)
  ultimately show ?thesis using rev(3) by (simp add: push_revoked_def)
qed

text \<open>
  C1 From the shell to the stream: when \<^verbatim>\<open>emersia revoke\<close> for a device id exits with success, then, whatever the daemon has done since
  its start (pairings, earlier revocations, also failed ones and ones still between their two locks, streams, datagrams),
  the engine's next turn leaves no session and no handshake of that device, whatever datagrams arrive during it.
\<close>

theorem cli_revoke_ends_session:
  assumes "hex_two_digits X" and "db_inv X db" and "HostEndpoint_bind io ident = Ok host"
    and "sys_run X (sys_init db key host) s"
    and "cl_codec v = cn_codec C" "codec_lines (cn_codec C)" "cn_write C 0 = None" "cn_failure C = None"
    and "ve_crypto (cn_service_env C 0) = X" and "cn_others C 0 service = sy_service s" and "length d = 8"
    and "iv = \<lparr>iv_socket = Some path, iv_json = raw_json, iv_command = CmdRevoke \<lparr>ra_device = hex_encode X d\<rparr>\<rparr>"
    and "cli_parse_args args = Ok (Some iv)" and "sendable (cn_codec C) (cli_request iv)"
    and "service_handle (cn_service_env C 0) f (sy_service s) (cli_request iv) = Some (response, service', f')"
    and "rs_to_string (cn_codec C) response = Ok text"
  shows "\<exists>out. handle_connection C (Some uid) uid (\<lambda>_. None) (request_bytes (cn_codec C) (cli_request iv)) service f
            = Some (Ok (), service', f', out)
       \<and> (cli_main (v\<lparr>cl_socket := connected out\<rparr>) args = EXIT_OK \<longrightarrow>
            (\<forall>env n enc service2 host' n' enc' sent.
               serve_transport X env service' (sy_host s) n enc = Some (service2, host', n', enc' :: 'e option, sent) \<longrightarrow>
               d \<notin> set (peer_ids host') \<and> (\<forall>(a, p) \<in> set (pending host'). pn_device_id p \<noteq> d)))"
proof (intro exI conjI impI allI)
  let ?out = "as_bytes (text @ [newline])" and ?v = "v\<lparr>cl_socket := connected (as_bytes (text @ [newline]))\<rparr>"
  show "handle_connection C (Some uid) uid (\<lambda>_. None) (request_bytes (cn_codec C) (cli_request iv)) service f = Some (Ok (), service', f', ?out)"
    using assms(6-8,10,14-16) by (intro daemon_serves_line) simp_all
  fix env n enc service2 host' n' sent
  fix enc' :: "'e option"
  assume ok: "cli_main ?v args = EXIT_OK"
    and turn: "serve_transport X env service' (sy_host s) n enc = Some (service2, host', n', enc', sent)"
  have inv: "sys_inv X s" using sys_run_inv [OF assms(4,1) sys_init_inv [OF assms(2,3)]] .
  have "cli_main ?v args = (case response of RespOk _ \<Rightarrow> EXIT_OK | RespErr _ \<Rightarrow> EXIT_FAILURE)"
    using assms(5,6,12-14,16) by (intro cli_run_reply(2) [of _ iv path _ _ "text"]) simp_all
  then obtain ok where "response = RespOk ok" using ok by (cases response) (auto simp: EXIT_OK_def EXIT_FAILURE_def)
  then have sched: "d \<in> set (in_revoked_pending (sv_inner service'))" "revoked_in (hex_encode X d) (sv_pairing service')"
    using revoke_answer_scheduled [OF assms(1) _ assms(11)] inv assms(12,15) by (auto simp: sys_inv_def)
  obtain u where "sys_run X s (s\<lparr>sy_service := service', sy_unsaved := u\<rparr>)" using service_handle_run [OF assms(15,9)] by blast
  then have "sys_inv X (s\<lparr>sy_service := service', sy_unsaved := u\<rparr>)" using sys_run_inv [OF _ assms(1) inv] by blast
  then have "db_inv X (sv_pairing service')" "host_inv (sy_host s)" by (simp_all add: sys_inv_def)
  from turn_removes_queued [OF turn this sched] show "d \<notin> set (peer_ids host')" "\<forall>(a, p) \<in> set (pending host'). pn_device_id p \<noteq> d"
    by (auto simp: absent_def peer_ids_def dest: weak_map_of_SomeI)
qed

definition revoke_invocation :: Invocation where
  "revoke_invocation = \<lparr>iv_socket = Some ''/s'', iv_json = False,
     iv_command = CmdRevoke \<lparr>ra_device = hex_encode sample_crypto (as_bytes ''emersia/'')\<rparr>\<rparr>"

text \<open>A codec that knows this request and its answer.\<close>

definition revoke_json :: "Response \<Rightarrow> json_codec" where
  "revoke_json answer =
     \<lparr>rq_to_string = (\<lambda>r. if r = cli_request revoke_invocation then Ok ''{}'' else Err ''other''),
      rq_from_str = (\<lambda>s. if s = ''{}'' then Ok (cli_request revoke_invocation) else Err ''expected value''),
      rs_to_string = (\<lambda>r. if r = answer then Ok ''{0}'' else Err ''other''),
      rs_from_str = (\<lambda>s. if s = ''{0}'' then Ok answer else Err ''expected value'')\<rparr>"

lemma revoke_json_lines: "codec_lines (revoke_json answer)" "sendable (revoke_json answer) (cli_request revoke_invocation)"
proof -
  have "one_line ''{}''" "one_line ''{0}''" by code_simp+
  then show "codec_lines (revoke_json answer)" by (auto simp: codec_lines_def revoke_json_def split: if_splits)
  show "sendable (revoke_json answer) (cli_request revoke_invocation)" by (simp add: sendable_def revoke_json_def MAX_LINE_BYTES_def)
qed

lemma sample_revoke_handled:
  "\<exists>ok service' g. service_handle sample_venv (\<lambda>_. None) (Service_new sample_paired ''k'') (cli_request revoke_invocation)
     = Some (RespOk ok, service', g)"
proof -
  let ?d = "as_bytes ''emersia/''" and ?X = sample_crypto
  obtain dev' db g where rev: "revoke (Some 7) sample_env (\<lambda>_. None) sample_paired (dev_id sample_device) = (Ok dev', db, g)"
    using sample_revoke by blast
  have "decode_device_id (dev_id dev') = Some (Some ?d)"
    using revoke_Ok_id [OF sample_paired_inv rev] sample_device_hex decode_device_id_hex [OF sample_hex_two_digits, of ?d]
    by (simp add: as_bytes_def)
  then show ?thesis using rev sample_device_hex
    by (simp add: service_handle_def handle_revoke_def revoke_invocation_def sample_venv_def Service_new_def ok_response_def Let_def)
qed

theorem cli_revoke_ends_session_witness:
  "\<exists>ok service' g out service2 host' n' sent.
     handle_connection (sample_conn\<lparr>cn_codec := revoke_json (RespOk ok)\<rparr>) (Some 7) 7 (\<lambda>_. None)
         (request_bytes (revoke_json (RespOk ok)) (cli_request revoke_invocation)) (Service_new sample_paired ''k'') (\<lambda>_. None)
       = Some (Ok (), service', g, out)
     \<and> cli_main (stop_client\<lparr>cl_codec := revoke_json (RespOk ok), cl_socket := connected out\<rparr>)
         [''emersia'', ''--socket'', ''/s'', ''revoke'', hex_encode sample_crypto (as_bytes ''emersia/'')] = EXIT_OK
     \<and> serve_transport sample_crypto sample_quiet service' sample_host 0 (None :: unit option) = Some (service2, host', n', None, sent)
     \<and> as_bytes ''emersia/'' \<notin> set (peer_ids host')"
proof -
  let ?d = "as_bytes ''emersia/''" and ?X = sample_crypto and ?s = "sys_init sample_paired ''k'' sample_host"
  let ?args = "[''emersia'', ''--socket'', ''/s'', ''revoke'', hex_encode ?X ?d]"
  obtain ok service' g where handled: "service_handle sample_venv (\<lambda>_. None) (sy_service ?s) (cli_request revoke_invocation)
     = Some (RespOk ok, service', g)" using sample_revoke_handled by (auto simp: sys_init_def)
  let ?C = "sample_conn\<lparr>cn_codec := revoke_json (RespOk ok)\<rparr>" and ?v = "stop_client\<lparr>cl_codec := revoke_json (RespOk ok)\<rparr>"
  have "plain_word (hex_encode ?X ?d)" by code_simp
  then have args: "cli_parse_args ?args = Ok (Some revoke_invocation)"
    using plain_word_not_flag [of "hex_encode ?X ?d"]
    by (simp add: cli_parse_args_def CliFlags_none_def build_command_def simple_command_def nth_arg_def revoke_invocation_def)
  have iv: "revoke_invocation = \<lparr>iv_socket = Some ''/s'', iv_json = False, iv_command = CmdRevoke \<lparr>ra_device = hex_encode ?X ?d\<rparr>\<rparr>"
    by (simp add: revoke_invocation_def)
  have conn: "cl_codec ?v = cn_codec ?C" "codec_lines (cn_codec ?C)" "cn_write ?C 0 = None" "cn_failure ?C = None"
      "ve_crypto (cn_service_env ?C 0) = ?X" "cn_others ?C 0 (sy_service ?s) = sy_service ?s"
    by (simp_all add: sample_conn_def stop_client_def sample_venv_def revoke_json_lines)
  have req: "sendable (cn_codec ?C) (cli_request revoke_invocation)"
      "service_handle (cn_service_env ?C 0) (\<lambda>_. None) (sy_service ?s) (cli_request revoke_invocation) = Some (RespOk ok, service', g)"
      "rs_to_string (cn_codec ?C) (RespOk ok) = Ok ''{0}''"
    using handled revoke_json_lines by (simp_all add: sample_conn_def revoke_json_def)
  have start: "sys_run ?X ?s ?s" "length ?d = 8" by (simp_all add: sys_init_def as_bytes_def)
  note ends = cli_revoke_ends_session [where 'e = unit and uid = 7, OF sample_hex_two_digits sample_paired_inv sample_bind start(1)
      conn start(2) iv args req]
  obtain service2 host' n' sent where turn:
    "serve_transport ?X sample_quiet service' (sy_host ?s) 0 (None :: unit option) = Some (service2, host', n', None, sent)"
    by (auto simp: serve_transport_def take_revoked_def HostEndpoint_pump_def sample_quiet_def Let_def numeral_eq_Suc)
  from ends turn obtain out where out: "handle_connection ?C (Some 7) 7 (\<lambda>_. None)
       (request_bytes (cn_codec ?C) (cli_request revoke_invocation)) (sy_service ?s) (\<lambda>_. None) = Some (Ok (), service', g, out)"
      "cli_main (?v\<lparr>cl_socket := connected out\<rparr>) ?args = EXIT_OK \<Longrightarrow> ?d \<notin> set (peer_ids host')"
    by blast
  have "out = as_bytes (''{0}'' @ [newline])"
    using daemon_serves_line [OF conn(2-4) req(1), of "\<lambda>_. None" "sy_service ?s" _ service' g _ 7] out(1) conn(6) req(2,3) by (auto simp: as_bytes_def)
  then have "cli_main (?v\<lparr>cl_socket := connected out\<rparr>) ?args = EXIT_OK"
    using cli_run_reply(2) [OF args, of "''/s''" "?v\<lparr>cl_socket := connected out\<rparr>" "RespOk ok" "''{0}''"] conn(1,2) req(1,3)
    by (simp add: revoke_invocation_def)
  with out turn show ?thesis
    by (intro exI [of _ ok] exI [of _ service'] exI [of _ g] exI [of _ out] exI [of _ service2] exI [of _ host'] exI [of _ n'] exI [of _ sent])
       (simp add: sys_init_def)
qed

end
